(* ===== verification/Vitrum_Prelude.thy ===== *)
theory Vitrum_Prelude
  imports
    Main
    "HOL-Library.Word"
    "HOL-Library.AList"
    "HOL-Library.List_Lexorder"
    "HOL-Library.Char_ord"
    "HOL-Library.Signed_Division"
begin

text \<open>
  Shared vocabulary of the development.

  A Go byte string or byte subslice is a list of \<open>char\<close> (Isabelle's \<open>char\<close> has exactly 256 values),
  so that the literals of the source (\<open>''old ''\<close>, \<open>''VITRUMW2''\<close>) stay literals. A Go map is an
  association list with distinct keys (\<open>wf_map\<close>); the order of the list stands for the unspecified
  iteration order. Fixed-width unsigned integers are words. Go's \<open>int\<close>, whose width is 32 bits on
  the ARM firmware and 64 bits on the host, is \<open>go_int w\<close> with the width as an argument.
\<close>

section \<open>Types\<close>

type_synonym byte = char
type_synonym bytes = "byte list"
type_synonym u32 = "32 word"
type_synonym u64 = "64 word"
type_synonym ('k, 'v) gomap = "('k \<times> 'v) list"

named_theorems codec_simps \<open>encodings of integers and byte buffers\<close>
named_theorems gomap_simps \<open>lookups in Go maps\<close>

section \<open>Integers\<close>

text \<open>Conversion of a mathematical integer to a signed integer of \<open>w\<close> bits (two's complement).\<close>

definition go_int :: "nat \<Rightarrow> int \<Rightarrow> int" where
  "go_int w x = (x + 2 ^ (w - 1)) mod 2 ^ w - 2 ^ (w - 1)"

abbreviation int64 :: "int \<Rightarrow> int" where
  "int64 \<equiv> go_int 64"

text \<open>\<open>encoding/binary\<close>: \<open>k\<close> bytes, least significant first; the big-endian form is the reverse.\<close>

fun put_le :: "nat \<Rightarrow> nat \<Rightarrow> bytes" where
  "put_le 0 n = []"
| "put_le (Suc k) n = char_of (n mod 256) # put_le k (n div 256)"

fun get_le :: "bytes \<Rightarrow> nat" where
  "get_le [] = 0"
| "get_le (b # bs) = of_char b + 256 * get_le bs"

definition put_u32_le :: "u32 \<Rightarrow> bytes" where
  "put_u32_le x = put_le 4 (unat x)"

definition get_u32_le :: "bytes \<Rightarrow> u32" where
  "get_u32_le bs = of_nat (get_le (take 4 bs))"

definition put_u32_be :: "u32 \<Rightarrow> bytes" where
  "put_u32_be x = rev (put_le 4 (unat x))"

definition get_u32_be :: "bytes \<Rightarrow> u32" where
  "get_u32_be bs = of_nat (get_le (rev (take 4 bs)))"

section \<open>Buffers\<close>

text \<open>\<open>make([]byte, n)\<close> and \<open>copy(buf[off:], src)\<close>, which copies as much as fits.\<close>

definition make_bytes :: "nat \<Rightarrow> bytes" where
  "make_bytes n = replicate n (CHR 0x00)"

definition copy_at :: "nat \<Rightarrow> bytes \<Rightarrow> bytes \<Rightarrow> bytes" where
  "copy_at off src buf =
     take off buf @ take (length buf - off) src @ drop (off + length src) buf"

definition subslice :: "nat \<Rightarrow> nat \<Rightarrow> bytes \<Rightarrow> bytes" where
  "subslice i j buf = drop i (take j buf)"

section \<open>Go maps\<close>

definition wf_map :: "('k, 'v) gomap \<Rightarrow> bool" where
  "wf_map m \<longleftrightarrow> distinct (map fst m)"

fun map_put_all :: "('k, 'v) gomap \<Rightarrow> ('k, 'v) gomap \<Rightarrow> ('k, 'v) gomap" where
  "map_put_all m [] = m"
| "map_put_all m ((k, v) # ups) = map_put_all (AList.update k v m) ups"

section \<open>Lemmas on integers\<close>

lemma go_int_id: "0 < w \<Longrightarrow> - (2 ^ (w - 1)) \<le> x \<Longrightarrow> x < 2 ^ (w - 1) \<Longrightarrow> go_int w x = x"
proof -
  assume w: "0 < w" and lo: "- (2 ^ (w - 1)) \<le> x" and hi: "x < 2 ^ (w - 1)"
  have "(2::int) ^ w = 2 * 2 ^ (w - 1)"
    using w by (metis Suc_diff_1 power_Suc)
  with lo hi have "(x + 2 ^ (w - 1)) mod 2 ^ w = x + 2 ^ (w - 1)"
    by (intro mod_pos_pos_trivial) auto
  then show ?thesis by (simp add: go_int_def)
qed

lemma go_int_id_nat: "0 < w \<Longrightarrow> n < 2 ^ (w - 1) \<Longrightarrow> go_int w (int n) = int n"
proof (rule go_int_id)
  assume "n < 2 ^ (w - 1)"
  then have "int n < int (2 ^ (w - 1))" by (simp only: of_nat_less_iff)
  then show "int n < 2 ^ (w - 1)" by simp
  have "- (2 ^ (w - 1)) \<le> (0::int)" by simp
  then show "- (2 ^ (w - 1)) \<le> int n" using of_nat_0_le_iff [of n] by (rule order_trans)
qed

lemma go_int_bounds: "0 < w \<Longrightarrow> - (2 ^ (w - 1)) \<le> go_int w x \<and> go_int w x < 2 ^ (w - 1)"
proof -
  assume w: "0 < w"
  have two: "(2::int) ^ w = 2 * 2 ^ (w - 1)"
    using w by (metis Suc_diff_1 power_Suc)
  have "0 \<le> (x + 2 ^ (w - 1)) mod 2 ^ w" and "(x + 2 ^ (w - 1)) mod 2 ^ w < 2 ^ w"
    by simp_all
  with two show ?thesis by (simp add: go_int_def)
qed

lemma length_put_le [simp]: "length (put_le k n) = k"
  by (induction k arbitrary: n) auto

lemma put_le_Nil_iff [simp]: "put_le k n = [] \<longleftrightarrow> k = 0"
  by (cases k) auto

lemma get_le_put_le [codec_simps]: "get_le (put_le k n) = n mod 256 ^ k"
proof (induction k arbitrary: n)
  case 0
  then show ?case by simp
next
  case (Suc k)
  have "get_le (put_le (Suc k) n) = n mod 256 + 256 * (n div 256 mod 256 ^ k)"
    by (simp add: Suc)
  then show ?case by (simp add: mod_mult2_eq)
qed

lemma put_le_get_le: "length bs = k \<Longrightarrow> put_le k (get_le bs) = bs"
proof (induction bs arbitrary: k)
  case (Cons b bs)
  have "(of_char b + 256 * n) mod 256 = (of_char b :: nat)"
    and "(of_char b + 256 * n) div 256 = n" for n :: nat
    using of_char_mod_256 [of b, where 'a = nat] by simp_all
  with Cons show ?case by auto
qed simp

lemma get_le_less: "get_le bs < 256 ^ length bs"
proof (induction bs)
  case (Cons b bs)
  have "(of_char b :: nat) < 256" by simp
  moreover from Cons have "get_le bs + 1 \<le> 256 ^ length bs" by simp
  ultimately have "of_char b + 256 * get_le bs < 256 * 256 ^ length bs" by linarith
  then show ?case by simp
qed simp

lemma length_put_u32_le [simp]: "length (put_u32_le x) = 4"
  by (simp add: put_u32_le_def)

lemma length_put_u32_be [simp]: "length (put_u32_be x) = 4"
  by (simp add: put_u32_be_def)

lemma unat_u32_lt: "unat (x :: u32) < 4294967296"
  using unsigned_less [of x, where 'a = nat] by simp

lemma get_put_u32_le [codec_simps, simp]: "get_u32_le (put_u32_le x @ rest) = x"
  using unat_u32_lt [of x] by (simp add: get_u32_le_def put_u32_le_def codec_simps)

lemma put_get_u32_le: "4 \<le> length bs \<Longrightarrow> put_u32_le (get_u32_le bs) = take 4 bs"
  using get_le_less [of "take 4 bs"]
  by (simp add: put_u32_le_def get_u32_le_def put_le_get_le unat_of_nat)

lemma get_put_u32_be [codec_simps, simp]: "get_u32_be (put_u32_be x @ rest) = x"
  using unat_u32_lt [of x] by (simp add: get_u32_be_def put_u32_be_def codec_simps)

section \<open>Lemmas on buffers\<close>

lemma length_make_bytes [simp]: "length (make_bytes n) = n"
  by (simp add: make_bytes_def)

lemma drop_make_bytes [simp]: "drop n (make_bytes m) = make_bytes (m - n)"
  by (simp add: make_bytes_def)

lemma length_copy_at [simp]: "length (copy_at off src buf) = length buf"
  by (simp add: copy_at_def)

text \<open>Filling a fresh buffer field by field gives the concatenation of the fields, zero-padded.\<close>

lemma copy_at_append:
  "length pre = off \<Longrightarrow> length src \<le> k \<Longrightarrow>
   copy_at off src (pre @ make_bytes k) = (pre @ src) @ make_bytes (k - length src)"
  by (simp add: copy_at_def)

lemma copy_at_0:
  "length src \<le> k \<Longrightarrow> copy_at 0 src (make_bytes k) = src @ make_bytes (k - length src)"
  by (simp add: copy_at_def)

lemma subslice_append:
  "length a = i \<Longrightarrow> j = i + length b \<Longrightarrow> subslice i j (a @ b @ c) = b"
  by (simp add: subslice_def)

lemma subslice_join: "i \<le> j \<Longrightarrow> j \<le> k \<Longrightarrow> subslice i j xs @ subslice j k xs = subslice i k xs"
proof -
  assume "i \<le> j" "j \<le> k"
  then have "subslice i j xs = take (j - i) (drop i (take k xs))"
    and "subslice j k xs = drop (j - i) (drop i (take k xs))"
    by (simp_all add: subslice_def take_drop)
  then show ?thesis by (simp only: append_take_drop_id) (simp add: subslice_def)
qed

lemma take_join: "j \<le> k \<Longrightarrow> take j xs @ subslice j k xs = take k xs"
  using subslice_join [of 0 j k xs] by (simp add: subslice_def)

lemma take_drop_subslice: "take n (drop i xs) = subslice i (i + n) xs"
  by (simp add: subslice_def take_drop add.commute)

lemma length_subslice [simp]: "length (subslice i j xs) = min (length xs) j - i"
  by (simp add: subslice_def)

section \<open>Lemmas on Go maps\<close>

lemma wf_map_Nil [simp]: "wf_map []"
  by (simp add: wf_map_def)

lemma wf_map_update [simp]: "wf_map m \<Longrightarrow> wf_map (AList.update k v m)"
  by (simp add: wf_map_def distinct_update)

lemma update_fresh: "k \<notin> fst ` set m \<Longrightarrow> AList.update k v m = m @ [(k, v)]"
  by (induction m) auto

lemma map_put_all_append: "map_put_all m (a @ b) = map_put_all (map_put_all m a) b"
  by (induction m a rule: map_put_all.induct) auto

lemma map_put_all_fresh: "wf_map (m @ ups) \<Longrightarrow> map_put_all m ups = m @ ups"
  by (induction m ups rule: map_put_all.induct) (auto simp: wf_map_def update_fresh)

lemma wf_map_put_all [simp]: "wf_map m \<Longrightarrow> wf_map (map_put_all m ups)"
  by (induction m ups rule: map_put_all.induct) auto

lemma map_of_update [gomap_simps]: "map_of (AList.update k v m) = (map_of m)(k \<mapsto> v)"
  by (rule update_conv')

lemma map_of_put_all [gomap_simps]:
  "wf_map ups \<Longrightarrow> map_of (map_put_all m ups) = map_of m ++ map_of ups"
proof (induction m ups rule: map_put_all.induct)
  case (1 m)
  then show ?case by simp
next
  case (2 m k v ups)
  then have "k \<notin> fst ` set ups" and "wf_map ups" by (simp_all add: wf_map_def)
  then have "k \<notin> dom (map_of ups)" by (simp add: dom_map_of_conv_image_fst)
  with 2 \<open>wf_map ups\<close> show ?case
    by (simp add: gomap_simps map_add_upd_left del: fun_upd_apply)
qed

lemma fst_set_put_all: "fst ` set (map_put_all m ups) = fst ` set m \<union> fst ` set ups"
proof (induction m ups rule: map_put_all.induct)
  case (2 m k v ups)
  then show ?case by (auto simp: dom_update [of k v m, simplified])
qed simp

lemma map_of_wf_iff: "wf_map m \<Longrightarrow> map_of m k = Some v \<longleftrightarrow> (k, v) \<in> set m"
  by (auto simp: wf_map_def map_of_eq_Some_iff)

end
