(* ===== verification/Go_Strings.thy ===== *)
theory Go_Strings
  imports Vitrum_Prelude
begin

text \<open>
  The functions of Go's standard library that the program parses and prints with: \<open>bytes.Cut\<close>,
  \<open>bytes.Index\<close>, \<open>strings.CutPrefix\<close>, \<open>strconv.ParseInt\<close> and \<open>strconv.FormatInt\<close> in base 10,
  and \<open>encoding/hex\<close>. They are executable, and the lemmas give the round trips and splitting laws
  the component theories use.
\<close>

section \<open>Splitting\<close>

text \<open>\<open>bytes.Cut(s, []byte{c})\<close>: \<open>None\<close> when the separator does not occur.\<close>

fun cut_at :: "byte \<Rightarrow> bytes \<Rightarrow> (bytes \<times> bytes) option" where
  "cut_at c [] = None"
| "cut_at c (x # xs) =
     (if x = c then Some ([], xs)
      else map_option (\<lambda>(before, after). (x # before, after)) (cut_at c xs))"

definition has_prefix :: "bytes \<Rightarrow> bytes \<Rightarrow> bool" where
  "has_prefix p s \<longleftrightarrow> take (length p) s = p"

definition cut_prefix :: "bytes \<Rightarrow> bytes \<Rightarrow> bytes option" where
  "cut_prefix p s = (if has_prefix p s then Some (drop (length p) s) else None)"

text \<open>\<open>bytes.Index\<close>: the first position of a separator, \<open>None\<close> for Go's \<open>-1\<close>.\<close>

fun index_of :: "bytes \<Rightarrow> bytes \<Rightarrow> nat option" where
  "index_of sub [] = (if sub = [] then Some 0 else None)"
| "index_of sub (x # xs) =
     (if has_prefix sub (x # xs) then Some 0 else map_option Suc (index_of sub xs))"

section \<open>Decimal integers\<close>

definition digit_char :: "nat \<Rightarrow> byte" where
  "digit_char d = char_of (48 + d)"

definition is_digit :: "byte \<Rightarrow> bool" where
  "is_digit c \<longleftrightarrow> 48 \<le> (of_char c :: nat) \<and> (of_char c :: nat) \<le> 57"

definition digit_val :: "byte \<Rightarrow> nat" where
  "digit_val c = of_char c - 48"

fun format_nat :: "nat \<Rightarrow> bytes" where
  "format_nat n =
     (if n < 10 then [digit_char n] else format_nat (n div 10) @ [digit_char (n mod 10)])"

declare format_nat.simps [simp del]

definition format_int :: "int \<Rightarrow> bytes" where
  "format_int i = (if i < 0 then CHR ''-'' # format_nat (nat (- i)) else format_nat (nat i))"

fun digits_val :: "nat \<Rightarrow> bytes \<Rightarrow> nat option" where
  "digits_val acc [] = Some acc"
| "digits_val acc (c # cs) =
     (if is_digit c then digits_val (10 * acc + digit_val c) cs else None)"

definition parse_uint :: "bytes \<Rightarrow> nat option" where
  "parse_uint s = (if s = [] then None else digits_val 0 s)"

text \<open>\<open>strconv.ParseInt(s, 10, 64)\<close>: optional sign, decimal digits, range error outside int64.\<close>

definition parse_int64 :: "bytes \<Rightarrow> int option" where
  "parse_int64 s =
     (case s of [] \<Rightarrow> None
      | c # cs \<Rightarrow>
          let neg = (c = CHR ''-''); body = (if c = CHR ''-'' \<or> c = CHR ''+'' then cs else s)
          in case parse_uint body of None \<Rightarrow> None
             | Some n \<Rightarrow>
                 if \<not> neg \<and> 2 ^ 63 \<le> n then None
                 else if neg \<and> 2 ^ 63 < n then None
                 else Some (if neg then - int n else int n))"

section \<open>Hexadecimal\<close>

definition hex_digit :: "nat \<Rightarrow> byte" where
  "hex_digit d = (if d < 10 then char_of (48 + d) else char_of (87 + d))"

fun hex_encode :: "bytes \<Rightarrow> bytes" where
  "hex_encode [] = []"
| "hex_encode (b # bs) =
     hex_digit (of_char b div 16) # hex_digit (of_char b mod 16) # hex_encode bs"

text \<open>\<open>hex.Decode\<close> takes upper and lower case digits.\<close>

definition hex_val :: "byte \<Rightarrow> nat option" where
  "hex_val c =
     (let n = (of_char c :: nat)
      in if 48 \<le> n \<and> n \<le> 57 then Some (n - 48)
         else if 97 \<le> n \<and> n \<le> 102 then Some (n - 87)
         else if 65 \<le> n \<and> n \<le> 70 then Some (n - 55)
         else None)"

fun hex_decode :: "bytes \<Rightarrow> bytes option" where
  "hex_decode [] = Some []"
| "hex_decode [c] = None"
| "hex_decode (a # b # cs) =
     (case (hex_val a, hex_val b) of
        (Some x, Some y) \<Rightarrow> map_option ((#) (char_of (16 * x + y))) (hex_decode cs)
      | _ \<Rightarrow> None)"

section \<open>Lemmas on splitting\<close>

lemma has_prefix_iff: "has_prefix p s \<longleftrightarrow> (\<exists>t. s = p @ t)"
  by (metis append_eq_conv_conj append_take_drop_id has_prefix_def)

lemma has_prefix_append [simp]: "has_prefix p (p @ t)"
  by (simp add: has_prefix_def)

lemma cut_prefix_append [simp]: "cut_prefix p (p @ t) = Some t"
  by (simp add: cut_prefix_def)

lemma cut_prefix_SomeD: "cut_prefix p s = Some t \<Longrightarrow> s = p @ t"
  by (auto simp: cut_prefix_def has_prefix_iff split: if_splits)

lemma cut_at_append: "c \<notin> set a \<Longrightarrow> cut_at c (a @ c # b) = Some (a, b)"
  by (induction a) auto

lemma cut_at_SomeD: "cut_at c s = Some (a, b) \<Longrightarrow> s = a @ c # b \<and> c \<notin> set a"
  by (induction s arbitrary: a) (auto split: if_splits)

lemma cut_at_None_iff: "cut_at c s = None \<longleftrightarrow> c \<notin> set s"
  by (induction s) auto

lemma cut_at_shorter: "cut_at c s = Some (a, b) \<Longrightarrow> length b < length s"
  by (drule cut_at_SomeD) simp

lemma index_of_SomeD:
  "index_of sub s = Some i \<Longrightarrow> i \<le> length s \<and> has_prefix sub (drop i s)
     \<and> (\<forall>j<i. \<not> has_prefix sub (drop j s))"
proof (induction s arbitrary: i)
  case Nil
  then show ?case by (auto simp: has_prefix_def split: if_splits)
next
  case (Cons x xs)
  show ?case
  proof (cases "has_prefix sub (x # xs)")
    case True
    with Cons.prems show ?thesis by simp
  next
    case False
    with Cons.prems obtain k where k: "index_of sub xs = Some k" "i = Suc k" by auto
    from Cons.IH [OF k(1)] k(2) False show ?thesis
      by (auto simp: less_Suc_eq_0_disj)
  qed
qed

lemma index_of_NoneD: "index_of sub s = None \<Longrightarrow> \<not> has_prefix sub (drop j s)"
proof (induction s arbitrary: j)
  case Nil
  then show ?case by (auto simp: has_prefix_def split: if_splits)
next
  case (Cons x xs)
  then show ?case by (cases j) (auto split: if_splits)
qed

lemma index_of_eqI:
  assumes "i \<le> length s" "has_prefix sub (drop i s)" "\<And>j. j < i \<Longrightarrow> \<not> has_prefix sub (drop j s)"
  shows "index_of sub s = Some i"
proof (cases "index_of sub s")
  case None
  with assms(2) show ?thesis by (auto dest: index_of_NoneD)
next
  case (Some k)
  note k = index_of_SomeD [OF Some]
  have "k = i" using k assms by (metis linorder_neqE_nat)
  with Some show ?thesis by simp
qed

lemma index_of_bound: "index_of sub s = Some i \<Longrightarrow> i + length sub \<le> length s"
  by (drule index_of_SomeD) (auto simp: has_prefix_iff dest!: arg_cong [where f = length])

section \<open>Lemmas on integers\<close>

lemma is_digit_digit_char [simp]: "d < 10 \<Longrightarrow> is_digit (digit_char d)"
  by (simp add: is_digit_def digit_char_def)

lemma digit_val_digit_char [simp]: "d < 10 \<Longrightarrow> digit_val (digit_char d) = d"
  by (simp add: digit_val_def digit_char_def)

lemma format_nat_not_Nil [simp]: "format_nat n \<noteq> []"
  by (subst format_nat.simps) simp

lemma format_nat_digits: "c \<in> set (format_nat n) \<Longrightarrow> is_digit c"
proof (induction n rule: format_nat.induct)
  case (1 n)
  then show ?case by (auto simp: format_nat.simps [of n] split: if_splits)
qed

lemma digits_val_append:
  "digits_val acc (a @ b) = (case digits_val acc a of None \<Rightarrow> None | Some v \<Rightarrow> digits_val v b)"
  by (induction a arbitrary: acc) auto

lemma digits_val_format_nat: "digits_val 0 (format_nat n) = Some n"
proof (induction n rule: format_nat.induct)
  case (1 n)
  then show ?case by (auto simp: format_nat.simps [of n] digits_val_append)
qed

lemma parse_uint_format_nat [simp]: "parse_uint (format_nat n) = Some n"
  by (simp add: parse_uint_def digits_val_format_nat)

lemma not_digit_sign: "\<not> is_digit (CHR ''-'')" "\<not> is_digit (CHR ''+'')"
  "\<not> is_digit (CHR 0x0A)" "\<not> is_digit (CHR '' '')"
  by (simp_all add: is_digit_def)

lemma hd_format_nat: "format_nat n = c # cs \<Longrightarrow> c \<noteq> CHR ''-'' \<and> c \<noteq> CHR ''+''"
  using format_nat_digits [of c n] not_digit_sign by (auto simp del: not_digit_sign)

lemma newline_notin_format_nat [simp]: "CHR 0x0A \<notin> set (format_nat n)"
  using format_nat_digits not_digit_sign by blast

lemma newline_notin_format_int [simp]: "CHR 0x0A \<notin> set (format_int i)"
  by (simp add: format_int_def)

lemma parse_int64_format_int:
  assumes "- (2 ^ 63) \<le> i" "i < 2 ^ 63"
  shows "parse_int64 (format_int i) = Some i"
proof (cases "i < 0")
  case True
  with assms show ?thesis by (simp add: parse_int64_def format_int_def Let_def)
next
  case False
  obtain c cs where c: "format_nat (nat i) = c # cs"
    by (metis format_nat_not_Nil list.exhaust)
  from False c hd_format_nat [OF c] assms show ?thesis
    using parse_uint_format_nat [of "nat i"]
    by (auto simp: parse_int64_def format_int_def Let_def)
qed

lemma parse_int64_range:
  "parse_int64 s = Some i \<Longrightarrow> - (2 ^ 63) \<le> i \<and> i < 2 ^ 63"
  by (auto simp: parse_int64_def Let_def split: list.splits option.splits if_splits)

section \<open>Lemmas on hexadecimal\<close>

lemma length_hex_encode [simp]: "length (hex_encode bs) = 2 * length bs"
  by (induction bs) auto

lemma hex_val_hex_digit: "d < 16 \<Longrightarrow> hex_val (hex_digit d) = Some d"
  by (auto simp: hex_val_def hex_digit_def Let_def)

lemma of_char_lt_256: "(of_char c :: nat) < 256"
  by simp

lemma hex_decode_encode [simp]: "hex_decode (hex_encode bs) = Some bs"
proof (induction bs)
  case (Cons b bs)
  have "(of_char b :: nat) div 16 < 16"
    using of_char_lt_256 [of b] by linarith
  with Cons show ?case by (simp add: hex_val_hex_digit)
qed simp

lemma length_hex_decode: "hex_decode s = Some bs \<Longrightarrow> length s = 2 * length bs"
  by (induction s arbitrary: bs rule: hex_decode.induct)
    (auto split: option.splits)

end
