(* ===== verification/Block_Device.thy ===== *)
theory Block_Device
  imports Vitrum_Prelude
begin

text \<open>
  The storage interface of \<^verbatim>\<open>internal/state/blob.go\<close> (\<open>BlockDevice\<close>) and its contract.

  A Go interface value is a method table (\<open>block_ops\<close>) together with the state of the value behind
  it. The locale \<open>block_device\<close> states what \<open>Save\<close> and \<open>Load\<close> rely on: the medium is an array of
  bytes, a successful read returns the bytes of the range, a successful write replaces exactly the
  range, and a failed write leaves everything outside the range alone (inside it the contents are
  unknown). It is interpreted on the two devices of the repository's tests, \<open>memDevice\<close> and
  \<open>failDevice\<close>; the device of the firmware, \<open>sdDevice\<close>, is a wrapper around a driver that is not
  part of the repository.
\<close>

section \<open>The interface\<close>

record 'd block_ops =
  dv_info :: "'d \<Rightarrow> int \<times> int"
  dv_read :: "'d \<Rightarrow> int \<Rightarrow> nat \<Rightarrow> bytes option \<times> 'd"
  dv_write :: "'d \<Rightarrow> int \<Rightarrow> bytes \<Rightarrow> bool \<times> 'd"

definition in_range :: "int \<Rightarrow> nat \<Rightarrow> int \<Rightarrow> bool" where
  "in_range base n a \<longleftrightarrow> base \<le> a \<and> a < base + int n"

definition mem_slice :: "(int \<Rightarrow> byte) \<Rightarrow> int \<Rightarrow> nat \<Rightarrow> bytes" where
  "mem_slice m base n = map (\<lambda>i. m (base + int i)) [0..<n]"

section \<open>The devices of the tests\<close>

record mem_device =
  md_blockSize :: int
  md_data :: bytes

definition newMemDevice :: "int \<Rightarrow> nat \<Rightarrow> mem_device" where
  "newMemDevice bs sz = \<lparr>md_blockSize = bs, md_data = make_bytes sz\<rparr>"

definition md_Info :: "'z mem_device_scheme \<Rightarrow> int \<times> int" where
  "md_Info d = (md_blockSize d, int (length (md_data d)) sdiv md_blockSize d)"

definition md_ReadBlocks :: "'z mem_device_scheme \<Rightarrow> int \<Rightarrow> nat \<Rightarrow> bytes option \<times> 'z mem_device_scheme"
  where
  "md_ReadBlocks d lba n =
     (let off = int64 (lba * md_blockSize d)
      in if off < 0 \<or> int64 (off + int n) > int (length (md_data d)) then (None, d)
         else (Some (take n (drop (nat off) (md_data d))), d))"

definition md_WriteBlocks :: "'z mem_device_scheme \<Rightarrow> int \<Rightarrow> bytes \<Rightarrow> bool \<times> 'z mem_device_scheme"
  where
  "md_WriteBlocks d lba buf =
     (let off = int64 (lba * md_blockSize d)
      in if off < 0 \<or> int64 (off + int (length buf)) > int (length (md_data d)) then (False, d)
         else (True, d\<lparr>md_data := copy_at (nat off) buf (md_data d)\<rparr>))"

definition snapshot :: "'z mem_device_scheme \<Rightarrow> bytes" where
  "snapshot d = md_data d"

definition restore :: "'z mem_device_scheme \<Rightarrow> bytes \<Rightarrow> 'z mem_device_scheme" where
  "restore d b = d\<lparr>md_data := copy_at 0 b (md_data d)\<rparr>"

record fail_device = mem_device +
  fd_failWrites :: bool

definition fd_WriteBlocks :: "fail_device \<Rightarrow> int \<Rightarrow> bytes \<Rightarrow> bool \<times> fail_device" where
  "fd_WriteBlocks d lba buf =
     (if fd_failWrites d then (False, d) else md_WriteBlocks d lba buf)"

definition mem_ops :: "'z mem_device_scheme block_ops" where
  "mem_ops = \<lparr>dv_info = md_Info, dv_read = md_ReadBlocks, dv_write = md_WriteBlocks\<rparr>"

definition fail_ops :: "fail_device block_ops" where
  "fail_ops = \<lparr>dv_info = md_Info, dv_read = md_ReadBlocks, dv_write = fd_WriteBlocks\<rparr>"

text \<open>The byte at an address of the medium (0 beyond its end).\<close>

definition md_mem :: "'z mem_device_scheme \<Rightarrow> int \<Rightarrow> byte" where
  "md_mem d a =
     (if 0 \<le> a \<and> a < int (length (md_data d)) then md_data d ! nat a else CHR 0x00)"

section \<open>Lemmas on memory ranges\<close>

lemma length_mem_slice [simp]: "length (mem_slice m base n) = n"
  by (simp add: mem_slice_def)

lemma mem_slice_cong:
  "(\<And>a. in_range base n a \<Longrightarrow> m a = m' a) \<Longrightarrow> mem_slice m base n = mem_slice m' base n"
  by (auto simp: mem_slice_def in_range_def)

lemma mem_slice_eqI:
  assumes "length buf = n" "\<And>i. i < n \<Longrightarrow> m (base + int i) = buf ! i"
  shows "mem_slice m base n = buf"
  using assms by (auto simp: mem_slice_def intro: nth_equalityI)

lemma nth_copy_at:
  assumes "off + length src \<le> length buf" "i < length buf"
  shows "copy_at off src buf ! i =
    (if off \<le> i \<and> i < off + length src then src ! (i - off) else buf ! i)"
  using assms by (auto simp: copy_at_def nth_append)

section \<open>The contract\<close>

text \<open>Blocks from \<open>lba\<close> on that start at the byte address \<open>addr\<close> and lie within the device and within int64.\<close>

definition block_region :: "'d block_ops \<Rightarrow> 'd \<Rightarrow> int \<Rightarrow> nat \<Rightarrow> int \<Rightarrow> bool" where
  "block_region ops d lba n addr \<longleftrightarrow>
     (case dv_info ops d of (bs, blocks) \<Rightarrow>
        0 < bs \<and> 0 \<le> lba \<and> lba * bs = addr \<and> addr + int n < 2 ^ 63 \<and> addr + int n \<le> blocks * bs)"

locale block_device =
  fixes ops :: "'d block_ops"
    and mem :: "'d \<Rightarrow> int \<Rightarrow> byte"
  assumes info_read: "dv_info ops (snd (dv_read ops d lba n)) = dv_info ops d"
    and info_write: "dv_info ops (snd (dv_write ops d lba buf)) = dv_info ops d"
    and mem_read: "mem (snd (dv_read ops d lba n)) = mem d"
    and read_ok: "dv_read ops d lba n = (Some b, d') \<Longrightarrow> block_region ops d lba n addr \<Longrightarrow>
      b = mem_slice (mem d) addr n"
    and write_ok: "dv_write ops d lba buf = (True, d') \<Longrightarrow> block_region ops d lba (length buf) addr \<Longrightarrow>
      mem_slice (mem d') addr (length buf) = buf"
    and write_frame: "dv_write ops d lba buf = (ok, d') \<Longrightarrow> block_region ops d lba (length buf) addr \<Longrightarrow>
      \<not> in_range addr (length buf) a \<Longrightarrow> mem d' a = mem d a"
begin

lemma region_after_write:
  "dv_write ops d lba buf = (ok, d') \<Longrightarrow> block_region ops d' lba' n addr = block_region ops d lba' n addr"
  using info_write [of d lba buf] by (simp add: block_region_def)

lemma read_after_write:
  assumes w: "dv_write ops d lba buf = (True, d')"
    and r: "dv_read ops d' lba (length buf) = (Some b, d'')"
    and c: "block_region ops d lba (length buf) addr"
  shows "b = buf"
  using read_ok [OF r] write_ok [OF w c] c region_after_write [OF w] by simp

lemma slice_after_write:
  assumes w: "dv_write ops d lba buf = (ok, d')"
    and c: "block_region ops d lba (length buf) addr"
    and dis: "base + int n \<le> addr \<or> addr + int (length buf) \<le> base"
  shows "mem_slice (mem d') base n = mem_slice (mem d) base n"
proof (rule mem_slice_cong)
  fix a assume "in_range base n a"
  with dis have "\<not> in_range addr (length buf) a" by (auto simp: in_range_def)
  then show "mem d' a = mem d a" by (rule write_frame [OF w c])
qed

end

section \<open>The test devices keep the contract\<close>

lemma md_offset: "0 < bs \<Longrightarrow> 0 \<le> lba \<Longrightarrow> lba * bs + int n < 2 ^ 63 \<Longrightarrow> int64 (lba * bs) = lba * bs"
  by (rule go_int_id) (auto simp: add_strict_increasing order_trans [of _ 0])

lemma md_limit: "0 < bs \<Longrightarrow> 0 \<le> lba \<Longrightarrow> lba * bs + int n < 2 ^ 63 \<Longrightarrow>
    int64 (lba * bs + int n) = lba * bs + int n"
  by (rule go_int_id) (auto intro: order_trans [of _ 0])

lemma md_read_ok:
  assumes r: "md_ReadBlocks d lba n = (Some b, d')"
    and c: "0 < md_blockSize d" "0 \<le> lba" "lba * md_blockSize d + int n < 2 ^ 63"
  shows "b = mem_slice (md_mem d) (lba * md_blockSize d) n"
proof -
  let ?off = "lba * md_blockSize d"
  from c have nn: "0 \<le> ?off" by simp
  from r md_offset [OF c] md_limit [OF c] have
    b: "b = take n (drop (nat ?off) (md_data d))" and le: "?off + int n \<le> int (length (md_data d))"
    by (auto simp: md_ReadBlocks_def Let_def split: if_splits)
  from nn le have "nat ?off + n \<le> length (md_data d)" by linarith
  with nn show ?thesis
    unfolding b by (intro mem_slice_eqI [symmetric]) (auto simp: md_mem_def nat_add_distrib)
qed

lemma md_write_data:
  assumes w: "md_WriteBlocks d lba buf = (True, d')"
    and c: "0 < md_blockSize d" "0 \<le> lba" "lba * md_blockSize d + int (length buf) < 2 ^ 63"
  shows "d' = d\<lparr>md_data := copy_at (nat (lba * md_blockSize d)) buf (md_data d)\<rparr>"
    and "nat (lba * md_blockSize d) + length buf \<le> length (md_data d)"
proof -
  let ?off = "lba * md_blockSize d"
  from c have nn: "0 \<le> ?off" by simp
  from w md_offset [OF c] md_limit [OF c] have
    d': "d' = d\<lparr>md_data := copy_at (nat ?off) buf (md_data d)\<rparr>"
    and le: "?off + int (length buf) \<le> int (length (md_data d))"
    by (auto simp: md_WriteBlocks_def Let_def split: if_splits)
  show "d' = d\<lparr>md_data := copy_at (nat ?off) buf (md_data d)\<rparr>" by (rule d')
  from nn le show "nat ?off + length buf \<le> length (md_data d)" by linarith
qed

lemma md_write_mem:
  assumes w: "md_WriteBlocks d lba buf = (True, d')"
    and c: "0 < md_blockSize d" "0 \<le> lba" "lba * md_blockSize d + int (length buf) < 2 ^ 63"
  shows "md_mem d' a = (if in_range (lba * md_blockSize d) (length buf) a
      then buf ! nat (a - lba * md_blockSize d) else md_mem d a)"
proof -
  let ?off = "lba * md_blockSize d"
  have nn: "0 \<le> ?off" using c by simp
  note d' = md_write_data [OF w c]
  from d'(2) have len: "length (copy_at (nat ?off) buf (md_data d)) = length (md_data d)" by simp
  show ?thesis
  proof (cases "0 \<le> a \<and> a < int (length (md_data d))")
    case True
    then have "nat a < length (md_data d)" by linarith
    from nth_copy_at [OF d'(2) this] True nn show ?thesis
      unfolding d'(1) by (auto simp: md_mem_def len in_range_def nat_diff_distrib le_nat_iff)
  next
    case False
    then have "\<not> in_range ?off (length buf) a" using nn d'(2) by (auto simp: in_range_def)
    with False show ?thesis unfolding d'(1) by (auto simp: md_mem_def len)
  qed
qed

lemma md_write_slice:
  assumes w: "md_WriteBlocks d lba buf = (True, d')"
    and c: "0 < md_blockSize d" "0 \<le> lba" "lba * md_blockSize d + int (length buf) < 2 ^ 63"
  shows "mem_slice (md_mem d') (lba * md_blockSize d) (length buf) = buf"
  by (rule mem_slice_eqI) (simp_all add: md_write_mem [OF w c] in_range_def)

lemma md_write_frame:
  assumes w: "md_WriteBlocks d lba buf = (ok, d')"
    and c: "0 < md_blockSize d" "0 \<le> lba" "lba * md_blockSize d + int (length buf) < 2 ^ 63"
    and out: "\<not> in_range (lba * md_blockSize d) (length buf) a"
  shows "md_mem d' a = md_mem d a"
proof (cases ok)
  case True
  with w out show ?thesis by (simp add: md_write_mem [OF _ c])
next
  case False
  with w have "d' = d" by (auto simp: md_WriteBlocks_def Let_def split: if_splits)
  then show ?thesis by simp
qed

lemma md_WriteBlocks_info: "md_Info (snd (md_WriteBlocks d lba buf)) = md_Info d"
  by (simp add: md_WriteBlocks_def md_Info_def Let_def)

lemma case_md_Info: "case_prod P (md_Info d) = P (fst (md_Info d)) (snd (md_Info d))"
  by (simp add: md_Info_def)

lemma fst_md_Info: "fst (md_Info d) = md_blockSize d"
  by (simp add: md_Info_def)

lemmas md_region = block_region_def case_md_Info fst_md_Info

lemma md_ReadBlocks_same: "snd (md_ReadBlocks d lba n) = d"
  by (simp add: md_ReadBlocks_def Let_def)

interpretation memdev: block_device "mem_ops :: 'z mem_device_scheme block_ops" md_mem
  by unfold_locales
    (auto simp: mem_ops_def md_ReadBlocks_same md_WriteBlocks_info md_region
      intro: md_read_ok md_write_slice md_write_frame)

lemma fd_WriteBlocks_cases:
  "fd_WriteBlocks d lba buf = (ok, d') \<Longrightarrow>
     (\<not> ok \<and> d' = d) \<or> md_WriteBlocks d lba buf = (ok, d')"
  by (auto simp: fd_WriteBlocks_def split: if_splits)

lemma fd_WriteBlocks_info: "md_Info (snd (fd_WriteBlocks d lba buf)) = md_Info d"
  by (simp add: fd_WriteBlocks_def md_WriteBlocks_info)

interpretation faildev: block_device fail_ops md_mem
  by unfold_locales
    (auto simp: fail_ops_def md_ReadBlocks_same fd_WriteBlocks_info md_region dest!: fd_WriteBlocks_cases
      intro: md_read_ok md_write_slice md_write_frame)

end
