(* ===== verification/Blob.thy ===== *)
theory Blob
  imports Block_Device
begin

text \<open>
  The encrypted, authenticated state blob of \<^verbatim>\<open>internal/state/blob.go\<close>: the payload codec
  (\<open>encode\<close>, \<open>decode\<close>), the slot arithmetic (\<open>slotLBA\<close>), and \<open>save\<close> and \<open>load\<close> over a block device.

  The cryptographic primitives are a parameter (\<open>crypto\<close>): the definitions hold for any hash and
  any AEAD, and \<open>aead_ok\<close> names what the round trips rely on. The nonce that \<open>crypto/rand\<close>
  delivers is an argument of \<open>save\<close> (\<open>None\<close> for a failing source). The width of Go's \<open>int\<close> is an
  argument of \<open>decode\<close> and \<open>loadSlot\<close>, where a \<open>uint32\<close> from the medium is converted to \<open>int\<close>.
\<close>

section \<open>Cryptographic primitives\<close>

record crypto =
  cr_sha256 :: "bytes \<Rightarrow> bytes"
  cr_seal :: "bytes \<Rightarrow> bytes \<Rightarrow> bytes \<Rightarrow> bytes \<Rightarrow> bytes"
  cr_open :: "bytes \<Rightarrow> bytes \<Rightarrow> bytes \<Rightarrow> bytes \<Rightarrow> bytes option"

text \<open>\<open>cr_seal key nonce plaintext aad\<close>; opening a sealed text gives it back, the tag is 16 bytes.\<close>

definition aead_ok :: "crypto \<Rightarrow> bool" where
  "aead_ok cr \<longleftrightarrow>
     (\<forall>k n p a. cr_open cr k n (cr_seal cr k n p a) a = Some p) \<and>
     (\<forall>k n p a. length (cr_seal cr k n p a) = length p + 16)"

section \<open>Layout\<close>

definition Offset :: int where "Offset = 16 * 1024 * 1024"
definition SlotSize :: nat where "SlotSize = 64 * 1024"
definition StateKeyLen :: nat where "StateKeyLen = 32"
definition magicLen :: nat where "magicLen = 8"
definition generationLen :: nat where "generationLen = 4"
definition lengthLen :: nat where "lengthLen = 4"
definition nonceLen :: nat where "nonceLen = 16"
definition tagLen :: nat where "tagLen = 16"
definition nonceOffset :: nat where "nonceOffset = magicLen + generationLen + lengthLen"
definition headerLen :: nat where "headerLen = nonceOffset + nonceLen"
definition magic :: bytes where "magic = ''VITRUMW2''"

lemmas layout_defs = SlotSize_def StateKeyLen_def magicLen_def generationLen_def lengthLen_def
  nonceLen_def tagLen_def nonceOffset_def headerLen_def

datatype blob_error =
    BadKeyLen nat
  | NonceError
  | BlobTooLarge nat
  | OriginTooLong bytes
  | NoteTooLong bytes
  | UnsupportedBlockSize int
  | DeviceTooSmall
  | ErrWriteFailed
  | ReadError
  | BadMagic
  | BadCiphertextLength
  | AuthenticationFailed
  | TruncatedOriginLength
  | TruncatedOrigin
  | TruncatedNote
  | SliceBoundsPanic
  | ErrNoState

type_synonym blob_states = "(bytes, bytes) gomap"

record loadedBlob =
  lb_states :: blob_states
  lb_gen :: u32
  lb_hash :: bytes

section \<open>The payload codec\<close>

fun encode_keys :: "blob_states \<Rightarrow> bytes list \<Rightarrow> blob_error + bytes" where
  "encode_keys states [] = Inr []"
| "encode_keys states (origin # rest) =
     (let note = (case map_of states origin of Some n \<Rightarrow> n | None \<Rightarrow> [])
      in if 65535 < length origin then Inl (OriginTooLong origin)
         else if 4294967295 < length note then Inl (NoteTooLong origin)
         else case encode_keys states rest of
                Inl e \<Rightarrow> Inl e
              | Inr b \<Rightarrow> Inr (put_le 2 (length origin) @ origin @ put_le 4 (length note) @ note @ b))"

definition encode :: "blob_states \<Rightarrow> blob_error + bytes" where
  "encode states = encode_keys states (sort (map fst states))"

function decode_loop :: "nat \<Rightarrow> bytes \<Rightarrow> blob_states \<Rightarrow> blob_error + blob_states" where
  "decode_loop w payload states =
     (if payload = [] then Inr states
      else if length payload < 2 then Inl TruncatedOriginLength
      else
        let originLen = get_le (take 2 payload); p1 = drop 2 payload in
        if length p1 < originLen + 4 then Inl TruncatedOrigin
        else
          let origin = take originLen p1; p2 = drop originLen p1;
              noteLen = go_int w (int (get_le (take 4 p2))); p3 = drop 4 p2 in
          if int (length p3) < noteLen then Inl TruncatedNote
          else if noteLen < 0 then Inl SliceBoundsPanic
          else decode_loop w (drop (nat noteLen) p3)
                 (AList.update origin (take (nat noteLen) p3) states))"
  by pat_completeness auto
termination
  by (relation "measure (\<lambda>(w, payload, states). length payload)") auto

declare decode_loop.simps [simp del]

definition decode :: "nat \<Rightarrow> bytes \<Rightarrow> blob_error + blob_states" where
  "decode w payload = decode_loop w payload []"

section \<open>Slots\<close>

definition slotLBA :: "'d block_ops \<Rightarrow> 'd \<Rightarrow> int \<Rightarrow> nat \<Rightarrow> blob_error + int" where
  "slotLBA ops d offset slot =
     (let (blockSize, blocks) = dv_info ops d
      in if blockSize \<le> 0 \<or> int SlotSize smod blockSize \<noteq> 0 \<or> offset smod blockSize \<noteq> 0
         then Inl (UnsupportedBlockSize blockSize)
         else
           let slotOffset = int64 (offset + int64 (int slot * int SlotSize))
           in if blocks < int64 (slotOffset + int SlotSize) sdiv blockSize
              then Inl DeviceTooSmall
              else Inr (slotOffset sdiv blockSize))"

definition genAAD :: "u32 \<Rightarrow> bytes" where
  "genAAD gen = put_u32_le gen"

text \<open>AES-256-GCM is available for every key of the right length.\<close>

definition newAEAD :: "bytes \<Rightarrow> blob_error option" where
  "newAEAD key = (if length key \<noteq> StateKeyLen then Some (BadKeyLen (length key)) else None)"

section \<open>Saving\<close>

definition blob_buffer :: "u32 \<Rightarrow> bytes \<Rightarrow> bytes \<Rightarrow> bytes" where
  "blob_buffer gen nonce ciphertext =
     (let buf = make_bytes SlotSize;
          buf = copy_at 0 magic buf;
          buf = copy_at magicLen (put_u32_le gen) buf;
          buf = copy_at (magicLen + generationLen) (put_u32_le (of_nat (length ciphertext))) buf;
          buf = copy_at nonceOffset nonce buf
      in copy_at headerLen ciphertext buf)"

definition save :: "crypto \<Rightarrow> 'd block_ops \<Rightarrow> 'd \<Rightarrow> int \<Rightarrow> bytes \<Rightarrow> bytes option \<Rightarrow> u32 \<Rightarrow>
    blob_states \<Rightarrow> (blob_error + bytes) \<times> 'd" where
  "save cr ops d offset key rnd gen states =
     (case newAEAD key of Some e \<Rightarrow> (Inl e, d)
      | None \<Rightarrow>
      (case encode states of Inl e \<Rightarrow> (Inl e, d)
       | Inr plaintext \<Rightarrow>
       (case rnd of None \<Rightarrow> (Inl NonceError, d)
        | Some nonce \<Rightarrow>
          let ciphertext = cr_seal cr key nonce plaintext (genAAD gen)
          in if SlotSize < headerLen + length ciphertext
             then (Inl (BlobTooLarge (length ciphertext)), d)
             else
               let buf = blob_buffer gen nonce ciphertext
               in case slotLBA ops d offset (unat gen mod 2) of Inl e \<Rightarrow> (Inl e, d)
                  | Inr lba \<Rightarrow>
                      (case dv_write ops d lba buf of
                         (False, d') \<Rightarrow> (Inl ErrWriteFailed, d')
                       | (True, d') \<Rightarrow>
                           (Inr (cr_sha256 cr (take (headerLen + length ciphertext) buf)), d')))))"

definition Save :: "crypto \<Rightarrow> 'd block_ops \<Rightarrow> 'd \<Rightarrow> int \<Rightarrow> bytes \<Rightarrow> bytes option \<Rightarrow> u32 \<Rightarrow>
    blob_states \<Rightarrow> blob_error option \<times> 'd" where
  "Save cr ops d offset key rnd gen states =
     (case save cr ops d offset key rnd gen states of
        (Inl e, d') \<Rightarrow> (Some e, d')
      | (Inr h, d') \<Rightarrow> (None, d'))"

section \<open>Loading\<close>

text \<open>Interpretation of the bytes of one slot: everything \<open>loadSlot\<close> does after the read.\<close>

definition parseSlot :: "crypto \<Rightarrow> nat \<Rightarrow> bytes \<Rightarrow> bytes \<Rightarrow> blob_error + loadedBlob" where
  "parseSlot cr w key buf =
     (if take magicLen buf \<noteq> magic then Inl BadMagic
      else
        let gen = get_u32_le (drop magicLen buf);
            len = get_u32_le (drop (magicLen + generationLen) buf);
            nonce = subslice nonceOffset headerLen buf;
            n = go_int w (int (unat len))
        in if n < int tagLen \<or> int SlotSize - int headerLen < n then Inl BadCiphertextLength
           else
             let ciphertext = subslice headerLen (headerLen + nat n) buf
             in case newAEAD key of Some e \<Rightarrow> Inl e
                | None \<Rightarrow>
                  (case cr_open cr key nonce ciphertext (genAAD gen) of
                     None \<Rightarrow> Inl AuthenticationFailed
                   | Some plaintext \<Rightarrow>
                       (case decode w plaintext of Inl e \<Rightarrow> Inl e
                        | Inr states \<Rightarrow>
                            Inr \<lparr>lb_states = states, lb_gen = gen,
                                 lb_hash = cr_sha256 cr (take (headerLen + nat n) buf)\<rparr>)))"

definition loadSlot :: "crypto \<Rightarrow> nat \<Rightarrow> 'd block_ops \<Rightarrow> 'd \<Rightarrow> int \<Rightarrow> nat \<Rightarrow> bytes \<Rightarrow>
    (blob_error + loadedBlob) \<times> 'd" where
  "loadSlot cr w ops d offset slot key =
     (case slotLBA ops d offset slot of Inl e \<Rightarrow> (Inl e, d)
      | Inr lba \<Rightarrow>
          (case dv_read ops d lba SlotSize of
             (None, d') \<Rightarrow> (Inl ReadError, d')
           | (Some buf, d') \<Rightarrow> (parseSlot cr w key buf, d')))"

definition newer :: "loadedBlob option \<Rightarrow> blob_error + loadedBlob \<Rightarrow> loadedBlob option" where
  "newer newest r =
     (case r of Inl _ \<Rightarrow> newest
      | Inr blob \<Rightarrow>
          (case newest of None \<Rightarrow> Some blob
           | Some n \<Rightarrow> if lb_gen n < lb_gen blob then Some blob else Some n))"

text \<open>A panic of \<open>decode\<close> is not an error that \<open>load\<close> could skip: it ends the call.\<close>

definition load :: "crypto \<Rightarrow> nat \<Rightarrow> 'd block_ops \<Rightarrow> 'd \<Rightarrow> int \<Rightarrow> bytes \<Rightarrow>
    (blob_error + loadedBlob) \<times> 'd" where
  "load cr w ops d offset key =
     (if length key \<noteq> StateKeyLen then (Inl (BadKeyLen (length key)), d)
      else
        let (r0, d0) = loadSlot cr w ops d offset 0 key
        in if r0 = Inl SliceBoundsPanic then (r0, d0)
           else
             let (r1, d1) = loadSlot cr w ops d0 offset 1 key
             in if r1 = Inl SliceBoundsPanic then (r1, d1)
                else case newer (newer None r0) r1 of
                       None \<Rightarrow> (Inl ErrNoState, d1)
                     | Some blob \<Rightarrow> (Inr blob, d1))"

definition Load :: "crypto \<Rightarrow> nat \<Rightarrow> 'd block_ops \<Rightarrow> 'd \<Rightarrow> int \<Rightarrow> bytes \<Rightarrow>
    (blob_error + blob_states \<times> u32) \<times> 'd" where
  "Load cr w ops d offset key =
     (case load cr w ops d offset key of
        (Inl e, d') \<Rightarrow> (Inl e, d')
      | (Inr blob, d') \<Rightarrow> (Inr (lb_states blob, lb_gen blob), d'))"

section \<open>Lemmas on the codec\<close>

text \<open>The widths of Go's \<open>int\<close> on the program's two platforms (ARM firmware, 64-bit host).\<close>

definition int_width :: "nat \<Rightarrow> bool" where
  "int_width w \<longleftrightarrow> w = 32 \<or> w = 64"

definition state_of :: "blob_states \<Rightarrow> bytes \<Rightarrow> bytes" where
  "state_of states origin = (case map_of states origin of Some n \<Rightarrow> n | None \<Rightarrow> [])"

definition encode_entry :: "bytes \<Rightarrow> bytes \<Rightarrow> bytes" where
  "encode_entry origin note = put_le 2 (length origin) @ origin @ put_le 4 (length note) @ note"

definition entry_fits :: "blob_states \<Rightarrow> bytes \<Rightarrow> bool" where
  "entry_fits states origin \<longleftrightarrow> length origin \<le> 65535 \<and> length (state_of states origin) \<le> 4294967295"

lemma encode_keys_Cons:
  "encode_keys states (origin # rest) =
     (if 65535 < length origin then Inl (OriginTooLong origin)
      else if 4294967295 < length (state_of states origin) then Inl (NoteTooLong origin)
      else case encode_keys states rest of Inl e \<Rightarrow> Inl e
           | Inr b \<Rightarrow> Inr (encode_entry origin (state_of states origin) @ b))"
  by (simp add: Let_def state_of_def [symmetric] encode_entry_def split: sum.split)

declare encode_keys.simps(2) [simp del]

lemma encode_keys_Inr_iff:
  "(\<exists>b. encode_keys states ks = Inr b) \<longleftrightarrow> (\<forall>k \<in> set ks. entry_fits states k)"
  by (induction ks) (auto simp: encode_keys_Cons entry_fits_def split: sum.split)

lemma encode_keys_InrD:
  "encode_keys states ks = Inr b \<Longrightarrow>
     b = concat (map (\<lambda>k. encode_entry k (state_of states k)) ks) \<and> (\<forall>k \<in> set ks. entry_fits states k)"
  by (induction ks arbitrary: b)
    (auto simp: encode_keys_Cons entry_fits_def split: sum.splits if_splits)

lemma decode_loop_Nil [simp]: "decode_loop w [] states = Inr states"
  by (simp add: decode_loop.simps)

lemma decode_loop_entry:
  assumes "0 < w" "length origin \<le> 65535" "length note \<le> 4294967295" "length note < 2 ^ (w - 1)"
  shows "decode_loop w (encode_entry origin note @ rest) states
    = decode_loop w rest (AList.update origin note states)"
  using assms
  by (subst decode_loop.simps) (simp add: encode_entry_def codec_simps go_int_id_nat Let_def)

lemma length_le_encode_entry: "length note \<le> length (encode_entry origin note)"
  by (simp add: encode_entry_def)

lemma decode_loop_encode_keys:
  assumes "0 < w"
  shows "encode_keys states ks = Inr b \<Longrightarrow> length b < 2 ^ (w - 1) \<Longrightarrow>
    decode_loop w b acc = Inr (map_put_all acc (map (\<lambda>k. (k, state_of states k)) ks))"
proof (induction ks arbitrary: b acc)
  case Nil
  then show ?case by simp
next
  case (Cons k ks)
  from Cons.prems(1) obtain b' where b': "encode_keys states ks = Inr b'"
    and b: "b = encode_entry k (state_of states k) @ b'"
    and fits: "length k \<le> 65535" "length (state_of states k) \<le> 4294967295"
    by (auto simp: encode_keys_Cons split: sum.splits if_splits)
  from Cons.prems(2) b have "length (encode_entry k (state_of states k)) < 2 ^ (w - 1)"
    and len: "length b' < 2 ^ (w - 1)"
    by simp_all
  with length_le_encode_entry [of "state_of states k" k]
  have "length (state_of states k) < 2 ^ (w - 1)"
    by linarith
  with assms fits len Cons.IH [OF b'] show ?case
    by (simp add: b decode_loop_entry)
qed

text \<open>The decoded map, as a list: the entries in the order of their origins.\<close>

definition canonical :: "blob_states \<Rightarrow> blob_states" where
  "canonical states = map (\<lambda>k. (k, state_of states k)) (sort (map fst states))"

lemma wf_canonical [simp]: "wf_map states \<Longrightarrow> wf_map (canonical states)"
  by (simp add: wf_map_def canonical_def comp_def)

lemma map_of_canonical [simp]: "map_of (canonical states) = map_of states"
proof
  fix k
  show "map_of (canonical states) k = map_of states k"
  proof (cases "k \<in> set (map fst states)")
    case True
    then obtain v where "map_of states k = Some v" by (metis list.set_map map_of_eq_None_iff not_None_eq)
    with True show ?thesis
      by (simp add: canonical_def map_of_map_restrict state_of_def restrict_map_def)
  next
    case False
    then have "map_of states k = None" by (simp add: map_of_eq_None_iff)
    with False show ?thesis
      by (simp add: canonical_def map_of_map_restrict restrict_map_def)
  qed
qed

lemma decode_encode_canonical:
  assumes "0 < w" "wf_map states" "encode states = Inr b" "length b < 2 ^ (w - 1)"
  shows "decode w b = Inr (canonical states)"
proof -
  have "decode w b = Inr (map_put_all [] (canonical states))"
    using decode_loop_encode_keys [OF assms(1) _ assms(4)] assms(3)
    by (simp add: decode_def encode_def canonical_def)
  with assms(2) show ?thesis by (simp add: map_put_all_fresh)
qed

section \<open>Lemmas on the layout of a blob\<close>

text \<open>The bytes the digest covers: header and ciphertext, without the padding of the slot.\<close>

definition blob_image :: "u32 \<Rightarrow> bytes \<Rightarrow> bytes \<Rightarrow> bytes" where
  "blob_image gen nonce ct =
     magic @ put_u32_le gen @ put_u32_le (of_nat (length ct)) @ nonce @ ct"

lemma length_magic [simp]: "length magic = 8"
  by (simp add: magic_def)

lemma length_blob_image [simp]:
  "length (blob_image gen nonce ct) = 16 + length nonce + length ct"
  by (simp add: blob_image_def)

lemma blob_buffer_eq:
  assumes "length nonce = nonceLen" "headerLen + length ct \<le> SlotSize"
  shows "blob_buffer gen nonce ct =
    blob_image gen nonce ct @ make_bytes (SlotSize - headerLen - length ct)"
proof -
  have *: "magic @ put_u32_le gen @ put_u32_le (of_nat (length ct)) @ nonce @ ct
    = (((magic @ put_u32_le gen) @ put_u32_le (of_nat (length ct))) @ nonce) @ ct"
    by simp
  show ?thesis
    using assms unfolding blob_buffer_def blob_image_def * Let_def
    by (simp add: copy_at_0 copy_at_append layout_defs del: append_assoc)
qed

lemma length_blob_buffer [simp]: "length (blob_buffer gen nonce ct) = SlotSize"
  by (simp add: blob_buffer_def Let_def)

lemma take_blob_buffer:
  assumes "length nonce = nonceLen" "headerLen + length ct \<le> SlotSize"
  shows "take (headerLen + length ct) (blob_buffer gen nonce ct) = blob_image gen nonce ct"
  using assms by (simp add: blob_buffer_eq) (simp add: layout_defs)

lemma blob_image_inject:
  assumes "blob_image g n c = blob_image g' n' c'" "length n = length n'"
  shows "g = g' \<and> n = n' \<and> c = c'"
proof -
  from assms have eqs: "put_u32_le g = put_u32_le g'" "n = n'" "c = c'"
    by (auto simp: blob_image_def)
  from eqs(1) have "get_u32_le (put_u32_le g @ []) = get_u32_le (put_u32_le g' @ [])" by simp
  then have "g = g'" by (simp only: get_put_u32_le)
  with eqs show ?thesis by simp
qed

lemma go_int_slot: "int_width w \<Longrightarrow> n \<le> SlotSize \<Longrightarrow> go_int w (int n) = int n"
  by (rule go_int_id_nat) (auto simp: int_width_def SlotSize_def)

lemma unat_u32_slot: "n \<le> SlotSize \<Longrightarrow> unat (of_nat n :: u32) = n"
  by (simp add: unat_of_nat SlotSize_def)

text \<open>Reading back the fields of a buffer that starts with an image.\<close>

lemma image_fields:
  assumes "length nonce = nonceLen" "headerLen + length ct \<le> SlotSize"
    and buf: "buf = blob_image gen nonce ct @ pad"
  shows "take magicLen buf = magic"
    and "get_u32_le (drop magicLen buf) = gen"
    and "get_u32_le (drop (magicLen + generationLen) buf) = of_nat (length ct)"
    and "subslice nonceOffset headerLen buf = nonce"
    and "subslice headerLen (headerLen + length ct) buf = ct"
    and "take (headerLen + length ct) buf = blob_image gen nonce ct"
  using assms by (simp_all add: blob_image_def layout_defs subslice_def)

lemma parseSlot_image:
  assumes n: "length nonce = nonceLen" and fits: "headerLen + length ct \<le> SlotSize"
    and tag: "tagLen \<le> length ct" and key: "length key = StateKeyLen" and w: "int_width w"
    and buf: "buf = blob_image gen nonce ct @ pad"
  shows "parseSlot cr w key buf =
    (case cr_open cr key nonce ct (genAAD gen) of None \<Rightarrow> Inl AuthenticationFailed
     | Some plaintext \<Rightarrow>
         (case decode w plaintext of Inl e \<Rightarrow> Inl e
          | Inr states \<Rightarrow> Inr \<lparr>lb_states = states, lb_gen = gen,
              lb_hash = cr_sha256 cr (blob_image gen nonce ct)\<rparr>))"
proof -
  note f = image_fields [OF n fits buf]
  from fits have le: "length ct \<le> SlotSize" by simp
  have len: "go_int w (int (unat (of_nat (length ct) :: u32))) = int (length ct)"
    unfolding unat_u32_slot [OF le] using w le by (rule go_int_slot)
  from fits tag have "\<not> (int (length ct) < int tagLen \<or> int SlotSize - int headerLen < int (length ct))"
    by linarith
  then show ?thesis
    unfolding parseSlot_def Let_def f len nat_int using key by (simp add: newAEAD_def)
qed

lemma go_int_u32_nonneg:
  assumes "int_width w" "l < 2 ^ 32" "0 \<le> go_int w (int l)"
  shows "go_int w (int l) = int l"
proof -
  from assms(2) have l: "int l < 2 ^ 32" by (metis of_nat_less_iff of_nat_numeral of_nat_power)
  show ?thesis
  proof (cases "w = 64")
    case True
    with l show ?thesis by (intro go_int_id) auto
  next
    case False
    with assms(1) have w: "w = 32" by (simp add: int_width_def)
    have "int l < 2 ^ 31"
    proof (rule ccontr)
      assume "\<not> int l < 2 ^ 31"
      with l have "(int l + 2 ^ 31 - 2 ^ 32) mod 2 ^ 32 = int l + 2 ^ 31 - 2 ^ 32"
        by (intro mod_pos_pos_trivial) auto
      then have "(int l + 2 ^ 31) mod 2 ^ 32 = int l + 2 ^ 31 - 2 ^ 32"
        by (simp only: minus_mod_self2)
      with assms(3) w l show False by (simp add: go_int_def)
    qed
    with w show ?thesis by (intro go_int_id) auto
  qed
qed

text \<open>Conversely, a slot that parses holds an image whose ciphertext opens under the key.\<close>

lemma parseSlot_InrD:
  assumes p: "parseSlot cr w key buf = Inr blob" and len: "length buf = SlotSize" and w: "int_width w"
  obtains nonce ct pt where
    "length nonce = nonceLen" "tagLen \<le> length ct" "headerLen + length ct \<le> SlotSize"
    "cr_open cr key nonce ct (genAAD (lb_gen blob)) = Some pt"
    "decode w pt = Inr (lb_states blob)"
    "lb_hash blob = cr_sha256 cr (blob_image (lb_gen blob) nonce ct)"
    "take (headerLen + length ct) buf = blob_image (lb_gen blob) nonce ct"
proof -
  define gen where "gen = get_u32_le (drop magicLen buf)"
  define n where "n = go_int w (int (unat (get_u32_le (drop (magicLen + generationLen) buf))))"
  define nonce where "nonce = subslice nonceOffset headerLen buf"
  define ct where "ct = subslice headerLen (headerLen + nat n) buf"
  from p have mg: "take magicLen buf = magic"
    and n1: "int tagLen \<le> n" "n \<le> int SlotSize - int headerLen"
    and op: "\<exists>pt. cr_open cr key nonce ct (genAAD gen) = Some pt \<and> decode w pt = Inr (lb_states blob)"
    and g: "lb_gen blob = gen"
    and h: "lb_hash blob = cr_sha256 cr (take (headerLen + nat n) buf)"
    unfolding parseSlot_def Let_def gen_def [symmetric] n_def [symmetric] nonce_def [symmetric]
      ct_def [symmetric]
    by (auto split: if_splits option.splits sum.splits)
  from n1 have fits: "headerLen + nat n \<le> SlotSize" by (simp add: layout_defs)
  then have lct: "length ct = nat n" by (simp add: ct_def subslice_def len)
  have ln: "length nonce = nonceLen" by (simp add: nonce_def subslice_def len layout_defs)
  have "go_int w (int (unat (get_u32_le (drop (magicLen + generationLen) buf)))) =
      int (unat (get_u32_le (drop (magicLen + generationLen) buf)))"
    using w unat_u32_lt n1(1) unfolding n_def by (intro go_int_u32_nonneg) auto
  then have "unat (get_u32_le (drop (magicLen + generationLen) buf)) = length ct"
    by (simp add: lct n_def del: of_nat_unat)
  then have l: "get_u32_le (drop (magicLen + generationLen) buf) = of_nat (length ct)"
    by (metis of_nat_unat ucast_id)
  have "take (headerLen + length ct) buf = take magicLen buf @ take 4 (drop magicLen buf)
      @ take 4 (drop (magicLen + generationLen) buf) @ nonce @ ct"
    unfolding lct nonce_def take_drop_subslice
    by (simp add: ct_def layout_defs subslice_join take_join)
  also have "\<dots> = blob_image gen nonce ct"
    using len mg by (simp add: blob_image_def gen_def l [symmetric] put_get_u32_le layout_defs)
  finally have img: "take (headerLen + length ct) buf = blob_image gen nonce ct" .
  from op obtain pt where "cr_open cr key nonce ct (genAAD gen) = Some pt"
    "decode w pt = Inr (lb_states blob)" by blast
  with that [of nonce ct pt] show thesis
    using ln n1 fits img by (simp add: g h lct)
qed

section \<open>Lemmas on slots\<close>

text \<open>The offsets for which the slot arithmetic stays within int64.\<close>

definition offset_ok :: "int \<Rightarrow> bool" where
  "offset_ok offset \<longleftrightarrow> 0 \<le> offset \<and> offset + 2 * int SlotSize < 2 ^ 63"

definition slot_base :: "int \<Rightarrow> nat \<Rightarrow> int" where
  "slot_base offset slot = offset + int slot * int SlotSize"

lemma offset_ok_Offset [simp]: "offset_ok Offset"
  by (simp add: offset_ok_def Offset_def SlotSize_def)

lemma sdiv_pos: "0 \<le> a \<Longrightarrow> 0 < b \<Longrightarrow> a sdiv b = (a :: int) div b"
  by (simp add: signed_divide_int_def sgn_if)

lemma smod_pos: "0 \<le> a \<Longrightarrow> 0 < b \<Longrightarrow> a smod b = (a :: int) mod b"
  by (cases "a = 0") (simp_all add: signed_modulo_int_def sgn_if)

lemma slotLBA_InrD:
  assumes "slotLBA ops d offset slot = Inr lba" "offset_ok offset" "slot < 2"
  obtains bs blocks where "dv_info ops d = (bs, blocks)" "0 < bs" "0 \<le> lba"
    "lba * bs = slot_base offset slot" "slot_base offset slot + int SlotSize < 2 ^ 63"
    "slot_base offset slot + int SlotSize \<le> blocks * bs"
proof -
  obtain bs blocks where i: "dv_info ops d = (bs, blocks)" by (cases "dv_info ops d")
  from assms(2,3) have lim: "0 \<le> slot_base offset slot"
    "slot_base offset slot + int SlotSize < 2 ^ 63"
    by (auto simp: offset_ok_def slot_base_def SlotSize_def)
  have so: "int64 (offset + int64 (int slot * int SlotSize)) = slot_base offset slot"
    using assms(2,3) lim
    by (subst (2) go_int_id) (auto simp: SlotSize_def slot_base_def intro!: go_int_id)
  have se: "int64 (slot_base offset slot + int SlotSize) = slot_base offset slot + int SlotSize"
    using lim by (intro go_int_id) (auto simp: SlotSize_def)
  from assms(1) have bs: "0 < bs" and d1: "int SlotSize smod bs = 0" and d2: "offset smod bs = 0"
    and l: "lba = slot_base offset slot sdiv bs"
    and b: "(slot_base offset slot + int SlotSize) sdiv bs \<le> blocks"
    by (auto simp: slotLBA_def i so se Let_def split: if_splits)
  from d1 d2 bs assms(2) have "bs dvd int SlotSize" "bs dvd offset"
    by (auto simp: smod_pos offset_ok_def)
  then have dvd: "bs dvd slot_base offset slot" "bs dvd slot_base offset slot + int SlotSize"
    by (simp_all add: slot_base_def)
  with l bs lim(1) have lb: "lba * bs = slot_base offset slot" by (simp add: sdiv_pos)
  have "(slot_base offset slot + int SlotSize) div bs \<le> blocks" using b bs lim(1) by (simp add: sdiv_pos)
  then have "slot_base offset slot + int SlotSize \<le> blocks * bs"
    using bs dvd(2) by (metis dvd_div_mult_self mult_right_mono order_less_imp_le)
  moreover have "0 \<le> lba" using bs lim(1) by (simp add: l sdiv_pos pos_imp_zdiv_nonneg_iff)
  ultimately show thesis using that [OF i bs _ lb lim(2)] by blast
qed

lemma slotLBA_region:
  assumes "slotLBA ops d offset slot = Inr lba" "offset_ok offset" "slot < 2"
  shows "block_region ops d lba SlotSize (slot_base offset slot)"
  by (rule slotLBA_InrD [OF assms]) (simp add: block_region_def)

lemma slotLBA_info: "dv_info ops d' = dv_info ops d \<Longrightarrow> slotLBA ops d' offset slot = slotLBA ops d offset slot"
  by (simp add: slotLBA_def)

lemma unat_mod_2: "unat (g :: u32) mod 2 < 2"
  by simp

section \<open>Lemmas on saving and loading\<close>

text \<open>What a successful \<open>save\<close> went through.\<close>

lemma save_InrD:
  assumes "save cr ops d offset key rnd gen states = (Inr h, d')"
  obtains pt nonce ct lba where "length key = StateKeyLen" "encode states = Inr pt" "rnd = Some nonce"
    "ct = cr_seal cr key nonce pt (genAAD gen)" "headerLen + length ct \<le> SlotSize"
    "slotLBA ops d offset (unat gen mod 2) = Inr lba"
    "dv_write ops d lba (blob_buffer gen nonce ct) = (True, d')"
    "h = cr_sha256 cr (take (headerLen + length ct) (blob_buffer gen nonce ct))"
  using assms that
  by (auto simp: save_def newAEAD_def Let_def split: option.splits sum.splits if_splits prod.splits bool.splits)

lemma save_pre_write_error:
  "save cr ops d offset key rnd gen states = (Inl e, d') \<Longrightarrow> e \<noteq> ErrWriteFailed \<Longrightarrow> d' = d"
  by (auto simp: save_def newAEAD_def Let_def split: option.splits sum.splits if_splits prod.splits bool.splits)

lemma save_writes_slot:
  assumes "save cr ops d offset key rnd gen states = (r, d')"
  shows "d' = d \<or> (\<exists>lba buf ok. length buf = SlotSize \<and> dv_write ops d lba buf = (ok, d')
    \<and> slotLBA ops d offset (unat gen mod 2) = Inr lba)"
  using assms
  by (auto simp: save_def newAEAD_def Let_def split: option.splits sum.splits if_splits prod.splits bool.splits)

definition slot_bytes :: "(int \<Rightarrow> byte) \<Rightarrow> int \<Rightarrow> nat \<Rightarrow> bytes" where
  "slot_bytes m offset slot = mem_slice m (slot_base offset slot) SlotSize"

lemma length_slot_bytes [simp]: "length (slot_bytes m offset slot) = SlotSize"
  by (simp add: slot_bytes_def)

context block_device
begin

lemma save_info: "save cr ops d offset key rnd gen states = (r, d') \<Longrightarrow> dv_info ops d' = dv_info ops d"
  by (drule save_writes_slot) (metis info_write snd_conv)

text \<open>\<open>save\<close> changes no byte outside the slot its generation selects.\<close>

lemma save_frame:
  assumes s: "save cr ops d offset key rnd gen states = (r, d')" and off: "offset_ok offset"
    and out: "\<not> in_range (slot_base offset (unat gen mod 2)) SlotSize a"
  shows "mem d' a = mem d a"
proof -
  consider "d' = d" | lba buf ok where "length buf = SlotSize" "dv_write ops d lba buf = (ok, d')"
    "slotLBA ops d offset (unat gen mod 2) = Inr lba"
    using save_writes_slot [OF s] by blast
  then show ?thesis
  proof cases
    case 1
    then show ?thesis by simp
  next
    case (2 lba buf ok)
    show ?thesis using write_frame [OF 2(2)] slotLBA_region [OF 2(3) off unat_mod_2] 2(1) out by simp
  qed
qed

lemma save_other_slot:
  assumes s: "save cr ops d offset key rnd gen states = (r, d')" and off: "offset_ok offset"
    and "slot < 2" "slot \<noteq> unat gen mod 2"
  shows "slot_bytes (mem d') offset slot = slot_bytes (mem d) offset slot"
  unfolding slot_bytes_def
proof (rule mem_slice_cong)
  fix a assume a: "in_range (slot_base offset slot) SlotSize a"
  have "slot = 0 \<and> unat gen mod 2 = 1 \<or> slot = 1 \<and> unat gen mod 2 = 0" using assms(3,4) by linarith
  with a have "\<not> in_range (slot_base offset (unat gen mod 2)) SlotSize a"
    by (auto simp: in_range_def slot_base_def)
  with s off show "mem d' a = mem d a" by (rule save_frame)
qed

lemma save_slot_bytes:
  assumes s: "save cr ops d offset key (Some nonce) gen states = (Inr h, d')" and off: "offset_ok offset"
    and enc: "encode states = Inr pt"
  shows "slot_bytes (mem d') offset (unat gen mod 2) = blob_buffer gen nonce (cr_seal cr key nonce pt (genAAD gen))"
proof -
  from save_InrD [OF s] enc obtain lba where
    l: "slotLBA ops d offset (unat gen mod 2) = Inr lba"
    and w: "dv_write ops d lba (blob_buffer gen nonce (cr_seal cr key nonce pt (genAAD gen))) = (True, d')"
    by auto
  show ?thesis using write_ok [OF w] slotLBA_region [OF l off unat_mod_2] by (simp add: slot_bytes_def)
qed

lemma loadSlot_mem: "mem (snd (loadSlot cr w ops d offset slot key)) = mem d"
  using mem_read by (auto simp: loadSlot_def split: sum.splits prod.splits option.splits) (metis snd_conv)+

lemma loadSlot_info: "dv_info ops (snd (loadSlot cr w ops d offset slot key)) = dv_info ops d"
  using info_read by (auto simp: loadSlot_def split: sum.splits prod.splits option.splits) (metis snd_conv)+

text \<open>A slot that loads is the interpretation of the bytes on the medium.\<close>

lemma loadSlot_InrD:
  assumes l: "loadSlot cr w ops d offset slot key = (Inr blob, d')" and "offset_ok offset" "slot < 2"
  shows "parseSlot cr w key (slot_bytes (mem d) offset slot) = Inr blob"
proof -
  from l obtain lba buf where s: "slotLBA ops d offset slot = Inr lba"
    and r: "dv_read ops d lba SlotSize = (Some buf, d')" and p: "parseSlot cr w key buf = Inr blob"
    by (auto simp: loadSlot_def split: sum.splits prod.splits option.splits)
  have "buf = slot_bytes (mem d) offset slot"
    using read_ok [OF r slotLBA_region [OF s assms(2,3)]] by (simp add: slot_bytes_def)
  with p show ?thesis by simp
qed

lemma load_InrD:
  assumes l: "load cr w ops d offset key = (Inr blob, d')" and "offset_ok offset"
  obtains slot where "slot < 2" "parseSlot cr w key (slot_bytes (mem d) offset slot) = Inr blob"
    "length key = StateKeyLen" "mem d' = mem d"
proof -
  obtain r0 d0 where 0: "loadSlot cr w ops d offset 0 key = (r0, d0)" by fastforce
  obtain r1 d1 where 1: "loadSlot cr w ops d0 offset 1 key = (r1, d1)" by fastforce
  from l 0 1 have new: "newer (newer None r0) r1 = Some blob" and d': "d' = d1"
    and k: "length key = StateKeyLen"
    by (auto simp: load_def Let_def split: if_splits option.splits)
  from new have "r0 = Inr blob \<or> r1 = Inr blob"
    by (auto simp: newer_def split: sum.splits option.splits if_splits)
  moreover have "mem d0 = mem d" "mem d1 = mem d"
    using loadSlot_mem [of cr w d offset 0 key] loadSlot_mem [of cr w d0 offset 1 key] 0 1 by simp_all
  ultimately show thesis
    using that [of 0] that [of 1] loadSlot_InrD 0 1 assms(2) k d' by (metis one_less_numeral_iff semiring_norm(76) zero_less_numeral)
qed

end

end
