(* ===== verification/Witness_Store.thy ===== *)
theory Witness_Store
  imports Go_Strings Blob
begin

text \<open>
  The state a witness keeps per log and the stores that hold it: \<open>LogState\<close>, the \<open>Store\<close> and
  \<open>HaltableStore\<close> interfaces, \<open>MemStore\<close> and \<open>RestoreNote\<close> of \<^verbatim>\<open>internal/witness/witness.go\<close>.

  Functions of packages outside the repository are the fields of \<open>external\<close>: torchwood's
  checkpoint parser, the tree-proof checker and hash parser of \<open>x/mod/sumdb/tlog\<close>, and \<open>note.Sign\<close>
  with a cosignature signer. A signer is a pointer in the program and is compared as one; here it is
  an address.
\<close>

section \<open>Functions outside the repository\<close>

type_synonym signer_ref = nat

record checkpoint =
  cp_Origin :: bytes
  cp_N :: int
  cp_Hash :: bytes

record "external" =
  ex_crypto :: crypto
  ex_ParseCheckpoint :: "bytes \<Rightarrow> checkpoint option"
  ex_CheckTree :: "bytes list \<Rightarrow> int \<Rightarrow> bytes \<Rightarrow> int \<Rightarrow> bytes \<Rightarrow> bool"
  ex_ParseHash :: "bytes \<Rightarrow> bytes option"
  ex_HashString :: "bytes \<Rightarrow> bytes"
  ex_Sign :: "signer_ref \<Rightarrow> int \<Rightarrow> bytes \<Rightarrow> bytes option"

text \<open>\<open>note.Sign\<close> returns the text, an empty line and the signature lines.\<close>

definition sign_ok :: "external \<Rightarrow> bool" where
  "sign_ok ex \<longleftrightarrow>
     (\<forall>sg t text snote. ex_Sign ex sg t text = Some snote \<longrightarrow>
        (\<exists>sigs. snote = text @ CHR 0x0A # sigs))"

section \<open>Log states and RestoreNote\<close>

record log_state =
  ls_Size :: int
  ls_Hash :: bytes
  ls_Note :: bytes

abbreviation nl :: byte where "nl \<equiv> CHR 0x0A"
abbreviation blank_line :: bytes where "blank_line \<equiv> [CHR 0x0A, CHR 0x0A]"

datatype restore_error = NotASignedNote | InvalidCheckpoint

text \<open>The text of a note: everything up to and including the newline before the first empty line.\<close>

definition note_text :: "bytes \<Rightarrow> bytes option" where
  "note_text note = map_option (\<lambda>sep. take (sep + 1) note) (index_of blank_line note)"

definition RestoreNote :: "external \<Rightarrow> bytes \<Rightarrow> restore_error + bytes \<times> log_state" where
  "RestoreNote ex noteBytes =
     (case note_text noteBytes of
        None \<Rightarrow> Inl NotASignedNote
      | Some text \<Rightarrow>
          (case ex_ParseCheckpoint ex text of
             None \<Rightarrow> Inl InvalidCheckpoint
           | Some cp \<Rightarrow>
               Inr (cp_Origin cp, \<lparr>ls_Size = cp_N cp, ls_Hash = cp_Hash cp, ls_Note = noteBytes\<rparr>)))"

section \<open>Stores\<close>

type_synonym log_states = "(bytes, log_state) gomap"

datatype store_error =
    ErrHalted
  | PersistFailed blob_error
  | AnchoringFailed u32

text \<open>
  The method table of a store. \<open>'e\<close> is what a commit draws from its environment (the random nonce of
  the persistent store). A store that is not a \<open>HaltableStore\<close> never reports a halt; one without a
  \<open>Generation\<close> method has none.
\<close>

record ('s, 'e) store_ops =
  st_Get :: "'s \<Rightarrow> bytes \<Rightarrow> log_state option"
  st_PutBatch :: "'e \<Rightarrow> 's \<Rightarrow> log_states \<Rightarrow> store_error option \<times> 's"
  st_All :: "'s \<Rightarrow> log_states"
  st_Halted :: "'s \<Rightarrow> bool"
  st_Generation :: "'s \<Rightarrow> u32 option"

definition NewMemStore :: log_states where
  "NewMemStore = []"

definition ms_Get :: "log_states \<Rightarrow> bytes \<Rightarrow> log_state option" where
  "ms_Get m = map_of m"

definition ms_PutBatch :: "log_states \<Rightarrow> log_states \<Rightarrow> log_states" where
  "ms_PutBatch m states = map_put_all m states"

definition ms_All :: "log_states \<Rightarrow> log_states" where
  "ms_All m = map_put_all [] m"

definition mem_store_ops :: "(log_states, unit) store_ops" where
  "mem_store_ops = \<lparr>st_Get = ms_Get, st_PutBatch = (\<lambda>_ m states. (None, ms_PutBatch m states)),
     st_All = ms_All, st_Halted = (\<lambda>_. False), st_Generation = (\<lambda>_. None)\<rparr>"

section \<open>Lemmas on notes\<close>

text \<open>A note text ends in a newline and holds no empty line.\<close>

definition text_ok :: "bytes \<Rightarrow> bool" where
  "text_ok text \<longleftrightarrow> (\<exists>pre. text = pre @ [nl]) \<and> (\<forall>j. \<not> has_prefix blank_line (drop j text))"

lemma has_prefix_blank: "has_prefix blank_line s \<longleftrightarrow> (\<exists>t. s = nl # nl # t)"
  by (auto simp: has_prefix_iff)

lemma note_text_SomeD:
  assumes "note_text note = Some text"
  shows "text_ok text" and "\<exists>rest. note = text @ nl # rest"
proof -
  from assms obtain i where i: "index_of blank_line note = Some i" and t: "text = take (i + 1) note"
    by (auto simp: note_text_def)
  note I = index_of_SomeD [OF i]
  from I obtain rest where r: "drop i note = nl # nl # rest" by (auto simp: has_prefix_blank)
  have n: "note = take i note @ nl # nl # rest" using r append_take_drop_id [of i "note"] by simp
  have lt: "length (take i note) = i" using I by simp
  have tx: "text = take i note @ [nl]" unfolding t using lt by (subst n) (simp add: min_def)
  then have "note = text @ nl # rest" using n by simp
  then show "\<exists>rest. note = text @ nl # rest" by blast
  have "\<not> has_prefix blank_line (drop j text)" for j
  proof (cases "j < i")
    case True
    then have "\<not> has_prefix blank_line (drop j note)" using I by blast
    moreover have "drop j note = drop j text @ nl # rest"
      using True lt by (subst n) (simp add: tx)
    ultimately show ?thesis by (auto simp: has_prefix_blank)
  next
    case False
    then have "length (drop j text) \<le> 1" using lt by (simp add: tx)
    then show ?thesis by (auto simp: has_prefix_blank simp del: length_drop)
  qed
  with tx show "text_ok text" by (auto simp: text_ok_def)
qed

lemma note_text_append:
  assumes "text_ok text"
  shows "note_text (text @ nl # rest) = Some text"
proof -
  from assms obtain pre where pre: "text = pre @ [nl]" by (auto simp: text_ok_def)
  have "index_of blank_line (text @ nl # rest) = Some (length pre)"
  proof (rule index_of_eqI)
    show "length pre \<le> length (text @ nl # rest)" by (simp add: pre)
    show "has_prefix blank_line (drop (length pre) (text @ nl # rest))"
      by (simp add: pre has_prefix_blank)
    fix j assume j: "j < length pre"
    show "\<not> has_prefix blank_line (drop j (text @ nl # rest))"
    proof
      assume "has_prefix blank_line (drop j (text @ nl # rest))"
      then obtain t where t: "drop j pre @ nl # nl # rest = nl # nl # t"
        using j by (auto simp: pre has_prefix_blank)
      obtain a b where ab: "drop j pre = a # b" using j by (cases "drop j pre") auto
      with t have "drop j text = nl # nl # tl (b @ [nl])"
        using j by (cases b) (auto simp: pre)
      with assms show False by (auto simp: text_ok_def has_prefix_blank)
    qed
  qed
  then show ?thesis by (simp add: note_text_def pre)
qed

text \<open>The state of a signed text is what \<open>RestoreNote\<close> recovers from the signed note.\<close>

lemma RestoreNote_signed:
  assumes "sign_ok ex" "ex_Sign ex sg t text = Some snote" "text_ok text"
    "ex_ParseCheckpoint ex text = Some cp"
  shows "RestoreNote ex snote =
    Inr (cp_Origin cp, \<lparr>ls_Size = cp_N cp, ls_Hash = cp_Hash cp, ls_Note = snote\<rparr>)"
proof -
  from assms(1,2) obtain sigs where "snote = text @ nl # sigs" unfolding sign_ok_def by blast
  with assms(3,4) show ?thesis by (simp add: RestoreNote_def note_text_append)
qed

lemma RestoreNote_Note: "RestoreNote ex note = Inr (o', st) \<Longrightarrow> ls_Note st = note"
  by (auto simp: RestoreNote_def split: option.splits)

section \<open>The contract of a store\<close>

locale store =
  fixes sops :: "('s, 'e) store_ops"
    and inv :: "'s \<Rightarrow> bool"
  assumes all_get: "inv s \<Longrightarrow> map_of (st_All sops s) = st_Get sops s"
    and put_ok: "inv s \<Longrightarrow> wf_map ups \<Longrightarrow> st_PutBatch sops e s ups = (None, s') \<Longrightarrow>
      st_Get sops s' = st_Get sops s ++ map_of ups"
    and put_err: "inv s \<Longrightarrow> wf_map ups \<Longrightarrow> st_PutBatch sops e s ups = (Some err, s') \<Longrightarrow>
      st_Get sops s' = st_Get sops s"
    and put_inv: "inv s \<Longrightarrow> wf_map ups \<Longrightarrow> inv (snd (st_PutBatch sops e s ups))"
    and put_halted: "inv s \<Longrightarrow> st_Halted sops s \<Longrightarrow>
      fst (st_PutBatch sops e s ups) \<noteq> None \<and> st_Halted sops (snd (st_PutBatch sops e s ups))"
begin

text \<open>Whatever the outcome of a commit, every origin outside the batch keeps its state.\<close>

lemma put_frame:
  assumes "inv s" "wf_map ups" "st_PutBatch sops e s ups = (r, s')" "map_of ups origin = None"
  shows "st_Get sops s' origin = st_Get sops s origin"
  using assms put_ok [of s ups e s'] put_err [of s ups e _ s'] by (cases r) (auto simp: map_add_def)

end

lemma ms_All_map_of: "wf_map m \<Longrightarrow> map_of (ms_All m) = map_of m"
  by (simp add: ms_All_def gomap_simps)

interpretation memstore: store mem_store_ops wf_map
  by unfold_locales
    (auto simp: mem_store_ops_def ms_Get_def ms_PutBatch_def ms_All_map_of gomap_simps)

end
