(* ===== verification/Witness_Core.thy ===== *)
theory Witness_Core
  imports Witness_Store
begin

text \<open>
  The witness of \<^verbatim>\<open>internal/witness/witness.go\<close>: request parsing, the add-checkpoint admission
  (\<open>AddCheckpoint\<close>, \<open>addToPool\<close>, \<open>matchPending\<close>) and the sequencer that signs and commits a pool
  as one batch (\<open>sequence\<close>, \<open>sequencePool\<close>, \<open>stopPools\<close>).

  Pool entries are shared objects: a submission holds the pointer of the entry it waits on while the
  sequencer writes its result. They live in a heap (\<open>w_heap\<close>) and pools map origins to addresses.
  A submission that is admitted waits for \<open>done\<close>; \<open>AddCheckpoint\<close> therefore returns either a response
  or the address to wait on, and \<open>await_entry\<close> is the second half. The store is an interface value: its
  method table is an argument and its state is the field \<open>w_store\<close>.
\<close>

section \<open>Data\<close>

definition MaxRequestSize :: nat where "MaxRequestSize = 64 * 1024"
definition maxProofLines :: nat where "maxProofLines = 63"
definition maxPoolSize :: nat where "maxPoolSize = 256"

abbreviation StatusOK :: nat where "StatusOK \<equiv> 200"
abbreviation StatusBadRequest :: nat where "StatusBadRequest \<equiv> 400"
abbreviation StatusNotFound :: nat where "StatusNotFound \<equiv> 404"
abbreviation StatusConflict :: nat where "StatusConflict \<equiv> 409"
abbreviation StatusUnprocessableEntity :: nat where "StatusUnprocessableEntity \<equiv> 422"
abbreviation StatusTooManyRequests :: nat where "StatusTooManyRequests \<equiv> 429"
abbreviation StatusInternalServerError :: nat where "StatusInternalServerError \<equiv> 500"
abbreviation StatusServiceUnavailable :: nat where "StatusServiceUnavailable \<equiv> 503"

record request =
  rq_old :: int
  rq_proof :: "bytes list"
  rq_note :: bytes

record candidate =
  cd_cp :: checkpoint
  cd_text :: bytes
  cd_signer :: signer_ref
  cd_epoch :: u64

record pool_entry =
  pe_candidate :: candidate
  pe_done :: bool
  pe_code :: nat
  pe_resp :: bytes

type_synonym entry_ref = nat
type_synonym pool = "(bytes, entry_ref) gomap"
type_synonym response = "nat \<times> bytes"

record 's witness =
  w_signer :: "signer_ref option"
  w_epoch :: u64
  w_store :: 's
  w_batchesCommitted :: u64
  w_batchesFailed :: u64
  w_lastCommit :: int
  w_currentPool :: pool
  w_inSequencing :: pool
  w_running :: bool
  w_heap :: "pool_entry list"

definition newPool :: pool where
  "newPool = []"

definition New :: "'s \<Rightarrow> 's witness" where
  "New st = \<lparr>w_signer = None, w_epoch = 0, w_store = st, w_batchesCommitted = 0,
     w_batchesFailed = 0, w_lastCommit = 0, w_currentPool = newPool, w_inSequencing = [],
     w_running = False, w_heap = []\<rparr>"

definition emptyTreeHash :: "external \<Rightarrow> bytes" where
  "emptyTreeHash ex = cr_sha256 (ex_crypto ex) []"

section \<open>Signer, status and lookups\<close>

definition w_Halted :: "('s, 'e) store_ops \<Rightarrow> 's witness \<Rightarrow> bool" where
  "w_Halted sops w = st_Halted sops (w_store w)"

definition SetSigner :: "signer_ref \<Rightarrow> 's witness \<Rightarrow> 's witness" where
  "SetSigner sg w = w\<lparr>w_signer := Some sg, w_epoch := w_epoch w + 1\<rparr>"

definition ClearSigner :: "'s witness \<Rightarrow> 's witness" where
  "ClearSigner w = w\<lparr>w_signer := None, w_epoch := w_epoch w + 1\<rparr>"

definition Provisioned :: "'s witness \<Rightarrow> bool" where
  "Provisioned w \<longleftrightarrow> w_signer w \<noteq> None"

text \<open>\<open>verifier_string\<close> is torchwood's rendering of a signer's verifier key.\<close>

definition Verifier :: "(signer_ref \<Rightarrow> bytes) \<Rightarrow> 's witness \<Rightarrow> bytes" where
  "Verifier verifier_string w = (case w_signer w of None \<Rightarrow> [] | Some sg \<Rightarrow> verifier_string sg)"

definition Logs :: "('s, 'e) store_ops \<Rightarrow> 's witness \<Rightarrow> log_states" where
  "Logs sops w = st_All sops (w_store w)"

record status =
  sx_SequencerRunning :: bool
  sx_Pending :: nat
  sx_Sequencing :: nat
  sx_BatchesCommitted :: u64
  sx_BatchesFailed :: u64
  sx_LastCommit :: "int option"
  sx_Generation :: u32
  sx_HasGeneration :: bool

definition Status :: "('s, 'e) store_ops \<Rightarrow> 's witness \<Rightarrow> status" where
  "Status sops w =
     \<lparr>sx_SequencerRunning = w_running w,
      sx_Pending = length (w_currentPool w),
      sx_Sequencing = length (w_inSequencing w),
      sx_BatchesCommitted = w_batchesCommitted w,
      sx_BatchesFailed = w_batchesFailed w,
      sx_LastCommit = (if w_lastCommit w \<noteq> 0 then Some (w_lastCommit w) else None),
      sx_Generation = (case st_Generation sops (w_store w) of Some g \<Rightarrow> g | None \<Rightarrow> 0),
      sx_HasGeneration = (st_Generation sops (w_store w) \<noteq> None)\<rparr>"

fun find_origin :: "crypto \<Rightarrow> bytes \<Rightarrow> log_states \<Rightarrow> bytes option" where
  "find_origin cr originHash [] = None"
| "find_origin cr originHash ((origin, s) # rest) =
     (if hex_encode (cr_sha256 cr origin) = originHash then Some (ls_Note s)
      else find_origin cr originHash rest)"

definition Checkpoint :: "external \<Rightarrow> ('s, 'e) store_ops \<Rightarrow> 's witness \<Rightarrow> bytes \<Rightarrow> bytes option" where
  "Checkpoint ex sops w originHash =
     find_origin (ex_crypto ex) originHash (st_All sops (w_store w))"

section \<open>Requests\<close>

function parse_proof :: "external \<Rightarrow> bytes \<Rightarrow> bytes list \<Rightarrow> bytes + bytes list \<times> bytes" where
  "parse_proof ex rest proof =
     (case cut_at nl rest of
        None \<Rightarrow> Inl ''malformed request: missing checkpoint''
      | Some (line, rest') \<Rightarrow>
          if line = [] then Inr (proof, rest')
          else if length proof = maxProofLines
            then Inl (''malformed request: more than '' @ format_nat maxProofLines @ '' proof lines'')
          else case ex_ParseHash ex line of
                 None \<Rightarrow> Inl ''malformed request: invalid proof hash''
               | Some h \<Rightarrow> parse_proof ex rest' (proof @ [h]))"
  by pat_completeness auto
termination
  by (relation "measure (\<lambda>(ex, rest, proof). length rest)") (auto dest!: cut_at_shorter)

declare parse_proof.simps [simp del]

definition parseRequest :: "external \<Rightarrow> bytes \<Rightarrow> bytes + request" where
  "parseRequest ex body =
     (case cut_at nl body of
        None \<Rightarrow> Inl ''malformed request: missing old size line''
      | Some (line, rest) \<Rightarrow>
          (case cut_prefix ''old '' line of
             None \<Rightarrow> Inl (''malformed request: first line must be '' @ [CHR 0x22] @ ''old <size>'' @ [CHR 0x22])
           | Some sizeStr \<Rightarrow>
               (case parse_int64 sizeStr of
                  None \<Rightarrow> Inl ''malformed request: invalid old size''
                | Some old \<Rightarrow>
                    if old < 0 \<or> sizeStr \<noteq> format_int old
                    then Inl ''malformed request: invalid old size''
                    else
                      (case parse_proof ex rest [] of
                         Inl e \<Rightarrow> Inl e
                       | Inr (proof, cpNote) \<Rightarrow>
                           if cpNote = [] then Inl ''malformed request: empty checkpoint''
                           else Inr \<lparr>rq_old = old, rq_proof = proof, rq_note = cpNote\<rparr>))))"

section \<open>Admission\<close>

text \<open>The stored size of an origin, 0 when it is unknown.\<close>

definition latest :: "('s, 'e) store_ops \<Rightarrow> 's witness \<Rightarrow> bytes \<Rightarrow> int" where
  "latest sops w origin = (case st_Get sops (w_store w) origin of Some prev \<Rightarrow> ls_Size prev | None \<Rightarrow> 0)"

text \<open>The stored hash; an unknown origin has the zero value of the hash type.\<close>

definition latest_hash :: "('s, 'e) store_ops \<Rightarrow> 's witness \<Rightarrow> bytes \<Rightarrow> bytes" where
  "latest_hash sops w origin =
     (case st_Get sops (w_store w) origin of Some prev \<Rightarrow> ls_Hash prev | None \<Rightarrow> make_bytes 32)"

definition matchPending :: "('s, 'e) store_ops \<Rightarrow> 's witness \<Rightarrow> entry_ref \<Rightarrow> candidate \<Rightarrow> response + entry_ref"
  where
  "matchPending sops w r c =
     (let pending = pe_candidate (w_heap w ! r)
      in if cd_signer pending = cd_signer c \<and> cd_epoch pending = cd_epoch c
            \<and> cp_N (cd_cp pending) = cp_N (cd_cp c) \<and> cp_Hash (cd_cp pending) = cp_Hash (cd_cp c)
            \<and> cd_text pending = cd_text c
         then Inr r
         else Inl (StatusConflict, format_int (latest sops w (cp_Origin (cd_cp c))) @ [nl]))"

text \<open>The consistency switch of \<open>addToPool\<close>: false is the 422 outcome.\<close>

definition consistency_check :: "external \<Rightarrow> request \<Rightarrow> checkpoint \<Rightarrow> bytes \<Rightarrow> bool" where
  "consistency_check ex req cp prevHash =
     (if cp_N cp = 0 then rq_proof req = [] \<and> cp_Hash cp = emptyTreeHash ex
      else if rq_old req = cp_N cp then rq_proof req = [] \<and> cp_Hash cp = prevHash
      else if rq_old req = 0 then rq_proof req = []
      else ex_CheckTree ex (rq_proof req) (cp_N cp) (cp_Hash cp) (rq_old req) prevHash)"

definition addToPool :: "external \<Rightarrow> ('s, 'e) store_ops \<Rightarrow> 's witness \<Rightarrow> request \<Rightarrow> candidate \<Rightarrow>
    (response + entry_ref) \<times> 's witness" where
  "addToPool ex sops w req c =
     (let cp = cd_cp c
      in case map_of (w_currentPool w) (cp_Origin cp) of
           Some r \<Rightarrow> (matchPending sops w r c, w)
         | None \<Rightarrow>
        (case map_of (w_inSequencing w) (cp_Origin cp) of
           Some r \<Rightarrow> (matchPending sops w r c, w)
         | None \<Rightarrow>
           if maxPoolSize \<le> length (w_currentPool w)
             then (Inl (StatusTooManyRequests, ''checkpoint pool full'' @ [nl]), w)
           else if rq_old req \<noteq> latest sops w (cp_Origin cp)
             then (Inl (StatusConflict, format_int (latest sops w (cp_Origin cp)) @ [nl]), w)
           else if \<not> consistency_check ex req cp (latest_hash sops w (cp_Origin cp))
             then (Inl (StatusUnprocessableEntity, []), w)
           else
             let r = length (w_heap w);
                 entry = \<lparr>pe_candidate = c, pe_done = False, pe_code = 0, pe_resp = []\<rparr>
             in (Inr r, w\<lparr>w_heap := w_heap w @ [entry],
                          w_currentPool := AList.update (cp_Origin cp) r (w_currentPool w)\<rparr>)))"

definition not_provisioned :: bytes where
  "not_provisioned = ''witness key not provisioned'' @ [nl]"

definition witness_halted :: bytes where
  "witness_halted = ''witness halted: storage rollback or tamper detected'' @ [nl]"

definition AddCheckpoint :: "external \<Rightarrow> ('s, 'e) store_ops \<Rightarrow> 's witness \<Rightarrow> bytes \<Rightarrow>
    (response + entry_ref) \<times> 's witness" where
  "AddCheckpoint ex sops w body =
     (case w_signer w of
        None \<Rightarrow> (Inl (StatusServiceUnavailable, not_provisioned), w)
      | Some sg \<Rightarrow>
          if w_Halted sops w then (Inl (StatusServiceUnavailable, witness_halted), w)
          else
            (case parseRequest ex body of
               Inl e \<Rightarrow> (Inl (StatusBadRequest, e @ [nl]), w)
             | Inr req \<Rightarrow>
                 (case note_text (rq_note req) of
                    None \<Rightarrow> (Inl (StatusBadRequest, ''malformed request: not a signed note'' @ [nl]), w)
                  | Some txt \<Rightarrow>
                      (case ex_ParseCheckpoint ex txt of
                         None \<Rightarrow> (Inl (StatusBadRequest, ''malformed request: invalid checkpoint'' @ [nl]), w)
                       | Some cp \<Rightarrow>
                           if cp_N cp < rq_old req then (Inl (StatusBadRequest, []), w)
                           else addToPool ex sops w req
                                  \<lparr>cd_cp = cp, cd_text = txt, cd_signer = sg, cd_epoch = w_epoch w\<rparr>))))"

text \<open>The second half of an admitted submission: blocked (\<open>None\<close>) until the entry is done.\<close>

definition await_entry :: "'s witness \<Rightarrow> entry_ref \<Rightarrow> response option" where
  "await_entry w r =
     (let e = w_heap w ! r in if pe_done e then Some (pe_code e, pe_resp e) else None)"

section \<open>The sequencer\<close>

definition set_result :: "nat \<Rightarrow> bytes \<Rightarrow> pool_entry list \<Rightarrow> entry_ref \<Rightarrow> pool_entry list" where
  "set_result code resp h r = h[r := (h ! r)\<lparr>pe_code := code, pe_resp := resp\<rparr>]"

fun setPoolResult :: "nat \<Rightarrow> bytes \<Rightarrow> pool \<Rightarrow> pool_entry list \<Rightarrow> pool_entry list" where
  "setPoolResult code resp [] h = h"
| "setPoolResult code resp ((origin, r) # es) h = setPoolResult code resp es (set_result code resp h r)"

fun close_done :: "pool \<Rightarrow> pool_entry list \<Rightarrow> pool_entry list" where
  "close_done [] h = h"
| "close_done ((origin, r) # es) h = close_done es (h[r := (h ! r)\<lparr>pe_done := True\<rparr>])"

definition key_changed :: bytes where
  "key_changed = ''witness key changed while checkpoint was pending'' @ [nl]"

text \<open>The signing loop of \<open>sequencePool\<close>; \<open>now\<close> gives the clock reading of each signature.\<close>

fun sign_entries :: "external \<Rightarrow> signer_ref \<Rightarrow> u64 \<Rightarrow> (bytes \<Rightarrow> int) \<Rightarrow> pool \<Rightarrow>
    pool_entry list \<Rightarrow> log_states \<Rightarrow> bool \<Rightarrow> pool_entry list \<times> log_states \<times> bool" where
  "sign_entries ex sg epoch now [] h states signFailed = (h, states, signFailed)"
| "sign_entries ex sg epoch now ((origin, r) # es) h states signFailed =
     (let c = pe_candidate (h ! r)
      in if cd_signer c \<noteq> sg \<or> cd_epoch c \<noteq> epoch
         then sign_entries ex sg epoch now es
                (set_result StatusServiceUnavailable key_changed h r) states signFailed
         else case ex_Sign ex sg (now origin) (cd_text c) of
                None \<Rightarrow> sign_entries ex sg epoch now es
                          (set_result StatusInternalServerError [] h r) states True
              | Some snote \<Rightarrow>
                  sign_entries ex sg epoch now es
                    (set_result StatusOK (drop (length (cd_text c) + 1) snote) h r)
                    (AList.update origin
                       \<lparr>ls_Size = cp_N (cd_cp c), ls_Hash = cp_Hash (cd_cp c), ls_Note = snote\<rparr> states)
                    signFailed)"

definition fail_pool :: "nat \<Rightarrow> bytes \<Rightarrow> pool \<Rightarrow> 's witness \<Rightarrow> 's witness" where
  "fail_pool code resp p w =
     w\<lparr>w_batchesFailed := w_batchesFailed w + 1, w_heap := setPoolResult code resp p (w_heap w)\<rparr>"

definition sequencePool :: "external \<Rightarrow> ('s, 'e) store_ops \<Rightarrow> 'e \<Rightarrow> (bytes \<Rightarrow> int) \<Rightarrow> int \<Rightarrow> pool \<Rightarrow>
    's witness \<Rightarrow> 's witness" where
  "sequencePool ex sops env now commit_time p w =
     (if p = [] then w
      else case w_signer w of
             None \<Rightarrow> fail_pool StatusServiceUnavailable not_provisioned p w
           | Some sg \<Rightarrow>
               if w_Halted sops w then fail_pool StatusServiceUnavailable witness_halted p w
               else
                 let (h, states, signFailed) =
                       sign_entries ex sg (w_epoch w) now p (w_heap w) [] False;
                     w = w\<lparr>w_heap := h\<rparr>
                 in if signFailed then fail_pool StatusInternalServerError [] p w
                    else if states \<noteq> [] then
                      (case st_PutBatch sops env (w_store w) states of
                         (Some err, st') \<Rightarrow>
                           fail_pool StatusInternalServerError [] p (w\<lparr>w_store := st'\<rparr>)
                       | (None, st') \<Rightarrow>
                           w\<lparr>w_store := st', w_batchesCommitted := w_batchesCommitted w + 1,
                             w_lastCommit := commit_time\<rparr>)
                    else w\<lparr>w_batchesFailed := w_batchesFailed w + 1\<rparr>)"

definition seq_begin :: "'s witness \<Rightarrow> 's witness" where
  "seq_begin w = w\<lparr>w_inSequencing := w_currentPool w, w_currentPool := newPool\<rparr>"

definition seq_end :: "pool \<Rightarrow> 's witness \<Rightarrow> 's witness" where
  "seq_end p w = w\<lparr>w_inSequencing := [], w_heap := close_done p (w_heap w)\<rparr>"

definition sequence :: "external \<Rightarrow> ('s, 'e) store_ops \<Rightarrow> 'e \<Rightarrow> (bytes \<Rightarrow> int) \<Rightarrow> int \<Rightarrow>
    's witness \<Rightarrow> 's witness" where
  "sequence ex sops env now commit_time w =
     (let p = w_currentPool w
      in seq_end p (sequencePool ex sops env now commit_time p (seq_begin w)))"

definition stopPools :: "'s witness \<Rightarrow> 's witness" where
  "stopPools w =
     (let h = setPoolResult StatusServiceUnavailable (''witness sequencer stopped'' @ [nl])
                (w_currentPool w) (w_heap w)
      in w\<lparr>w_heap := close_done (w_currentPool w) h, w_currentPool := newPool\<rparr>)"

text \<open>\<open>RunSequencer\<close>: the guard at its start and the cleanup at its end.\<close>

definition run_start :: "'s witness \<Rightarrow> 's witness option" where
  "run_start w = (if w_running w then None else Some (w\<lparr>w_running := True\<rparr>))"

definition run_stop :: "'s witness \<Rightarrow> 's witness" where
  "run_stop w = (stopPools w)\<lparr>w_running := False\<rparr>"

text \<open>
  One call of \<open>RunSequencer\<close> that receives the given ticks before its context is done, with no other
  goroutine running; each tick carries what its commit draws from the environment. The interleavings
  with submissions and key changes are the step relation of the state machine.
\<close>

record 'e tick =
  tk_env :: 'e
  tk_now :: "bytes \<Rightarrow> int"
  tk_commit :: int

fun sequencer_loop :: "external \<Rightarrow> ('s, 'e) store_ops \<Rightarrow> 'e tick list \<Rightarrow> 's witness \<Rightarrow> 's witness" where
  "sequencer_loop ex sops [] w = stopPools w"
| "sequencer_loop ex sops (tk # ticks) w =
     sequencer_loop ex sops ticks (sequence ex sops (tk_env tk) (tk_now tk) (tk_commit tk) w)"

datatype sequencer_exit = AlreadyRunning | ContextDone

definition RunSequencer :: "external \<Rightarrow> ('s, 'e) store_ops \<Rightarrow> 'e tick list \<Rightarrow> 's witness \<Rightarrow>
    sequencer_exit \<times> 's witness" where
  "RunSequencer ex sops ticks w =
     (case run_start w of
        None \<Rightarrow> (AlreadyRunning, w)
      | Some w' \<Rightarrow> (ContextDone, (sequencer_loop ex sops ticks w')\<lparr>w_running := False\<rparr>))"

end
