(* ===== verification/Consistency.thy ===== *)
theory Consistency
  imports Witness_Core
begin

text \<open>
  The consistency specification of the witness, independent of pools and sequencing: which checkpoint
  may follow a stored state (\<open>consistent\<close>), the order it generates (\<open>reaches\<close>), and that the
  admission checks of \<open>addToPool\<close> imply it. The central fact is \<open>reaches_same_size\<close>: along the order a
  tree size has only one hash.
\<close>

section \<open>Specification\<close>

definition prev_size :: "log_state option \<Rightarrow> int" where
  "prev_size prev = (case prev of Some s \<Rightarrow> ls_Size s | None \<Rightarrow> 0)"

text \<open>
  \<open>consistent ex prev n h\<close>: a checkpoint of size \<open>n\<close> and root \<open>h\<close> is a consistent successor of the stored
  state. It is the empty tree, or the stored tree again, or the first non-empty tree, or a tree that a
  consistency proof connects to the stored one.
\<close>

definition consistent :: "external \<Rightarrow> log_state option \<Rightarrow> int \<Rightarrow> bytes \<Rightarrow> bool" where
  "consistent ex prev n h \<longleftrightarrow>
     0 \<le> prev_size prev \<and> prev_size prev \<le> n \<and>
     (if n = 0 then h = emptyTreeHash ex
      else case prev of
             None \<Rightarrow> True
           | Some s \<Rightarrow>
               if ls_Size s = n then h = ls_Hash s
               else ls_Size s = 0 \<or> (\<exists>proof. ex_CheckTree ex proof n h (ls_Size s) (ls_Hash s)))"

definition valid_state :: "external \<Rightarrow> log_state \<Rightarrow> bool" where
  "valid_state ex s \<longleftrightarrow> 0 \<le> ls_Size s \<and> (ls_Size s = 0 \<longrightarrow> ls_Hash s = emptyTreeHash ex)"

definition follows :: "external \<Rightarrow> log_state \<Rightarrow> log_state \<Rightarrow> bool" where
  "follows ex s s' \<longleftrightarrow> valid_state ex s \<and> consistent ex (Some s) (ls_Size s') (ls_Hash s')"

definition reaches :: "external \<Rightarrow> log_state \<Rightarrow> log_state \<Rightarrow> bool" where
  "reaches ex = (follows ex)\<^sup>*\<^sup>*"

text \<open>A batch of updates, each a consistent successor whose note restores to the state itself.\<close>

definition batch_ok :: "external \<Rightarrow> (bytes \<Rightarrow> log_state option) \<Rightarrow> log_states \<Rightarrow> bool" where
  "batch_ok ex get ups \<longleftrightarrow> wf_map ups \<and>
     (\<forall>(origin, st) \<in> set ups. consistent ex (get origin) (ls_Size st) (ls_Hash st)
        \<and> RestoreNote ex (ls_Note st) = Inr (origin, st))"

definition valid_view :: "external \<Rightarrow> (bytes \<Rightarrow> log_state option) \<Rightarrow> bool" where
  "valid_view ex get \<longleftrightarrow> (\<forall>origin st. get origin = Some st \<longrightarrow> valid_state ex st)"

text \<open>One view is at or beyond another: every known origin is reached.\<close>

definition view_le :: "external \<Rightarrow> (bytes \<Rightarrow> log_state option) \<Rightarrow> (bytes \<Rightarrow> log_state option) \<Rightarrow> bool" where
  "view_le ex get get' \<longleftrightarrow>
     (\<forall>origin st. get origin = Some st \<longrightarrow> (\<exists>st'. get' origin = Some st' \<and> reaches ex st st'))"

section \<open>Lemmas\<close>

lemma consistent_valid:
  "consistent ex prev n h \<Longrightarrow> 0 \<le> n \<and> (n = 0 \<longrightarrow> h = emptyTreeHash ex)"
  by (auto simp: consistent_def)

lemma consistent_valid_state:
  "consistent ex prev (ls_Size st) (ls_Hash st) \<Longrightarrow> valid_state ex st"
  by (auto simp: valid_state_def dest: consistent_valid)

lemma followsI: "valid_state ex s \<Longrightarrow> consistent ex (Some s) (ls_Size s') (ls_Hash s') \<Longrightarrow> follows ex s s'"
  by (simp add: follows_def)

lemma follows_size: "follows ex s s' \<Longrightarrow> ls_Size s \<le> ls_Size s'"
  by (auto simp: follows_def consistent_def prev_size_def)

lemma follows_same: "follows ex s s' \<Longrightarrow> ls_Size s' = ls_Size s \<Longrightarrow> ls_Hash s' = ls_Hash s"
  by (auto simp: follows_def consistent_def valid_state_def split: if_splits)

lemma reaches_refl [simp]: "reaches ex s s"
  by (simp add: reaches_def)

lemma reaches_step: "reaches ex a b \<Longrightarrow> follows ex b c \<Longrightarrow> reaches ex a c"
  unfolding reaches_def by (rule rtranclp.rtrancl_into_rtrancl)

lemma reaches_trans: "reaches ex a b \<Longrightarrow> reaches ex b c \<Longrightarrow> reaches ex a c"
  unfolding reaches_def by (rule rtranclp_trans)

lemma reaches_size: "reaches ex s s' \<Longrightarrow> ls_Size s \<le> ls_Size s'"
  unfolding reaches_def by (induction rule: rtranclp_induct) (auto dest: follows_size)

lemma reaches_same_size: "reaches ex s s' \<Longrightarrow> ls_Size s' = ls_Size s \<Longrightarrow> ls_Hash s' = ls_Hash s"
  unfolding reaches_def
proof (induction rule: rtranclp_induct)
  case (step y z)
  from step.hyps(1) have "ls_Size s \<le> ls_Size y"
    by (intro reaches_size) (simp add: reaches_def)
  moreover from step.hyps(2) have "ls_Size y \<le> ls_Size z" by (rule follows_size)
  ultimately have "ls_Size y = ls_Size s" "ls_Size z = ls_Size y" using step.prems by simp_all
  with step.IH follows_same [OF step.hyps(2)] show ?case by simp
qed simp

lemma view_le_refl [simp]: "view_le ex get get"
  by (auto simp: view_le_def)

lemma view_le_trans: "view_le ex a b \<Longrightarrow> view_le ex b c \<Longrightarrow> view_le ex a c"
  unfolding view_le_def by (meson reaches_trans)

lemma batch_ok_lookup:
  assumes "batch_ok ex get ups" "map_of ups origin = Some st"
  shows "consistent ex (get origin) (ls_Size st) (ls_Hash st)"
    and "RestoreNote ex (ls_Note st) = Inr (origin, st)"
  using assms by (auto simp: batch_ok_def dest!: map_of_SomeD)

lemma batch_ok_follows:
  assumes "batch_ok ex get ups" "valid_view ex get" "map_of ups origin = Some st" "get origin = Some prev"
  shows "follows ex prev st"
  using batch_ok_lookup(1) [OF assms(1,3)] assms(2,4) by (auto simp: valid_view_def intro: followsI)

lemma batch_ok_view_le:
  assumes "batch_ok ex get ups" "valid_view ex get"
  shows "view_le ex get (get ++ map_of ups)"
  unfolding view_le_def
proof (intro allI impI)
  fix origin st assume g: "get origin = Some st"
  show "\<exists>st'. (get ++ map_of ups) origin = Some st' \<and> reaches ex st st'"
  proof (cases "map_of ups origin")
    case None
    with g show ?thesis by (auto simp: map_add_def)
  next
    case (Some st')
    with batch_ok_follows [OF assms Some g] show ?thesis
      by (auto simp: map_add_def intro: reaches_step [OF reaches_refl])
  qed
qed

lemma batch_ok_valid_view:
  assumes "batch_ok ex get ups" "valid_view ex get"
  shows "valid_view ex (get ++ map_of ups)"
  using assms batch_ok_lookup(1) [OF assms(1)]
  by (fastforce simp: valid_view_def map_add_def split: option.splits intro: consistent_valid_state)

section \<open>Admission implies consistency\<close>

lemma consistency_check_consistent:
  assumes "consistency_check ex req cp (latest_hash sops w origin)"
    and "rq_old req = latest sops w origin" "0 \<le> rq_old req" "rq_old req \<le> cp_N cp"
  shows "consistent ex (st_Get sops (w_store w) origin) (cp_N cp) (cp_Hash cp)"
  using assms
  by (auto simp: consistency_check_def consistent_def prev_size_def latest_def latest_hash_def
      split: if_splits option.splits)

text \<open>Every outcome of \<open>addToPool\<close>, with the state it leaves.\<close>

lemma addToPool_cases:
  assumes "addToPool ex sops w req c = (res, w')"
  obtains (matched) r where "w' = w" "res = matchPending sops w r c"
      "map_of (w_currentPool w) (cp_Origin (cd_cp c)) = Some r
       \<or> map_of (w_inSequencing w) (cp_Origin (cd_cp c)) = Some r"
  | (refused) code body where "w' = w" "res = Inl (code, body)" "code \<noteq> StatusOK"
  | (admitted) "res = Inr (length (w_heap w))"
      "map_of (w_currentPool w) (cp_Origin (cd_cp c)) = None"
      "map_of (w_inSequencing w) (cp_Origin (cd_cp c)) = None"
      "length (w_currentPool w) < maxPoolSize"
      "rq_old req = latest sops w (cp_Origin (cd_cp c))"
      "consistency_check ex req (cd_cp c) (latest_hash sops w (cp_Origin (cd_cp c)))"
      "w' = w\<lparr>w_heap := w_heap w @ [\<lparr>pe_candidate = c, pe_done = False, pe_code = 0, pe_resp = []\<rparr>],
              w_currentPool := AList.update (cp_Origin (cd_cp c)) (length (w_heap w)) (w_currentPool w)\<rparr>"
  using assms unfolding addToPool_def Let_def
  by (auto split: option.splits if_splits)

end
