(* ===== verification/Witness_Heap.thy ===== *)
theory Witness_Heap
  imports Consistency
begin

text \<open>
  What the sequencer's loops do to the heap of pool entries: which entries they touch, that they never
  change a candidate, the result each entry gets, and the batch of states the signing loop builds.
\<close>

definition refs_ok :: "pool \<Rightarrow> pool_entry list \<Rightarrow> bool" where
  "refs_ok p h \<longleftrightarrow> (\<forall>r \<in> snd ` set p. r < length h)"

lemma refs_ok_Cons [simp]: "refs_ok ((origin, r) # p) h \<longleftrightarrow> r < length h \<and> refs_ok p h"
  by (auto simp: refs_ok_def)

lemma length_set_result [simp]: "length (set_result code resp h r) = length h"
  by (simp add: set_result_def)

lemma refs_ok_length: "length h' = length h \<Longrightarrow> refs_ok p h' = refs_ok p h"
  by (simp add: refs_ok_def)

lemma refs_ok_set_result [simp]: "refs_ok p (set_result code resp h r) = refs_ok p h"
  by (rule refs_ok_length) simp

lemma nth_set_result:
  "i < length h \<Longrightarrow> set_result code resp h r ! i =
     (if i = r then (h ! i)\<lparr>pe_code := code, pe_resp := resp\<rparr> else h ! i)"
  by (auto simp: set_result_def nth_list_update)

section \<open>setPoolResult and close\<close>

lemma length_setPoolResult [simp]: "length (setPoolResult code resp p h) = length h"
  by (induction code resp p h rule: setPoolResult.induct) auto

lemma nth_setPoolResult:
  "i < length h \<Longrightarrow> setPoolResult code resp p h ! i =
     (if i \<in> snd ` set p then (h ! i)\<lparr>pe_code := code, pe_resp := resp\<rparr> else h ! i)"
  by (induction code resp p h rule: setPoolResult.induct) (auto simp: nth_set_result)

lemma length_close_done [simp]: "length (close_done p h) = length h"
  by (induction p h rule: close_done.induct) auto

lemma nth_close_done:
  "i < length h \<Longrightarrow> close_done p h ! i =
     (if i \<in> snd ` set p then (h ! i)\<lparr>pe_done := True\<rparr> else h ! i)"
proof (induction p h rule: close_done.induct)
  case (2 origin r es h)
  then show ?case by (cases "i = r") simp_all
qed simp

section \<open>The signing loop\<close>

text \<open>The state an entry contributes to the batch: none when its key is stale or signing fails.\<close>

definition key_current :: "signer_ref \<Rightarrow> u64 \<Rightarrow> candidate \<Rightarrow> bool" where
  "key_current sg epoch c \<longleftrightarrow> cd_signer c = sg \<and> cd_epoch c = epoch"

definition signed_state :: "external \<Rightarrow> signer_ref \<Rightarrow> u64 \<Rightarrow> (bytes \<Rightarrow> int) \<Rightarrow> bytes \<Rightarrow> candidate \<Rightarrow>
    log_state option" where
  "signed_state ex sg epoch now origin c =
     (if key_current sg epoch c
      then map_option (\<lambda>snote. \<lparr>ls_Size = cp_N (cd_cp c), ls_Hash = cp_Hash (cd_cp c), ls_Note = snote\<rparr>)
             (ex_Sign ex sg (now origin) (cd_text c))
      else None)"

definition entry_result :: "external \<Rightarrow> signer_ref \<Rightarrow> u64 \<Rightarrow> (bytes \<Rightarrow> int) \<Rightarrow> bytes \<Rightarrow> candidate \<Rightarrow> response"
  where
  "entry_result ex sg epoch now origin c =
     (if \<not> key_current sg epoch c then (StatusServiceUnavailable, key_changed)
      else case ex_Sign ex sg (now origin) (cd_text c) of
             None \<Rightarrow> (StatusInternalServerError, [])
           | Some snote \<Rightarrow> (StatusOK, drop (length (cd_text c) + 1) snote))"

text \<open>One iteration, in terms of these.\<close>

lemma sign_entries_Cons:
  "sign_entries ex sg epoch now ((origin, r) # es) h states sf =
     (let c = pe_candidate (h ! r); res = entry_result ex sg epoch now origin c
      in sign_entries ex sg epoch now es (set_result (fst res) (snd res) h r)
           (case signed_state ex sg epoch now origin c of
              None \<Rightarrow> states | Some st \<Rightarrow> AList.update origin st states)
           (sf \<or> key_current sg epoch c \<and> ex_Sign ex sg (now origin) (cd_text c) = None))"
  by (auto simp: Let_def entry_result_def signed_state_def key_current_def split: option.split)

declare sign_entries.simps(2) [simp del]

lemma sign_entries_length:
  "sign_entries ex sg epoch now p h states sf = (h', states', sf') \<Longrightarrow> length h' = length h"
  by (induction p arbitrary: h states sf)
    (auto simp: sign_entries_Cons Let_def split: prod.splits)

lemma sign_entries_nth:
  assumes "sign_entries ex sg epoch now p h states sf = (h', states', sf')"
    "refs_ok p h" "distinct (map snd p)" "i < length h"
  shows "(\<forall>origin. (origin, i) \<in> set p \<longrightarrow>
       h' ! i = (h ! i)\<lparr>pe_code := fst (entry_result ex sg epoch now origin (pe_candidate (h ! i))),
                       pe_resp := snd (entry_result ex sg epoch now origin (pe_candidate (h ! i)))\<rparr>)
     \<and> (i \<notin> snd ` set p \<longrightarrow> h' ! i = h ! i)"
  using assms
proof (induction p arbitrary: h states sf)
  case (Cons a p)
  obtain origin r where a: "a = (origin, r)" by (cases a)
  let ?res = "entry_result ex sg epoch now origin (pe_candidate (h ! r))"
  let ?h = "set_result (fst ?res) (snd ?res) h r"
  from Cons.prems(1) obtain st1 sf1 where
    s: "sign_entries ex sg epoch now p ?h st1 sf1 = (h', states', sf')"
    by (auto simp: a sign_entries_Cons Let_def)
  from Cons.prems(2,3) have r: "refs_ok p ?h" "distinct (map snd p)" "r \<notin> snd ` set p" "r < length h"
    by (auto simp: a)
  from Cons.IH [OF s r(1,2)] Cons.prems(4) r(3) show ?case
    by (auto simp: a nth_set_result rev_image_eqI)
qed simp

lemma sign_entries_states:
  assumes "sign_entries ex sg epoch now p h states sf = (h', states', sf')" "refs_ok p h" "wf_map p"
  shows "map_of states' origin =
    (case map_of p origin of
       None \<Rightarrow> map_of states origin
     | Some r \<Rightarrow> (case signed_state ex sg epoch now origin (pe_candidate (h ! r)) of
                   None \<Rightarrow> map_of states origin | Some st \<Rightarrow> Some st))"
  using assms
proof (induction p arbitrary: h states sf)
  case (Cons a p)
  obtain origin' r where a: "a = (origin', r)" by (cases a)
  let ?res = "entry_result ex sg epoch now origin' (pe_candidate (h ! r))"
  let ?h = "set_result (fst ?res) (snd ?res) h r"
  from Cons.prems(1) obtain sf1 where
    s: "sign_entries ex sg epoch now p ?h
          (case signed_state ex sg epoch now origin' (pe_candidate (h ! r)) of
             None \<Rightarrow> states | Some st \<Rightarrow> AList.update origin' st states) sf1 = (h', states', sf')"
    by (auto simp: a sign_entries_Cons Let_def)
  from Cons.prems(2,3) have r: "refs_ok p ?h" "wf_map p" and fresh: "map_of p origin' = None"
    by (auto simp: a wf_map_def map_of_eq_None_iff)
  have cand: "pe_candidate (?h ! i) = pe_candidate (h ! i)" if "map_of p origin = Some i" for i
    using that Cons.prems(2) by (auto simp: a refs_ok_def nth_set_result dest!: map_of_SomeD)
  show ?case
    using Cons.IH [OF s r] fresh cand
    by (auto simp: a gomap_simps split: option.splits)
qed simp

lemma sign_entries_wf:
  "sign_entries ex sg epoch now p h states sf = (h', states', sf') \<Longrightarrow> wf_map states \<Longrightarrow> wf_map states'"
  by (induction p arbitrary: h states sf)
    (auto simp: sign_entries_Cons Let_def split: prod.splits option.splits)

lemma sign_entries_failed:
  assumes "sign_entries ex sg epoch now p h states sf = (h', states', sf')" "refs_ok p h"
  shows "sf' \<longleftrightarrow> sf \<or> (\<exists>(origin, r) \<in> set p. key_current sg epoch (pe_candidate (h ! r))
    \<and> ex_Sign ex sg (now origin) (cd_text (pe_candidate (h ! r))) = None)"
  using assms
proof (induction p arbitrary: h states sf)
  case (Cons a p)
  obtain origin' r where a: "a = (origin', r)" by (cases a)
  let ?res = "entry_result ex sg epoch now origin' (pe_candidate (h ! r))"
  let ?h = "set_result (fst ?res) (snd ?res) h r"
  from Cons.prems(1) obtain st1 where
    s: "sign_entries ex sg epoch now p ?h st1 (sf \<or> key_current sg epoch (pe_candidate (h ! r))
          \<and> ex_Sign ex sg (now origin') (cd_text (pe_candidate (h ! r))) = None) = (h', states', sf')"
    by (auto simp: a sign_entries_Cons Let_def)
  from Cons.prems(2) have r: "refs_ok p ?h" by (auto simp: a)
  have cand: "pe_candidate (?h ! i) = pe_candidate (h ! i)" if "(x, i) \<in> set p" for x i
    using that Cons.prems(2) by (force simp: a refs_ok_def nth_set_result)
  show ?case unfolding Cons.IH [OF s r] a using cand by fastforce
qed simp

end
