(* ===== verification/Witness_Steps.thy ===== *)
theory Witness_Steps
  imports Witness_Heap
begin

text \<open>
  The witness as a state machine. Submissions, key changes and the three critical sections of the
  sequencer (swap the pool, sign and commit it, retire it) interleave in any order the locks allow:
  \<open>poolMu\<close> makes \<open>addToPool\<close>, the swap and the retirement atomic, \<open>mu\<close> makes a key change and
  \<open>sequencePool\<close> atomic, and \<open>RunSequencer\<close>'s guard admits one sequencer, so the sequencer has one phase.
  A submission loads signer and epoch before it takes \<open>poolMu\<close>; the step relation allows it any pair.

  \<open>ws_log\<close> records, in commit order, the states of every batch that the store accepted. The invariant
  \<open>winv\<close> holds in every reachable state; it gives that the log is a chain of consistent states per origin
  and that a 200 response carries the signature lines of a logged note.
\<close>

section \<open>Steps\<close>

datatype seq_phase = Seq_Idle | Seq_Swapped pool | Seq_Committed pool

record 's wsys =
  ws_w :: "'s witness"
  ws_phase :: seq_phase
  ws_log :: log_states

text \<open>The batch a call of \<open>sequencePool\<close> hands to the store, and the part of it that is committed.\<close>

definition pool_batch :: "external \<Rightarrow> ('s, 'e) store_ops \<Rightarrow> (bytes \<Rightarrow> int) \<Rightarrow> pool \<Rightarrow> 's witness \<Rightarrow>
    log_states option" where
  "pool_batch ex sops now p w =
     (if p = [] then None
      else case w_signer w of None \<Rightarrow> None
           | Some sg \<Rightarrow>
               if w_Halted sops w then None
               else let (h, states, signFailed) =
                          sign_entries ex sg (w_epoch w) now p (w_heap w) [] False
                    in if signFailed \<or> states = [] then None else Some states)"

definition committed_batch :: "external \<Rightarrow> ('s, 'e) store_ops \<Rightarrow> 'e \<Rightarrow> (bytes \<Rightarrow> int) \<Rightarrow> pool \<Rightarrow>
    's witness \<Rightarrow> log_states" where
  "committed_batch ex sops env now p w =
     (case pool_batch ex sops now p w of None \<Rightarrow> []
      | Some ups \<Rightarrow> if fst (st_PutBatch sops env (w_store w) ups) = None then ups else [])"

inductive wstep :: "external \<Rightarrow> ('s, 'e) store_ops \<Rightarrow> 's wsys \<Rightarrow> 's wsys \<Rightarrow> bool"
  for ex sops where
  set_signer: "wstep ex sops S (S\<lparr>ws_w := SetSigner sg (ws_w S)\<rparr>)"
| clear_signer: "wstep ex sops S (S\<lparr>ws_w := ClearSigner (ws_w S)\<rparr>)"
| submit: "text_ok txt \<Longrightarrow> ex_ParseCheckpoint ex txt = Some cp \<Longrightarrow> 0 \<le> rq_old req \<Longrightarrow> rq_old req \<le> cp_N cp \<Longrightarrow>
    addToPool ex sops (ws_w S) req \<lparr>cd_cp = cp, cd_text = txt, cd_signer = sg, cd_epoch = ep\<rparr> = (res, w') \<Longrightarrow>
    wstep ex sops S (S\<lparr>ws_w := w'\<rparr>)"
| seq_start: "run_start (ws_w S) = Some w' \<Longrightarrow> wstep ex sops S (S\<lparr>ws_w := w'\<rparr>)"
| seq_swap: "ws_phase S = Seq_Idle \<Longrightarrow> w_running (ws_w S) \<Longrightarrow>
    wstep ex sops S (S\<lparr>ws_w := seq_begin (ws_w S), ws_phase := Seq_Swapped (w_currentPool (ws_w S))\<rparr>)"
| seq_commit: "ws_phase S = Seq_Swapped p \<Longrightarrow>
    wstep ex sops S (S\<lparr>ws_w := sequencePool ex sops env now t p (ws_w S), ws_phase := Seq_Committed p,
      ws_log := ws_log S @ committed_batch ex sops env now p (ws_w S)\<rparr>)"
| seq_retire: "ws_phase S = Seq_Committed p \<Longrightarrow>
    wstep ex sops S (S\<lparr>ws_w := seq_end p (ws_w S), ws_phase := Seq_Idle\<rparr>)"
| seq_stop: "ws_phase S = Seq_Idle \<Longrightarrow> w_running (ws_w S) \<Longrightarrow> wstep ex sops S (S\<lparr>ws_w := run_stop (ws_w S)\<rparr>)"

inductive wreach :: "external \<Rightarrow> ('s, 'e) store_ops \<Rightarrow> 's wsys \<Rightarrow> 's wsys \<Rightarrow> bool"
  for ex sops S0 where
  init: "wreach ex sops S0 S0"
| step: "wreach ex sops S0 S \<Longrightarrow> wstep ex sops S S' \<Longrightarrow> wreach ex sops S0 S'"

definition winit :: "'s \<Rightarrow> 's wsys" where
  "winit st = \<lparr>ws_w = New st, ws_phase = Seq_Idle, ws_log = []\<rparr>"

section \<open>Invariants\<close>

definition entry_ok :: "external \<Rightarrow> pool_entry list \<Rightarrow> bytes \<times> entry_ref \<Rightarrow> bool" where
  "entry_ok ex h x \<longleftrightarrow>
     (case x of (origin, r) \<Rightarrow>
        r < length h \<and> \<not> pe_done (h ! r) \<and>
        (let c = pe_candidate (h ! r)
         in cp_Origin (cd_cp c) = origin \<and> text_ok (cd_text c)
            \<and> ex_ParseCheckpoint ex (cd_text c) = Some (cd_cp c)))"

definition pool_ok :: "external \<Rightarrow> pool_entry list \<Rightarrow> pool \<Rightarrow> bool" where
  "pool_ok ex h p \<longleftrightarrow> wf_map p \<and> distinct (map snd p) \<and> (\<forall>x \<in> set p. entry_ok ex h x)"

definition pool_consistent :: "external \<Rightarrow> (bytes \<Rightarrow> log_state option) \<Rightarrow> pool_entry list \<Rightarrow> pool \<Rightarrow> bool" where
  "pool_consistent ex get h p \<longleftrightarrow>
     (\<forall>(origin, r) \<in> set p. consistent ex (get origin) (cp_N (cd_cp (pe_candidate (h ! r))))
        (cp_Hash (cd_cp (pe_candidate (h ! r)))))"

definition log_ok :: "external \<Rightarrow> (bytes \<Rightarrow> log_state option) \<Rightarrow> log_states \<Rightarrow> bool" where
  "log_ok ex get log \<longleftrightarrow>
     sorted_wrt (\<lambda>(a, s) (b, s'). a = b \<longrightarrow> reaches ex s s') log \<and>
     (\<forall>(origin, s) \<in> set log. \<exists>s'. get origin = Some s' \<and> reaches ex s s')"

text \<open>A response with code 200 belongs to a logged state: its body is the signature part of the note.\<close>

definition entry_logged :: "log_states \<Rightarrow> pool_entry \<Rightarrow> bool" where
  "entry_logged log e \<longleftrightarrow>
     (let c = pe_candidate e
      in \<exists>st. (cp_Origin (cd_cp c), st) \<in> set log \<and> ls_Size st = cp_N (cd_cp c)
            \<and> ls_Hash st = cp_Hash (cd_cp c) \<and> pe_resp e = drop (length (cd_text c) + 1) (ls_Note st))"

definition heap_logged :: "log_states \<Rightarrow> pool_entry list \<Rightarrow> bool" where
  "heap_logged log h \<longleftrightarrow> (\<forall>e \<in> set h. pe_code e = StatusOK \<longrightarrow> entry_logged log e)"

definition phase_ok :: "external \<Rightarrow> (bytes \<Rightarrow> log_state option) \<Rightarrow> 's witness \<Rightarrow> seq_phase \<Rightarrow> bool" where
  "phase_ok ex get w ph \<longleftrightarrow>
     (case ph of
        Seq_Idle \<Rightarrow> w_inSequencing w = []
      | Seq_Swapped p \<Rightarrow> w_inSequencing w = p \<and> pool_consistent ex get (w_heap w) p
      | Seq_Committed p \<Rightarrow> w_inSequencing w = p)"

definition pools_ok :: "external \<Rightarrow> 's witness \<Rightarrow> bool" where
  "pools_ok ex w \<longleftrightarrow>
     pool_ok ex (w_heap w) (w_currentPool w) \<and> pool_ok ex (w_heap w) (w_inSequencing w)
     \<and> fst ` set (w_currentPool w) \<inter> fst ` set (w_inSequencing w) = {}
     \<and> snd ` set (w_currentPool w) \<inter> snd ` set (w_inSequencing w) = {}
     \<and> length (w_currentPool w) \<le> maxPoolSize"

definition winv :: "external \<Rightarrow> ('s, 'e) store_ops \<Rightarrow> ('s \<Rightarrow> bool) \<Rightarrow> 's wsys \<Rightarrow> bool" where
  "winv ex sops sinv S \<longleftrightarrow>
     (let w = ws_w S; get = st_Get sops (w_store w)
      in sinv (w_store w) \<and> valid_view ex get \<and> pools_ok ex w
         \<and> pool_consistent ex get (w_heap w) (w_currentPool w)
         \<and> phase_ok ex get w (ws_phase S) \<and> log_ok ex get (ws_log S)
         \<and> heap_logged (ws_log S) (w_heap w))"

section \<open>Lemmas on pools and logs\<close>

lemma pool_ok_Nil [simp]: "pool_ok ex h []"
  by (simp add: pool_ok_def)

lemma pool_consistent_Nil [simp]: "pool_consistent ex get h []"
  by (simp add: pool_consistent_def)

lemma pool_ok_refs: "pool_ok ex h p \<Longrightarrow> refs_ok p h"
  by (auto simp: pool_ok_def refs_ok_def entry_ok_def)

lemma pool_ok_entry:
  assumes "pool_ok ex h p" "(origin, r) \<in> set p"
  shows "r < length h" "\<not> pe_done (h ! r)" "cp_Origin (cd_cp (pe_candidate (h ! r))) = origin"
    "text_ok (cd_text (pe_candidate (h ! r)))"
    "ex_ParseCheckpoint ex (cd_text (pe_candidate (h ! r))) = Some (cd_cp (pe_candidate (h ! r)))"
  using assms by (auto simp: pool_ok_def entry_ok_def Let_def dest!: bspec)

text \<open>Heaps that agree on candidates and open entries are interchangeable.\<close>

lemma pool_ok_cong:
  assumes "length h' = length h"
    "\<And>r. r \<in> snd ` set p \<Longrightarrow> pe_candidate (h' ! r) = pe_candidate (h ! r) \<and> pe_done (h' ! r) = pe_done (h ! r)"
  shows "pool_ok ex h' p = pool_ok ex h p"
proof -
  have "entry_ok ex h' x = entry_ok ex h x" if "x \<in> set p" for x
    using assms(1) assms(2) [OF imageI [OF that]] by (cases x) (simp add: entry_ok_def)
  then show ?thesis by (simp add: pool_ok_def)
qed

lemma pool_consistent_cong:
  assumes "\<And>r. r \<in> snd ` set p \<Longrightarrow> pe_candidate (h' ! r) = pe_candidate (h ! r)"
    "\<And>origin. origin \<in> fst ` set p \<Longrightarrow> get' origin = get origin"
  shows "pool_consistent ex get' h' p = pool_consistent ex get h p"
  using assms by (force simp: pool_consistent_def)

lemma pool_ok_append: "pool_ok ex h p \<Longrightarrow> pool_ok ex (h @ h') p"
proof -
  assume p: "pool_ok ex h p"
  have "(h @ h') ! r = h ! r" if "(origin, r) \<in> set p" for origin r
    using pool_ok_entry(1) [OF p that] by (simp add: nth_append)
  with p show ?thesis by (force simp: pool_ok_def entry_ok_def)
qed

lemma pool_consistent_append:
  assumes "pool_ok ex h p"
  shows "pool_consistent ex get (h @ h') p = pool_consistent ex get h p"
  using pool_ok_entry(1) [OF assms] by (force simp: pool_consistent_def nth_append)

lemma log_ok_Nil [simp]: "log_ok ex get []"
  by (simp add: log_ok_def)

lemma log_ok_reached: "log_ok ex get log \<Longrightarrow> (origin, s) \<in> set log \<Longrightarrow> \<exists>s'. get origin = Some s' \<and> reaches ex s s'"
  by (auto simp: log_ok_def)

lemma log_ok_same_size:
  assumes "log_ok ex get log" "(origin, s1) \<in> set log" "(origin, s2) \<in> set log" "ls_Size s1 = ls_Size s2"
  shows "ls_Hash s1 = ls_Hash s2"
proof -
  from assms(2,3) obtain i j where i: "i < length log" "log ! i = (origin, s1)"
    and j: "j < length log" "log ! j = (origin, s2)" by (metis in_set_conv_nth)
  have s: "sorted_wrt (\<lambda>(a, s) (b, s'). a = b \<longrightarrow> reaches ex s s') log" using assms(1) by (simp add: log_ok_def)
  consider "i < j" | "i = j" | "j < i" by linarith
  then show ?thesis
  proof cases
    case 1
    with sorted_wrt_nth_less [OF s 1 j(1)] i j assms(4) show ?thesis by (auto dest: reaches_same_size)
  next
    case 3
    with sorted_wrt_nth_less [OF s 3 i(1)] i j assms(4) show ?thesis by (auto dest: reaches_same_size)
  qed (use i j in simp)
qed

lemma log_ok_view_le: "log_ok ex get log \<Longrightarrow> view_le ex get get' \<Longrightarrow> log_ok ex get' log"
  unfolding log_ok_def view_le_def by (fast intro: reaches_trans)

lemma batch_chain:
  assumes "wf_map ups"
  shows "sorted_wrt (\<lambda>(a, s) (b, s'). a = b \<longrightarrow> reaches ex s s') ups"
  using assms by (induction ups) (force simp: wf_map_def)+

text \<open>Appending an accepted batch keeps the log a chain that ends in the store's view.\<close>

lemma log_ok_commit:
  assumes log: "log_ok ex get log" and b: "batch_ok ex get ups" and v: "valid_view ex get"
  shows "log_ok ex (get ++ map_of ups) (log @ ups)"
proof -
  have wf: "wf_map ups" using b by (simp add: batch_ok_def)
  have old: "log_ok ex (get ++ map_of ups) log"
    using log batch_ok_view_le [OF b v] by (rule log_ok_view_le)
  have new: "(get ++ map_of ups) origin = Some st" if "(origin, st) \<in> set ups" for origin st
    using that wf by (simp add: map_add_def map_of_wf_iff [OF wf, THEN iffD2])
  have cross: "reaches ex s s'" if "(origin, s) \<in> set log" "(origin, s') \<in> set ups" for origin s s'
    using log_ok_reached [OF old that(1)] new [OF that(2)] by simp
  have "sorted_wrt (\<lambda>(a, s) (b, s'). a = b \<longrightarrow> reaches ex s s') (log @ ups)"
    using old batch_chain [OF wf] cross by (auto simp: log_ok_def sorted_wrt_append)
  moreover have "\<exists>s'. (get ++ map_of ups) origin = Some s' \<and> reaches ex s s'"
    if "(origin, s) \<in> set (log @ ups)" for origin s
    using that log_ok_reached [OF old] new by fastforce
  ultimately show ?thesis by (auto simp: log_ok_def)
qed

lemma entry_logged_mono: "entry_logged log e \<Longrightarrow> set log \<subseteq> set log' \<Longrightarrow> entry_logged log' e"
  by (auto simp: entry_logged_def Let_def)

lemma entry_logged_done [simp]: "entry_logged log (e\<lparr>pe_done := b\<rparr>) = entry_logged log e"
  by (simp add: entry_logged_def)

section \<open>What sequencePool does\<close>

lemma sequencePool_store:
  "w_store (sequencePool ex sops env now t p w) =
     (case pool_batch ex sops now p w of None \<Rightarrow> w_store w
      | Some ups \<Rightarrow> snd (st_PutBatch sops env (w_store w) ups))"
  by (auto simp: sequencePool_def pool_batch_def fail_pool_def Let_def split: option.split prod.split)

lemma sequencePool_frame:
  "w_currentPool (sequencePool ex sops env now t p w) = w_currentPool w"
  "w_inSequencing (sequencePool ex sops env now t p w) = w_inSequencing w"
  "w_signer (sequencePool ex sops env now t p w) = w_signer w"
  "w_epoch (sequencePool ex sops env now t p w) = w_epoch w"
  "w_running (sequencePool ex sops env now t p w) = w_running w"
  by (auto simp: sequencePool_def fail_pool_def Let_def split: option.split prod.split)

lemma sequencePool_length [simp]:
  "length (w_heap (sequencePool ex sops env now t p w)) = length (w_heap w)"
  by (auto simp: sequencePool_def fail_pool_def Let_def split: option.split prod.split
      dest: sign_entries_length)

text \<open>The batch in terms of the pool: the signed state of every entry whose key is current.\<close>

lemma pool_batch_SomeD:
  assumes "pool_batch ex sops now p w = Some ups" "refs_ok p (w_heap w)" "wf_map p"
  obtains sg h where "w_signer w = Some sg" "wf_map ups"
    "sign_entries ex sg (w_epoch w) now p (w_heap w) [] False = (h, ups, False)"
    "\<And>origin. map_of ups origin = (case map_of p origin of None \<Rightarrow> None
       | Some r \<Rightarrow> signed_state ex sg (w_epoch w) now origin (pe_candidate (w_heap w ! r)))"
proof -
  from assms(1) obtain sg h where sg: "w_signer w = Some sg"
    and s: "sign_entries ex sg (w_epoch w) now p (w_heap w) [] False = (h, ups, False)"
    by (auto simp: pool_batch_def split: if_splits option.splits prod.splits)
  show thesis
  proof
    show "wf_map ups" using sign_entries_wf [OF s] by simp
    show "map_of ups origin = (case map_of p origin of None \<Rightarrow> None
       | Some r \<Rightarrow> signed_state ex sg (w_epoch w) now origin (pe_candidate (w_heap w ! r)))" for origin
      using sign_entries_states [OF s assms(2,3), of origin] by (auto split: option.splits)
  qed (fact sg s)+
qed

text \<open>Every entry of a sequenced pool has a result afterwards; a 200 is backed by a committed state.\<close>

text \<open>What the signing loop leaves at an entry: the entry's own result, and for 200 the state it signed is in the batch.\<close>

lemma sign_entries_entry:
  assumes s: "sign_entries ex sg ep now p h0 [] False = (h, states, sf)"
    and p: "refs_ok p h0" "wf_map p" "distinct (map snd p)" "(origin, r) \<in> set p"
    and res: "res = entry_result ex sg ep now origin (pe_candidate (h0 ! r))"
  shows "h ! r = (h0 ! r)\<lparr>pe_code := fst res, pe_resp := snd res\<rparr>"
    and "fst res \<in> {StatusOK, StatusInternalServerError, StatusServiceUnavailable}"
    and "fst res = StatusOK \<Longrightarrow> \<exists>st. signed_state ex sg ep now origin (pe_candidate (h0 ! r)) = Some st
      \<and> (origin, st) \<in> set states \<and> snd res = drop (length (cd_text (pe_candidate (h0 ! r))) + 1) (ls_Note st)"
proof -
  have r: "r < length h0" using p(1,4) by (force simp: refs_ok_def)
  show "h ! r = (h0 ! r)\<lparr>pe_code := fst res, pe_resp := snd res\<rparr>"
    using sign_entries_nth [OF s p(1,3) r] p(4) unfolding res by blast
  show "fst res \<in> {StatusOK, StatusInternalServerError, StatusServiceUnavailable}"
    unfolding res by (auto simp: entry_result_def split: option.split)
  assume "fst res = StatusOK"
  then obtain st where st: "signed_state ex sg ep now origin (pe_candidate (h0 ! r)) = Some st"
    and rs: "snd res = drop (length (cd_text (pe_candidate (h0 ! r))) + 1) (ls_Note st)"
    unfolding res by (auto simp: entry_result_def signed_state_def split: if_splits option.splits)
  have "map_of p origin = Some r" using p(2,4) by (simp add: map_of_wf_iff)
  then have "map_of states origin = Some st" using sign_entries_states [OF s p(1,2), of origin] st by simp
  then show "\<exists>st. signed_state ex sg ep now origin (pe_candidate (h0 ! r)) = Some st
      \<and> (origin, st) \<in> set states \<and> snd res = drop (length (cd_text (pe_candidate (h0 ! r))) + 1) (ls_Note st)"
    using st rs by (auto dest: map_of_SomeD)
qed

lemma sequencePool_entry:
  assumes p: "p \<noteq> []" "refs_ok p (w_heap w)" "wf_map p" "distinct (map snd p)" "(origin, r) \<in> set p"
  shows "\<exists>code resp. w_heap (sequencePool ex sops env now t p w) ! r =
      (w_heap w ! r)\<lparr>pe_code := code, pe_resp := resp\<rparr> \<and>
    code \<in> {StatusOK, StatusInternalServerError, StatusServiceUnavailable} \<and>
    (code = StatusOK \<longrightarrow> (\<exists>sg st. w_signer w = Some sg
       \<and> signed_state ex sg (w_epoch w) now origin (pe_candidate (w_heap w ! r)) = Some st
       \<and> (origin, st) \<in> set (committed_batch ex sops env now p w)
       \<and> resp = drop (length (cd_text (pe_candidate (w_heap w ! r))) + 1) (ls_Note st)))"
    (is "\<exists>code resp. ?P code resp (w_heap (sequencePool ex sops env now t p w))")
proof -
  let ?w' = "sequencePool ex sops env now t p w"
  have r: "r < length (w_heap w)" using p(2,5) by (force simp: refs_ok_def)
  have mem: "r \<in> snd ` set p" using p(5) by force
  have fail: "setPoolResult code resp p h ! r = (h ! r)\<lparr>pe_code := code, pe_resp := resp\<rparr>"
    if "length h = length (w_heap w)" for code resp h
    using r mem that by (simp add: nth_setPoolResult)
  show ?thesis
  proof (cases "w_signer w = None \<or> w_Halted sops w")
    case True
    then obtain resp where "w_heap ?w' ! r =
        (w_heap w ! r)\<lparr>pe_code := StatusServiceUnavailable, pe_resp := resp\<rparr>"
      using p(1) by (cases "w_signer w") (simp_all add: sequencePool_def fail_pool_def fail)
    then show ?thesis by (intro exI [of _ StatusServiceUnavailable] exI [of _ resp]) simp
  next
    case False
    then obtain sg where sg: "w_signer w = Some sg" and nh: "\<not> w_Halted sops w" by auto
    obtain h states sf where s:
      "sign_entries ex sg (w_epoch w) now p (w_heap w) [] False = (h, states, sf)"
      by (metis prod_cases3)
    have len: "length h = length (w_heap w)" using s by (rule sign_entries_length)
    let ?res = "entry_result ex sg (w_epoch w) now origin (pe_candidate (w_heap w ! r))"
    note e = sign_entries_entry [OF s p(2-5) refl]
    show ?thesis
    proof (cases "sf \<or> fst (st_PutBatch sops env (w_store w) states) \<noteq> None \<and> states \<noteq> []")
      case True
      then have "w_heap ?w' ! r = (h ! r)\<lparr>pe_code := StatusInternalServerError, pe_resp := []\<rparr>"
        using p(1) sg nh s
        by (auto simp: sequencePool_def fail_pool_def Let_def fail [OF len] split: prod.split option.split)
      then show ?thesis by (intro exI [of _ StatusInternalServerError] exI [of _ "[]"]) (simp add: e(1))
    next
      case good: False
      then have w': "w_heap ?w' = h" using p(1) sg nh s
        by (auto simp: sequencePool_def fail_pool_def Let_def split: prod.split option.split)
      have cb: "committed_batch ex sops env now p w = states"
        using good p(1) sg nh s by (auto simp: committed_batch_def pool_batch_def)
      show ?thesis
        by (rule exI [of _ "fst ?res"], rule exI [of _ "snd ?res"])
          (use e sg in \<open>simp add: w' cb\<close>)
    qed
  qed
qed

lemma sequencePool_other:
  assumes "refs_ok p (w_heap w)" "distinct (map snd p)" "r \<notin> snd ` set p" "r < length (w_heap w)"
  shows "w_heap (sequencePool ex sops env now t p w) ! r = w_heap w ! r"
proof -
  have fail: "setPoolResult code resp p h ! r = h ! r" if "length h = length (w_heap w)" for code resp h
    using assms(3,4) that by (simp add: nth_setPoolResult)
  show ?thesis
  proof (cases "w_signer w")
    case None
    then show ?thesis by (simp add: sequencePool_def fail_pool_def fail)
  next
    case (Some sg)
    obtain h states sf where s:
      "sign_entries ex sg (w_epoch w) now p (w_heap w) [] False = (h, states, sf)"
      by (metis prod_cases3)
    have "h ! r = w_heap w ! r" using sign_entries_nth [OF s assms(1,2,4)] assms(3) by simp
    then show ?thesis using fail [OF sign_entries_length [OF s]] Some s
      by (auto simp: sequencePool_def fail_pool_def Let_def fail split: option.split prod.split)
  qed
qed

lemma sequencePool_fields:
  assumes "refs_ok p (w_heap w)" "wf_map p" "distinct (map snd p)" "r < length (w_heap w)"
  shows "pe_candidate (w_heap (sequencePool ex sops env now t p w) ! r) = pe_candidate (w_heap w ! r)
    \<and> pe_done (w_heap (sequencePool ex sops env now t p w) ! r) = pe_done (w_heap w ! r)"
proof (cases "r \<in> snd ` set p")
  case True
  then obtain origin where o': "(origin, r) \<in> set p" by auto
  then have "p \<noteq> []" by auto
  from sequencePool_entry [OF this assms(1-3) o', of ex sops env now t] show ?thesis by auto
next
  case False
  with sequencePool_other [OF assms(1,3) False assms(4), of ex sops env now t] show ?thesis by simp
qed

end
