(* ===== verification/Witness_Inv.thy ===== *)
theory Witness_Inv
  imports Witness_Steps
begin

text \<open>
  The invariant of the witness state machine holds in every reachable state, for any store that
  satisfies the \<open>store\<close> contract. The lemmas are proved once in the context of that contract and used
  through its interpretations.
\<close>

section \<open>The batch of a pool\<close>

lemma pool_batch_ok:
  assumes "pool_ok ex (w_heap w) p" "pool_consistent ex get (w_heap w) p" "sign_ok ex"
    "pool_batch ex sops now p w = Some ups"
  shows "batch_ok ex get ups"
proof -
  have wf: "wf_map p" using assms(1) by (simp add: pool_ok_def)
  from pool_batch_SomeD [OF assms(4) pool_ok_refs [OF assms(1)] wf] obtain sg where
    u: "wf_map ups" "\<And>origin. map_of ups origin = (case map_of p origin of None \<Rightarrow> None
       | Some r \<Rightarrow> signed_state ex sg (w_epoch w) now origin (pe_candidate (w_heap w ! r)))"
    by blast
  have "consistent ex (get origin) (ls_Size st) (ls_Hash st) \<and> RestoreNote ex (ls_Note st) = Inr (origin, st)"
    if "(origin, st) \<in> set ups" for origin st
  proof -
    have "map_of ups origin = Some st" using that u(1) by (simp add: map_of_wf_iff)
    then obtain r where r: "(origin, r) \<in> set p"
      and st: "signed_state ex sg (w_epoch w) now origin (pe_candidate (w_heap w ! r)) = Some st"
      by (auto simp: u(2) split: option.splits dest!: map_of_SomeD)
    let ?c = "pe_candidate (w_heap w ! r)"
    note e = pool_ok_entry [OF assms(1) r]
    from st obtain snote where sn: "ex_Sign ex sg (now origin) (cd_text ?c) = Some snote"
      and st': "st = \<lparr>ls_Size = cp_N (cd_cp ?c), ls_Hash = cp_Hash (cd_cp ?c), ls_Note = snote\<rparr>"
      by (auto simp: signed_state_def split: if_splits)
    have "consistent ex (get origin) (ls_Size st) (ls_Hash st)"
      using assms(2) r by (auto simp: pool_consistent_def st')
    with RestoreNote_signed [OF assms(3) sn e(4,5)] e(3) show ?thesis by (simp add: st')
  qed
  with u(1) show ?thesis by (auto simp: batch_ok_def)
qed

text \<open>The origins of a batch are origins of its pool.\<close>

lemma pool_batch_origins:
  assumes "pool_batch ex sops now p w = Some ups" "refs_ok p (w_heap w)" "wf_map p" "origin \<notin> fst ` set p"
  shows "map_of ups origin = None"
proof -
  have "map_of p origin = None" using assms(4) by (simp add: map_of_eq_None_iff)
  with pool_batch_SomeD [OF assms(1-3)] show ?thesis by (metis option.simps(4))
qed

section \<open>Preservation\<close>

lemma winv_unchanged:
  assumes "winv ex sops sinv S" "w_store w' = w_store (ws_w S)" "w_heap w' = w_heap (ws_w S)"
    "w_currentPool w' = w_currentPool (ws_w S)" "w_inSequencing w' = w_inSequencing (ws_w S)"
  shows "winv ex sops sinv (S\<lparr>ws_w := w'\<rparr>)"
  using assms by (simp add: winv_def pools_ok_def phase_ok_def Let_def cong: seq_phase.case_cong)

lemma heap_logged_nth:
  "heap_logged log h \<longleftrightarrow> (\<forall>i < length h. pe_code (h ! i) = StatusOK \<longrightarrow> entry_logged log (h ! i))"
  by (simp add: heap_logged_def all_set_conv_all_nth)

lemma pool_ok_snoc:
  assumes "pool_ok ex h p" "origin \<notin> fst ` set p" "entry_ok ex h' (origin, length h)"
    "h' = h @ [e]"
  shows "pool_ok ex h' (AList.update origin (length h) p)"
proof -
  have "length h \<notin> snd ` set p" using pool_ok_entry(1) [OF assms(1)] by force
  with assms pool_ok_append [OF assms(1), of "[e]"] show ?thesis
    by (auto simp: pool_ok_def update_fresh wf_map_def)
qed

lemma winv_submit:
  assumes inv: "winv ex sops sinv S" and cp: "text_ok txt" "ex_ParseCheckpoint ex txt = Some cp"
    and old: "0 \<le> rq_old req" "rq_old req \<le> cp_N cp"
    and add: "addToPool ex sops (ws_w S) req \<lparr>cd_cp = cp, cd_text = txt, cd_signer = sg, cd_epoch = ep\<rparr> = (res, w')"
  shows "winv ex sops sinv (S\<lparr>ws_w := w'\<rparr>)"
  using add
proof (cases rule: addToPool_cases)
  case admitted
  let ?w = "ws_w S" and ?o = "cp_Origin cp"
  let ?e = "\<lparr>pe_candidate = \<lparr>cd_cp = cp, cd_text = txt, cd_signer = sg, cd_epoch = ep\<rparr>,
    pe_done = False, pe_code = 0, pe_resp = []\<rparr>"
  let ?h = "w_heap ?w @ [?e]" and ?r = "length (w_heap ?w)"
  let ?get = "st_Get sops (w_store ?w)"
  have fresh: "?o \<notin> fst ` set (w_currentPool ?w)" "?o \<notin> fst ` set (w_inSequencing ?w)"
    using admitted by (simp_all add: map_of_eq_None_iff)
  have pools: "pool_ok ex (w_heap ?w) (w_currentPool ?w)" "pool_ok ex (w_heap ?w) (w_inSequencing ?w)"
    using inv by (simp_all add: winv_def pools_ok_def Let_def)
  have refs: "?r \<notin> snd ` set (w_inSequencing ?w)" using pool_ok_entry(1) [OF pools(2)] by force
  have con: "consistent ex (?get ?o) (cp_N cp) (cp_Hash cp)"
    using consistency_check_consistent [of ex req cp sops ?w ?o] admitted old by simp
  have "entry_ok ex ?h (?o, ?r)" using cp by (simp add: entry_ok_def)
  then have cur: "pool_ok ex ?h (AList.update ?o ?r (w_currentPool ?w))"
    using pool_ok_snoc [OF pools(1) fresh(1)] by simp
  have "pools_ok ex w'" using inv cur admitted fresh refs pool_ok_append [OF pools(2), of "[?e]"]
    by (auto simp: winv_def pools_ok_def Let_def update_fresh)
  moreover have "pool_consistent ex ?get ?h (AList.update ?o ?r (w_currentPool ?w))"
    using inv con pool_consistent_append [OF pools(1), of ?get "[?e]"] fresh
    by (auto simp: winv_def Let_def update_fresh pool_consistent_def)
  moreover have "phase_ok ex ?get w' (ws_phase S)"
    using inv admitted pool_consistent_append [OF pools(2), of ?get "[?e]"]
    by (auto simp: winv_def phase_ok_def Let_def split: seq_phase.splits)
  moreover have "heap_logged (ws_log S) ?h" using inv by (auto simp: winv_def heap_logged_def Let_def)
  ultimately show ?thesis using inv admitted by (simp add: winv_def Let_def)
qed (use inv in auto)

lemma winv_swap:
  assumes "winv ex sops sinv S" "ws_phase S = Seq_Idle"
  shows "winv ex sops sinv (S\<lparr>ws_w := seq_begin (ws_w S), ws_phase := Seq_Swapped (w_currentPool (ws_w S))\<rparr>)"
  using assms by (auto simp: winv_def pools_ok_def phase_ok_def seq_begin_def newPool_def Let_def)

lemma winv_retire:
  assumes inv: "winv ex sops sinv S" and ph: "ws_phase S = Seq_Committed p"
  shows "winv ex sops sinv (S\<lparr>ws_w := seq_end p (ws_w S), ws_phase := Seq_Idle\<rparr>)"
proof -
  let ?w = "ws_w S" and ?h = "close_done p (w_heap (ws_w S))"
  have p: "w_inSequencing ?w = p" using inv ph by (simp add: winv_def phase_ok_def Let_def)
  have pools: "pools_ok ex ?w" using inv by (simp add: winv_def Let_def)
  have same: "?h ! r = w_heap ?w ! r" if "r \<in> snd ` set (w_currentPool ?w)" for r
  proof -
    have "r < length (w_heap ?w)" using that pools pool_ok_refs by (auto simp: pools_ok_def refs_ok_def)
    moreover have "r \<notin> snd ` set p" using that pools p by (auto simp: pools_ok_def)
    ultimately show ?thesis by (simp add: nth_close_done)
  qed
  have "heap_logged (ws_log S) ?h"
    using inv by (simp add: winv_def heap_logged_nth Let_def nth_close_done)
  moreover have "pool_ok ex ?h (w_currentPool ?w)"
    using pools pool_ok_cong [of ?h "w_heap ?w" "w_currentPool ?w"] same by (simp add: pools_ok_def)
  moreover have "pool_consistent ex get ?h (w_currentPool ?w)"
    if "pool_consistent ex get (w_heap ?w) (w_currentPool ?w)" for get
    using that pool_consistent_cong [of "w_currentPool ?w" ?h "w_heap ?w" get get] same by simp
  ultimately show ?thesis using inv by (simp add: winv_def pools_ok_def phase_ok_def seq_end_def Let_def)
qed

lemma winv_stop:
  assumes inv: "winv ex sops sinv S" and ph: "ws_phase S = Seq_Idle"
  shows "winv ex sops sinv (S\<lparr>ws_w := run_stop (ws_w S)\<rparr>)"
proof -
  let ?w = "ws_w S"
  have "heap_logged (ws_log S) (w_heap (stopPools ?w))"
    using inv by (simp add: winv_def heap_logged_nth Let_def stopPools_def nth_close_done nth_setPoolResult)
  moreover have "w_inSequencing ?w = []" using inv ph by (simp add: winv_def phase_ok_def Let_def)
  ultimately show ?thesis using inv ph
    by (simp add: winv_def pools_ok_def phase_ok_def run_stop_def stopPools_def newPool_def Let_def)
qed

text \<open>The results of a commit: a 200 is backed by a state of the committed batch.\<close>

lemma sequencePool_logged:
  assumes "pool_ok ex (w_heap w) p" "heap_logged log (w_heap w)"
  shows "heap_logged (log @ committed_batch ex sops env now p w)
    (w_heap (sequencePool ex sops env now t p w))"
  unfolding heap_logged_nth
proof (intro allI impI)
  let ?w' = "sequencePool ex sops env now t p w"
  fix i assume i: "i < length (w_heap ?w')" and ok: "pe_code (w_heap ?w' ! i) = StatusOK"
  have len: "i < length (w_heap w)" using i by simp
  have p: "wf_map p" "distinct (map snd p)" using assms(1) by (simp_all add: pool_ok_def)
  note refs = pool_ok_refs [OF assms(1)]
  show "entry_logged (log @ committed_batch ex sops env now p w) (w_heap ?w' ! i)"
  proof (cases "i \<in> snd ` set p")
    case False
    with sequencePool_other [OF refs p(2) False len, of ex sops env now t] ok len assms(2) show ?thesis
      by (auto simp: heap_logged_nth intro: entry_logged_mono)
  next
    case True
    then obtain origin where o': "(origin, i) \<in> set p" by auto
    then have "p \<noteq> []" by auto
    from sequencePool_entry [OF this refs p o', of ex sops env now t] ok obtain sg st where
      e: "w_heap ?w' ! i = (w_heap w ! i)\<lparr>pe_code := StatusOK,
            pe_resp := drop (length (cd_text (pe_candidate (w_heap w ! i))) + 1) (ls_Note st)\<rparr>"
        "signed_state ex sg (w_epoch w) now origin (pe_candidate (w_heap w ! i)) = Some st"
        "(origin, st) \<in> set (committed_batch ex sops env now p w)"
      by auto
    from e(2) have "ls_Size st = cp_N (cd_cp (pe_candidate (w_heap w ! i)))"
      "ls_Hash st = cp_Hash (cd_cp (pe_candidate (w_heap w ! i)))"
      by (auto simp: signed_state_def split: if_splits)
    with e(1,3) pool_ok_entry(3) [OF assms(1) o'] show ?thesis
      by (auto simp: entry_logged_def Let_def)
  qed
qed

text \<open>A witness on a store: the client side of the store contract.\<close>

locale witness_store = store sops inv
  for sops :: "('s, 'e) store_ops" and inv :: "'s \<Rightarrow> bool"
begin

text \<open>What a commit does to the visible store: the committed batch on top, nothing else.\<close>

lemma commit_get:
  assumes "inv (w_store w)" "refs_ok p (w_heap w)" "wf_map p"
  shows "inv (w_store (sequencePool ex sops env now t p w))"
    and "st_Get sops (w_store (sequencePool ex sops env now t p w)) =
      st_Get sops (w_store w) ++ map_of (committed_batch ex sops env now p w)"
proof -
  show "inv (w_store (sequencePool ex sops env now t p w))"
  proof (cases "pool_batch ex sops now p w")
    case (Some ups)
    have "wf_map ups" by (rule pool_batch_SomeD [OF Some assms(2,3)])
    with put_inv [OF assms(1)] show ?thesis by (simp add: sequencePool_store Some)
  qed (use assms(1) in \<open>simp add: sequencePool_store\<close>)
  show "st_Get sops (w_store (sequencePool ex sops env now t p w)) =
      st_Get sops (w_store w) ++ map_of (committed_batch ex sops env now p w)"
  proof (cases "pool_batch ex sops now p w")
    case (Some ups)
    have wf: "wf_map ups" by (rule pool_batch_SomeD [OF Some assms(2,3)])
    obtain r s' where pb: "st_PutBatch sops env (w_store w) ups = (r, s')" by fastforce
    show ?thesis using put_ok [OF assms(1) wf, of env s'] put_err [OF assms(1) wf, of env _ s'] pb
      by (cases r) (simp_all add: sequencePool_store committed_batch_def Some)
  qed (simp add: sequencePool_store committed_batch_def)
qed

lemma committed_batch_ok:
  assumes "winv ex sops inv S" "ws_phase S = Seq_Swapped p" "sign_ok ex"
  shows "batch_ok ex (st_Get sops (w_store (ws_w S))) (committed_batch ex sops env now p (ws_w S))"
proof -
  have "pool_ok ex (w_heap (ws_w S)) p" "pool_consistent ex (st_Get sops (w_store (ws_w S))) (w_heap (ws_w S)) p"
    using assms(1,2) by (auto simp: winv_def phase_ok_def pools_ok_def Let_def)
  note b = pool_batch_ok [OF this assms(3), of sops now]
  have "batch_ok ex (st_Get sops (w_store (ws_w S))) []" by (simp add: batch_ok_def)
  with b show ?thesis by (simp add: committed_batch_def split: option.split)
qed

lemma winv_commit:
  assumes I: "winv ex sops inv S" and ph: "ws_phase S = Seq_Swapped p" and sg: "sign_ok ex"
  shows "winv ex sops inv (S\<lparr>ws_w := sequencePool ex sops env now t p (ws_w S), ws_phase := Seq_Committed p,
      ws_log := ws_log S @ committed_batch ex sops env now p (ws_w S)\<rparr>)"
proof -
  let ?w = "ws_w S" and ?w' = "sequencePool ex sops env now t p (ws_w S)"
  let ?get = "st_Get sops (w_store ?w)" and ?ups = "committed_batch ex sops env now p (ws_w S)"
  have i: "inv (w_store ?w)" "valid_view ex ?get" "pools_ok ex ?w" "w_inSequencing ?w = p"
    "pool_consistent ex ?get (w_heap ?w) (w_currentPool ?w)" "log_ok ex ?get (ws_log S)"
    "heap_logged (ws_log S) (w_heap ?w)"
    using I ph by (simp_all add: winv_def phase_ok_def Let_def)
  have p: "pool_ok ex (w_heap ?w) p" using i(3,4) by (simp add: pools_ok_def)
  then have pp: "refs_ok p (w_heap ?w)" "wf_map p" "distinct (map snd p)"
    by (auto simp: pool_ok_refs) (auto simp: pool_ok_def)
  note get' = commit_get [OF i(1) pp(1,2), of ex env now t]
  note b = committed_batch_ok [OF I ph sg, of env now]
  have fields: "pool_ok ex (w_heap ?w') q = pool_ok ex (w_heap ?w) q" if "pool_ok ex (w_heap ?w) q" for q
    using pool_ok_refs [OF that] sequencePool_fields [OF pp, of _ ex sops env now t]
    by (intro pool_ok_cong) (auto simp: refs_ok_def)
  have "pools_ok ex ?w'" using i(3) fields by (simp add: pools_ok_def sequencePool_frame)
  moreover have "pool_consistent ex (?get ++ map_of ?ups) (w_heap ?w') (w_currentPool ?w)"
  proof -
    have disj: "map_of ?ups origin = None" if "origin \<in> fst ` set (w_currentPool ?w)" for origin
    proof -
      have "origin \<notin> fst ` set p" using that i(3,4) by (auto simp: pools_ok_def)
      then show ?thesis using pool_batch_origins [OF _ pp(1,2)]
        by (auto simp: committed_batch_def split: option.split)
    qed
    have refs: "refs_ok (w_currentPool ?w) (w_heap ?w)" using i(3) pool_ok_refs by (auto simp: pools_ok_def)
    have "pool_consistent ex (?get ++ map_of ?ups) (w_heap ?w') (w_currentPool ?w) =
        pool_consistent ex ?get (w_heap ?w) (w_currentPool ?w)"
      using disj sequencePool_fields [OF pp, of _ ex sops env now t] refs
      by (intro pool_consistent_cong) (auto simp: refs_ok_def map_add_def)
    with i(5) show ?thesis by simp
  qed
  moreover have "log_ok ex (?get ++ map_of ?ups) (ws_log S @ ?ups)"
    using i(6) b i(2) by (rule log_ok_commit)
  moreover have "valid_view ex (?get ++ map_of ?ups)" using b i(2) by (rule batch_ok_valid_view)
  moreover have "heap_logged (ws_log S @ ?ups) (w_heap ?w')" using p i(7) by (rule sequencePool_logged)
  ultimately show ?thesis using get' i(4) by (simp add: winv_def Let_def phase_ok_def sequencePool_frame)
qed

theorem winv_step:
  assumes "wstep ex sops S S'" "winv ex sops inv S" "sign_ok ex"
  shows "winv ex sops inv S'"
  using assms
proof (induction rule: wstep.induct)
  case (seq_start S w')
  then show ?case by (intro winv_unchanged) (auto simp: run_start_def split: if_splits)
next
  case (submit tx cp req S sg ep res w')
  then show ?case by (intro winv_submit)
qed (simp_all add: winv_unchanged SetSigner_def ClearSigner_def winv_swap winv_commit winv_retire winv_stop)

lemma winv_init:
  assumes "inv st" "valid_view ex (st_Get sops st)"
  shows "winv ex sops inv (winit st)"
  using assms by (simp add: winv_def winit_def New_def newPool_def pools_ok_def phase_ok_def heap_logged_def)

theorem winv_reach:
  assumes "wreach ex sops (winit st) S" "inv st" "valid_view ex (st_Get sops st)" "sign_ok ex"
  shows "winv ex sops inv S"
  using assms by (induction rule: wreach.induct) (auto intro: winv_init winv_step)

end

interpretation memwitness: witness_store mem_store_ops wf_map
  by (rule witness_store.intro) (rule memstore.store_axioms)

end
