(* ===== verification/Witness_Theorems.thy ===== *)
theory Witness_Theorems
  imports Witness_Inv
begin

text \<open>
  What a caller of the witness can rely on: a submission never reports success by itself, a sequencer
  pass settles every entry it took, a stale key signs nothing, and a halted store stops the witness.
\<close>

section \<open>Sequencer passes\<close>

lemma pools_disjoint_settled:
  assumes "pool_ok ex (w_heap w) p" "(origin, r) \<in> set p"
  shows "\<exists>code resp. w_heap (seq_end p (sequencePool ex sops env now t p w)) ! r =
      (w_heap w ! r)\<lparr>pe_code := code, pe_resp := resp, pe_done := True\<rparr>
    \<and> code \<in> {StatusOK, StatusInternalServerError, StatusServiceUnavailable}"
proof -
  have p: "p \<noteq> []" "refs_ok p (w_heap w)" "wf_map p" "distinct (map snd p)"
    using assms pool_ok_refs by (auto simp: pool_ok_def)
  have r: "r < length (w_heap w)" "r \<in> snd ` set p" using pool_ok_entry(1) [OF assms] assms(2) by force+
  from sequencePool_entry [OF p assms(2), of ex sops env now t] obtain code resp where
    "w_heap (sequencePool ex sops env now t p w) ! r = (w_heap w ! r)\<lparr>pe_code := code, pe_resp := resp\<rparr>"
    "code \<in> {StatusOK, StatusInternalServerError, StatusServiceUnavailable}" by blast
  with r show ?thesis
    by (intro exI [of _ code] exI [of _ resp]) (simp add: seq_end_def nth_close_done)
qed

lemma sequence_settles:
  assumes "pool_ok ex (w_heap w) (w_currentPool w)" "(origin, r) \<in> set (w_currentPool w)"
  shows "\<exists>code resp. await_entry (sequence ex sops env now t w) r = Some (code, resp)
    \<and> code \<in> {StatusOK, StatusInternalServerError, StatusServiceUnavailable}"
  using pools_disjoint_settled [of ex "seq_begin w" "w_currentPool w" origin r sops env now t] assms
  by (auto simp: sequence_def seq_begin_def await_entry_def Let_def)

lemma sequence_pools:
  "w_currentPool (sequence ex sops env now t w) = []" "w_inSequencing (sequence ex sops env now t w) = []"
  by (simp_all add: sequence_def seq_end_def seq_begin_def sequencePool_frame newPool_def Let_def)

text \<open>An entry whose signer or epoch is not the current one is refused and contributes no state.\<close>

lemma stale_key_refused:
  assumes p: "pool_ok ex (w_heap w) p" "(origin, r) \<in> set p"
    and stale: "\<And>sg. w_signer w = Some sg \<Longrightarrow> \<not> key_current sg (w_epoch w) (pe_candidate (w_heap w ! r))"
  shows "pe_code (w_heap (sequencePool ex sops env now t p w) ! r) \<noteq> StatusOK
    \<and> origin \<notin> fst ` set (committed_batch ex sops env now p w)"
proof
  have q: "p \<noteq> []" "refs_ok p (w_heap w)" "wf_map p" "distinct (map snd p)"
    using p pool_ok_refs by (auto simp: pool_ok_def)
  show "pe_code (w_heap (sequencePool ex sops env now t p w) ! r) \<noteq> StatusOK"
    using sequencePool_entry [OF q p(2), of ex sops env now t] stale by (auto simp: signed_state_def)
  show "origin \<notin> fst ` set (committed_batch ex sops env now p w)"
  proof (cases "pool_batch ex sops now p w")
    case (Some ups)
    from pool_batch_SomeD [OF Some q(2,3)] obtain sg where sg: "w_signer w = Some sg"
      and u: "map_of ups origin = (case map_of p origin of None \<Rightarrow> None
       | Some r \<Rightarrow> signed_state ex sg (w_epoch w) now origin (pe_candidate (w_heap w ! r)))" by metis
    have "map_of p origin = Some r" using q(3) p(2) by (simp add: map_of_wf_iff)
    with u stale [OF sg] have "map_of ups origin = None" by (simp add: signed_state_def)
    then show ?thesis by (auto simp: committed_batch_def Some map_of_eq_None_iff)
  qed (simp add: committed_batch_def)
qed

section \<open>Submissions\<close>

lemma matchPending_not_ok: "matchPending sops w r c = Inl (code, resp) \<Longrightarrow> code = StatusConflict"
  by (auto simp: matchPending_def Let_def split: if_splits)

text \<open>A submission answers directly only to refuse; success comes from a settled pool entry.\<close>

lemma AddCheckpoint_direct:
  assumes "AddCheckpoint ex sops w body = (Inl (code, resp), w')"
  shows "w' = w \<and> code \<in> {StatusBadRequest, StatusConflict, StatusUnprocessableEntity,
    StatusTooManyRequests, StatusServiceUnavailable}"
  using assms
  by (auto simp: AddCheckpoint_def addToPool_def Let_def dest!: matchPending_not_ok
      split: option.splits sum.splits if_splits)

text \<open>What an admitted request looked like, and that it is a step of the state machine.\<close>

lemma parse_proof_length:
  "parse_proof ex rest acc = Inr (hs, cpNote) \<Longrightarrow> length acc \<le> maxProofLines \<Longrightarrow> length hs \<le> maxProofLines"
proof (induction ex rest acc rule: parse_proof.induct)
  case (1 ex rest acc)
  show ?case
  proof (cases "cut_at nl rest")
    case None
    with 1(2) show ?thesis by (simp add: parse_proof.simps [of ex rest acc])
  next
    case (Some x)
    obtain line rest' where x: "x = (line, rest')" by (cases x)
    show ?thesis using 1(2,3) 1(1) [OF Some x [symmetric]] Some x
      by (auto simp: parse_proof.simps [of ex rest acc] split: if_splits option.splits)
  qed
qed

lemma parseRequest_InrD:
  assumes "parseRequest ex body = Inr req"
  shows "0 \<le> rq_old req" "rq_old req < 2 ^ 63" "length (rq_proof req) \<le> maxProofLines" "rq_note req \<noteq> []"
proof -
  from assms obtain s rest where *: "parse_int64 s = Some (rq_old req)" "0 \<le> rq_old req"
    "parse_proof ex rest [] = Inr (rq_proof req, rq_note req)" "rq_note req \<noteq> []"
    by (auto simp: parseRequest_def split: option.splits sum.splits if_splits prod.splits)
  show "0 \<le> rq_old req" "rq_note req \<noteq> []" using * by simp_all
  show "rq_old req < 2 ^ 63" using parse_int64_range [OF *(1)] by simp
  show "length (rq_proof req) \<le> maxProofLines" using parse_proof_length [OF *(3)] by simp
qed

lemma AddCheckpoint_InrD:
  assumes "AddCheckpoint ex sops w body = (res, w')" "w' \<noteq> w \<or> (\<exists>r. res = Inr r)"
  obtains req tx cp sg where "w_signer w = Some sg" "\<not> w_Halted sops w" "parseRequest ex body = Inr req"
    "note_text (rq_note req) = Some tx" "ex_ParseCheckpoint ex tx = Some cp"
    "0 \<le> rq_old req" "rq_old req \<le> cp_N cp"
    "addToPool ex sops w req \<lparr>cd_cp = cp, cd_text = tx, cd_signer = sg, cd_epoch = w_epoch w\<rparr> = (res, w')"
  using assms parseRequest_InrD
  by (auto simp: AddCheckpoint_def split: option.splits sum.splits if_splits)

lemma AddCheckpoint_step:
  assumes "AddCheckpoint ex sops (ws_w S) body = (res, w')"
  shows "w' = ws_w S \<or> wstep ex sops S (S\<lparr>ws_w := w'\<rparr>)"
proof (cases "w' = ws_w S")
  case False
  with assms show ?thesis by (auto elim!: AddCheckpoint_InrD intro: wstep.submit note_text_SomeD)
qed simp

end
