(* ===== verification/Wire.thy ===== *)
theory Wire
  imports Witness_Theorems
begin

text \<open>
  The wire format and the HTTP surface: \<open>EncodeAddCheckpoint\<close> of \<^verbatim>\<open>internal/witness/wire.go\<close>, the
  client's half of the protocol that \<open>parseRequest\<close> reads, and the two handlers of
  \<^verbatim>\<open>internal/witness/http.go\<close> with the two patterns they are registered under, for request paths that are clean and
  contain no escapes.
\<close>

section \<open>EncodeAddCheckpoint\<close>

definition EncodeAddCheckpoint :: "external \<Rightarrow> int \<Rightarrow> bytes list \<Rightarrow> bytes \<Rightarrow> bytes" where
  "EncodeAddCheckpoint ex old prf cpNote =
     ''old '' @ format_int old @ [nl] @ concat (map (\<lambda>h. ex_HashString ex h @ [nl]) prf) @ [nl] @ cpNote"

text \<open>\<open>tlog.Hash.String\<close> prints a hash as one non-empty line that \<open>tlog.ParseHash\<close> reads back.\<close>

definition hash_codec_ok :: "external \<Rightarrow> bool" where
  "hash_codec_ok ex \<longleftrightarrow>
     (\<forall>h. length h = 32 \<longrightarrow> ex_ParseHash ex (ex_HashString ex h) = Some h
        \<and> ex_HashString ex h \<noteq> [] \<and> nl \<notin> set (ex_HashString ex h))"

lemma parse_proof_encoded:
  assumes "hash_codec_ok ex" "\<forall>h \<in> set hs. length h = 32" "length acc + length hs \<le> maxProofLines"
  shows "parse_proof ex (concat (map (\<lambda>h. ex_HashString ex h @ [nl]) hs) @ nl # cpNote) acc = Inr (acc @ hs, cpNote)"
  using assms(2,3)
proof (induction hs arbitrary: acc)
  case Nil
  then show ?case by (subst parse_proof.simps) simp
next
  case (Cons h hs)
  have h: "ex_ParseHash ex (ex_HashString ex h) = Some h" "ex_HashString ex h \<noteq> []" "nl \<notin> set (ex_HashString ex h)"
    using assms(1) Cons.prems(1) by (auto simp: hash_codec_ok_def)
  have "length acc \<noteq> maxProofLines" using Cons.prems(2) by simp
  then show ?case using h Cons.IH [of "acc @ [h]"] Cons.prems
    by (subst parse_proof.simps) (simp add: cut_at_append)
qed

lemma parseRequest_encoded:
  assumes "hash_codec_ok ex" "\<forall>h \<in> set prf. length h = 32" "length prf \<le> maxProofLines"
    "0 \<le> old" "old < 2 ^ 63" "cpNote \<noteq> []"
  shows "parseRequest ex (EncodeAddCheckpoint ex old prf cpNote) =
    Inr \<lparr>rq_old = old, rq_proof = prf, rq_note = cpNote\<rparr>"
proof -
  have "nl \<notin> set (''old '' @ format_int old)" using newline_notin_format_int by simp
  from cut_at_append [OF this] have
    "cut_at nl (EncodeAddCheckpoint ex old prf cpNote) = Some (''old '' @ format_int old,
       concat (map (\<lambda>h. ex_HashString ex h @ [nl]) prf) @ nl # cpNote)"
    by (simp add: EncodeAddCheckpoint_def)
  moreover have "cut_prefix ''old '' (''old '' @ format_int old) = Some (format_int old)"
    by (simp add: cut_prefix_def has_prefix_def)
  moreover have "parse_int64 (format_int old) = Some old" using assms(4,5) by (intro parse_int64_format_int) auto
  ultimately show ?thesis
    using assms parse_proof_encoded [OF assms(1,2), of "[]"] by (simp add: parseRequest_def)
qed

section \<open>HTTP handlers\<close>

record http_response =
  hr_code :: nat
  hr_content_type :: bytes
  hr_body :: bytes

definition text_plain :: bytes where "text_plain = ''text/plain; charset=utf-8''"

definition http_Error :: "bytes \<Rightarrow> nat \<Rightarrow> http_response" where
  "http_Error msg code = \<lparr>hr_code = code, hr_content_type = text_plain, hr_body = msg @ [nl]\<rparr>"

definition http_NotFound :: http_response where
  "http_NotFound = http_Error ''404 page not found'' StatusNotFound"

definition add_response :: "response \<Rightarrow> http_response" where
  "add_response res =
     (case res of (code, resp) \<Rightarrow>
        \<lparr>hr_code = code,
         hr_content_type = (if code = StatusConflict then ''text/x.tlog.size'' else text_plain),
         hr_body = resp\<rparr>)"

text \<open>\<open>POST /add-checkpoint\<close>; an admitted submission is answered by \<open>await_response\<close>.\<close>

definition post_add_checkpoint :: "external \<Rightarrow> ('s, 'e) store_ops \<Rightarrow> 's witness \<Rightarrow> bytes \<Rightarrow>
    (http_response + entry_ref) \<times> 's witness" where
  "post_add_checkpoint ex sops w body =
     (if MaxRequestSize < length body then (Inl (http_Error ''request too large'' StatusBadRequest), w)
      else case AddCheckpoint ex sops w body of
             (Inl res, w') \<Rightarrow> (Inl (add_response res), w')
           | (Inr r, w') \<Rightarrow> (Inr r, w'))"

definition await_response :: "'s witness \<Rightarrow> entry_ref \<Rightarrow> http_response option" where
  "await_response w r = map_option add_response (await_entry w r)"

definition is_lower_hex :: "byte \<Rightarrow> bool" where
  "is_lower_hex c \<longleftrightarrow> (let n = (of_char c :: nat) in 48 \<le> n \<and> n \<le> 57 \<or> 97 \<le> n \<and> n \<le> 102)"

definition originHashRE_match :: "bytes \<Rightarrow> bool" where
  "originHashRE_match s \<longleftrightarrow> length s = 64 \<and> list_all is_lower_hex s"

text \<open>\<open>GET /{originHash}/checkpoint\<close>.\<close>

definition get_checkpoint :: "external \<Rightarrow> ('s, 'e) store_ops \<Rightarrow> 's witness \<Rightarrow> bytes \<Rightarrow> http_response" where
  "get_checkpoint ex sops w originHash =
     (if \<not> originHashRE_match originHash then http_Error ''malformed origin hash'' StatusBadRequest
      else case Checkpoint ex sops w originHash of
             None \<Rightarrow> http_NotFound
           | Some n \<Rightarrow> \<lparr>hr_code = StatusOK, hr_content_type = text_plain, hr_body = n\<rparr>)"

text \<open>
  The router: a pattern with method \<open>GET\<close> also takes \<open>HEAD\<close>; a path that only a pattern with another method matches
  is answered 405, any other path 404.
\<close>

record http_request =
  hq_method :: bytes
  hq_path :: bytes
  hq_body :: bytes

abbreviation StatusMethodNotAllowed :: nat where "StatusMethodNotAllowed \<equiv> 405"

definition http_MethodNotAllowed :: http_response where
  "http_MethodNotAllowed = http_Error ''Method Not Allowed'' StatusMethodNotAllowed"

definition is_get :: "http_request \<Rightarrow> bool" where
  "is_get rq \<longleftrightarrow> hq_method rq = ''GET'' \<or> hq_method rq = ''HEAD''"

definition origin_path :: "bytes \<Rightarrow> bytes option" where
  "origin_path path =
     (case path of
        [] \<Rightarrow> None
      | c # p \<Rightarrow>
          if c \<noteq> CHR ''/'' then None
          else case cut_at (CHR ''/'') p of
                 None \<Rightarrow> None
               | Some (originHash, rest) \<Rightarrow> if originHash \<noteq> [] \<and> rest = ''checkpoint'' then Some originHash else None)"

definition Handler :: "external \<Rightarrow> ('s, 'e) store_ops \<Rightarrow> http_request \<Rightarrow> 's witness \<Rightarrow>
    (http_response + entry_ref) \<times> 's witness" where
  "Handler ex sops rq w =
     (if hq_path rq = ''/add-checkpoint'' then
        if hq_method rq = ''POST'' then post_add_checkpoint ex sops w (hq_body rq) else (Inl http_MethodNotAllowed, w)
      else case origin_path (hq_path rq) of
             None \<Rightarrow> (Inl http_NotFound, w)
           | Some originHash \<Rightarrow>
               if is_get rq then (Inl (get_checkpoint ex sops w originHash), w) else (Inl http_MethodNotAllowed, w))"

text \<open>A request that is answered at once changes nothing, and a \<open>POST\<close> is then refused.\<close>

lemma Handler_direct:
  assumes "Handler ex sops rq w = (Inl r, w')"
  shows "w' = w" and "hq_method rq = ''POST'' \<Longrightarrow> hr_code r \<noteq> StatusOK"
  using assms AddCheckpoint_direct [of ex sops w "hq_body rq"]
  by (fastforce simp: Handler_def post_add_checkpoint_def is_get_def http_Error_def http_NotFound_def http_MethodNotAllowed_def
      add_response_def split: if_splits option.splits prod.splits sum.splits)+

lemma hex_digit_lower: "d < 16 \<Longrightarrow> is_lower_hex (hex_digit d)"
  by (auto simp: is_lower_hex_def hex_digit_def Let_def)

lemma list_all_hex_encode: "list_all is_lower_hex (hex_encode bs)"
proof (induction bs)
  case (Cons b bs)
  have "(of_char b :: nat) div 16 < 16" by (simp add: less_mult_imp_div_less)
  with Cons show ?case by (simp add: hex_digit_lower Let_def)
qed simp

lemma hex_encode_matches: "length h = 32 \<Longrightarrow> originHashRE_match (hex_encode h)"
  by (simp add: originHashRE_match_def list_all_hex_encode)

lemma find_origin_SomeD:
  "find_origin cr oh m = Some n \<Longrightarrow> \<exists>origin st. (origin, st) \<in> set m \<and> hex_encode (cr_sha256 cr origin) = oh \<and> ls_Note st = n"
  by (induction cr oh m rule: find_origin.induct) (auto split: if_splits)

lemma find_origin_NoneD:
  "find_origin cr oh m = None \<Longrightarrow> (origin, st) \<in> set m \<Longrightarrow> hex_encode (cr_sha256 cr origin) \<noteq> oh"
  by (induction cr oh m rule: find_origin.induct) (auto split: if_splits)

end
