(* ===== verification/Exchange.thy ===== *)
theory Exchange
  imports Wire Witness_Theorems
begin

text \<open>
  A request and its answer as a client sees them: \<open>POST /add-checkpoint\<close> on an otherwise idle witness, the next
  pass of the sequencer, and the response the handler then writes. The lemmas give the response and the new
  state on every branch that the host tools exercise (accepted, conflict, refused proof); they hold for every
  store.
\<close>

text \<open>\<open>None\<close> would be a handler that is still waiting.\<close>

definition exchange :: "external \<Rightarrow> ('s, 'e) store_ops \<Rightarrow> 'e tick \<Rightarrow> 's witness \<Rightarrow> bytes \<Rightarrow>
    http_response option \<times> 's witness" where
  "exchange ex sops tk w body =
     (case post_add_checkpoint ex sops w body of
        (Inl res, w') \<Rightarrow> (Some res, w')
      | (Inr r, w') \<Rightarrow>
          let w'' = sequence ex sops (tk_env tk) (tk_now tk) (tk_commit tk) w'
          in (await_response w'' r, w''))"

definition idle :: "'s witness \<Rightarrow> bool" where
  "idle w \<longleftrightarrow> w_currentPool w = [] \<and> w_inSequencing w = []"

text \<open>A submission that is well formed: it fits, parses, and its note has a checkpoint.\<close>

definition submission :: "external \<Rightarrow> bytes \<Rightarrow> request \<Rightarrow> bytes \<Rightarrow> checkpoint \<Rightarrow> bool" where
  "submission ex body req txt cp \<longleftrightarrow>
     length body \<le> MaxRequestSize \<and> parseRequest ex body = Inr req \<and> note_text (rq_note req) = Some txt
     \<and> ex_ParseCheckpoint ex txt = Some cp \<and> rq_old req \<le> cp_N cp"

text \<open>A witness that takes submissions: it has a key, its store runs, and nothing is pending.\<close>

definition ready :: "('s, 'e) store_ops \<Rightarrow> signer_ref \<Rightarrow> 's witness \<Rightarrow> bool" where
  "ready sops sg w \<longleftrightarrow> w_signer w = Some sg \<and> \<not> w_Halted sops w \<and> idle w"

text \<open>What \<open>EncodeAddCheckpoint\<close> writes is a submission.\<close>

definition proof_ok :: "bytes list \<Rightarrow> bool" where
  "proof_ok prf \<longleftrightarrow> length prf \<le> maxProofLines \<and> (\<forall>h \<in> set prf. length h = 32)"

lemma proof_ok_Nil [simp]: "proof_ok []"
  by (simp add: proof_ok_def)

lemma encoded_submission:
  assumes "hash_codec_ok ex" "proof_ok prf" "0 \<le> old" "old \<le> cp_N cp" "cp_N cp < 2 ^ 63"
    "note_text cpNote = Some txt" "ex_ParseCheckpoint ex txt = Some cp"
    "length (EncodeAddCheckpoint ex old prf cpNote) \<le> MaxRequestSize"
  shows "submission ex (EncodeAddCheckpoint ex old prf cpNote) \<lparr>rq_old = old, rq_proof = prf, rq_note = cpNote\<rparr> txt cp"
proof -
  have "cpNote \<noteq> []" using assms(6) by (auto simp: note_text_def)
  then have "parseRequest ex (EncodeAddCheckpoint ex old prf cpNote) =
      Inr \<lparr>rq_old = old, rq_proof = prf, rq_note = cpNote\<rparr>"
    using assms(2-5) by (intro parseRequest_encoded [OF assms(1)]) (auto simp: proof_ok_def)
  with assms show ?thesis by (simp add: submission_def)
qed

lemma exchange_addToPool:
  assumes "ready sops sg w" "submission ex body req txt cp"
  shows "AddCheckpoint ex sops w body =
    (if rq_old req \<noteq> latest sops w (cp_Origin cp)
       then (Inl (StatusConflict, format_int (latest sops w (cp_Origin cp)) @ [nl]), w)
     else if \<not> consistency_check ex req cp (latest_hash sops w (cp_Origin cp))
       then (Inl (StatusUnprocessableEntity, []), w)
     else (Inr (length (w_heap w)),
       w\<lparr>w_heap := w_heap w @ [\<lparr>pe_candidate = \<lparr>cd_cp = cp, cd_text = txt, cd_signer = sg, cd_epoch = w_epoch w\<rparr>,
           pe_done = False, pe_code = 0, pe_resp = []\<rparr>],
         w_currentPool := [(cp_Origin cp, length (w_heap w))]\<rparr>))"
  using assms
  by (simp add: ready_def idle_def submission_def AddCheckpoint_def addToPool_def maxPoolSize_def Let_def)

lemma exchange_conflict:
  assumes "ready sops sg w" "submission ex body req txt cp" "rq_old req \<noteq> latest sops w (cp_Origin cp)"
  shows "exchange ex sops tk w body =
    (Some \<lparr>hr_code = StatusConflict, hr_content_type = ''text/x.tlog.size'',
       hr_body = format_int (latest sops w (cp_Origin cp)) @ [nl]\<rparr>, w)"
  using assms exchange_addToPool [OF assms(1,2)]
  by (simp add: exchange_def post_add_checkpoint_def submission_def add_response_def)

lemma exchange_refused:
  assumes "ready sops sg w" "submission ex body req txt cp" "rq_old req = latest sops w (cp_Origin cp)"
    "\<not> consistency_check ex req cp (latest_hash sops w (cp_Origin cp))"
  shows "exchange ex sops tk w body =
    (Some \<lparr>hr_code = StatusUnprocessableEntity, hr_content_type = text_plain, hr_body = []\<rparr>, w)"
  using assms exchange_addToPool [OF assms(1,2)]
  by (simp add: exchange_def post_add_checkpoint_def submission_def add_response_def)

text \<open>An accepted submission: the response carries the signature lines and the store has the cosigned note.\<close>

lemma exchange_accepted:
  assumes "ready sops sg w" "submission ex body req txt cp" "rq_old req = latest sops w (cp_Origin cp)"
    "consistency_check ex req cp (latest_hash sops w (cp_Origin cp))"
    "ex_Sign ex sg (tk_now tk (cp_Origin cp)) txt = Some snote"
    "st_PutBatch sops (tk_env tk) (w_store w)
       [(cp_Origin cp, \<lparr>ls_Size = cp_N cp, ls_Hash = cp_Hash cp, ls_Note = snote\<rparr>)] = (None, st')"
  shows "\<exists>w'. exchange ex sops tk w body =
      (Some \<lparr>hr_code = StatusOK, hr_content_type = text_plain, hr_body = drop (length txt + 1) snote\<rparr>, w')
    \<and> w_store w' = st' \<and> w_signer w' = Some sg \<and> idle w'"
proof -
  let ?c = "\<lparr>cd_cp = cp, cd_text = txt, cd_signer = sg, cd_epoch = w_epoch w\<rparr>"
  let ?e = "\<lparr>pe_candidate = ?c, pe_done = False, pe_code = 0, pe_resp = []\<rparr>"
  let ?w = "w\<lparr>w_heap := w_heap w @ [?e], w_currentPool := [(cp_Origin cp, length (w_heap w))]\<rparr>"
  have add: "AddCheckpoint ex sops w body = (Inr (length (w_heap w)), ?w)"
    using exchange_addToPool [OF assms(1,2)] assms(3,4) by simp
  have h: "w_signer w = Some sg" "\<not> w_Halted sops w" using assms(1) by (simp_all add: ready_def)
  have sign: "sign_entries ex sg (w_epoch w) (tk_now tk) [(cp_Origin cp, length (w_heap w))] (w_heap w @ [?e]) [] False =
      (w_heap w @ [?e\<lparr>pe_code := StatusOK, pe_resp := drop (length txt + 1) snote\<rparr>],
       [(cp_Origin cp, \<lparr>ls_Size = cp_N cp, ls_Hash = cp_Hash cp, ls_Note = snote\<rparr>)], False)"
    using assms(5) by (simp add: sign_entries_Cons entry_result_def signed_state_def key_current_def set_result_def
        Let_def list_update_append)
  have "\<not> w_Halted sops (seq_begin ?w)" using h(2) by (simp add: w_Halted_def seq_begin_def)
  then have seq: "sequence ex sops (tk_env tk) (tk_now tk) (tk_commit tk) ?w =
      seq_end [(cp_Origin cp, length (w_heap w))]
        ((seq_begin ?w)\<lparr>w_heap := w_heap w @ [?e\<lparr>pe_code := StatusOK, pe_resp := drop (length txt + 1) snote\<rparr>],
           w_store := st', w_batchesCommitted := w_batchesCommitted w + 1, w_lastCommit := tk_commit tk\<rparr>)"
    using h(1) sign assms(6) by (simp add: sequence_def sequencePool_def seq_begin_def Let_def)
  show ?thesis
    using add assms(2) h(1)
    by (simp add: exchange_def post_add_checkpoint_def submission_def seq seq_begin_def seq_end_def await_response_def
        await_entry_def add_response_def idle_def newPool_def Let_def nth_append)
qed

section \<open>Over the in-memory store\<close>

lemma mem_latest:
  "latest mem_store_ops w origin = (case map_of (w_store w) origin of None \<Rightarrow> 0 | Some st \<Rightarrow> ls_Size st)"
  "latest_hash mem_store_ops w origin = (case map_of (w_store w) origin of None \<Rightarrow> make_bytes 32 | Some st \<Rightarrow> ls_Hash st)"
  by (simp_all add: latest_def latest_hash_def mem_store_ops_def ms_Get_def split: option.split)

lemma mem_never_halted [simp]: "\<not> w_Halted mem_store_ops w"
  by (simp add: w_Halted_def mem_store_ops_def)

lemma mem_accepted:
  assumes "ready mem_store_ops sg w" "submission ex body req txt cp"
    "rq_old req = latest mem_store_ops w (cp_Origin cp)"
    "consistency_check ex req cp (latest_hash mem_store_ops w (cp_Origin cp))"
    "ex_Sign ex sg (tk_now tk (cp_Origin cp)) txt = Some snote"
  shows "\<exists>w'. exchange ex mem_store_ops tk w body =
      (Some \<lparr>hr_code = StatusOK, hr_content_type = text_plain, hr_body = drop (length txt + 1) snote\<rparr>, w')
    \<and> ready mem_store_ops sg w'
    \<and> map_of (w_store w') = (map_of (w_store w))
        (cp_Origin cp \<mapsto> \<lparr>ls_Size = cp_N cp, ls_Hash = cp_Hash cp, ls_Note = snote\<rparr>)"
proof -
  let ?ups = "[(cp_Origin cp, \<lparr>ls_Size = cp_N cp, ls_Hash = cp_Hash cp, ls_Note = snote\<rparr>)]"
  have "st_PutBatch mem_store_ops (tk_env tk) (w_store w) ?ups = (None, ms_PutBatch (w_store w) ?ups)"
    by (simp add: mem_store_ops_def)
  from exchange_accepted [OF assms this] obtain w' where
    "exchange ex mem_store_ops tk w body =
      (Some \<lparr>hr_code = StatusOK, hr_content_type = text_plain, hr_body = drop (length txt + 1) snote\<rparr>, w')"
    "w_store w' = ms_PutBatch (w_store w) ?ups" "w_signer w' = Some sg" "idle w'" by blast
  then show ?thesis by (auto simp: ready_def ms_PutBatch_def gomap_simps)
qed

text \<open>The size and root hash that the in-memory store has for a log.\<close>

definition known_tree :: "log_states witness \<Rightarrow> bytes \<Rightarrow> int \<Rightarrow> bytes \<Rightarrow> bool" where
  "known_tree w origin n h \<longleftrightarrow> (\<exists>st. map_of (w_store w) origin = Some st \<and> ls_Size st = n \<and> ls_Hash st = h)"

lemma known_latest:
  "known_tree w origin n h \<Longrightarrow> latest mem_store_ops w origin = n \<and> latest_hash mem_store_ops w origin = h"
  by (auto simp: known_tree_def mem_latest)

end
