(* ===== verification/Go_Spaces.thy ===== *)
theory Go_Spaces
  imports Go_Strings
begin

text \<open>
  \<open>strings.TrimSpace\<close>, \<open>bytes.TrimSpace\<close> and \<open>strings.Fields\<close> on UTF-8 bytes, as the provisioning server and the
  host tools use them, and that they leave a word alone: valid UTF-8 without white space.
\<close>

section \<open>White space\<close>

text \<open>The UTF-8 encodings of the characters that \<open>unicode.IsSpace\<close> accepts.\<close>

definition space_encodings :: "bytes list" where
  "space_encodings =
     [[CHR 0x09], [CHR 0x0A], [CHR 0x0B], [CHR 0x0C], [CHR 0x0D], [CHR 0x20],
      [CHR 0xC2, CHR 0x85], [CHR 0xC2, CHR 0xA0], [CHR 0xE1, CHR 0x9A, CHR 0x80],
      [CHR 0xE2, CHR 0x80, CHR 0x80], [CHR 0xE2, CHR 0x80, CHR 0x81], [CHR 0xE2, CHR 0x80, CHR 0x82],
      [CHR 0xE2, CHR 0x80, CHR 0x83], [CHR 0xE2, CHR 0x80, CHR 0x84], [CHR 0xE2, CHR 0x80, CHR 0x85],
      [CHR 0xE2, CHR 0x80, CHR 0x86], [CHR 0xE2, CHR 0x80, CHR 0x87], [CHR 0xE2, CHR 0x80, CHR 0x88],
      [CHR 0xE2, CHR 0x80, CHR 0x89], [CHR 0xE2, CHR 0x80, CHR 0x8A], [CHR 0xE2, CHR 0x80, CHR 0xA8],
      [CHR 0xE2, CHR 0x80, CHR 0xA9], [CHR 0xE2, CHR 0x80, CHR 0xAF],
      [CHR 0xE2, CHR 0x81, CHR 0x9F], [CHR 0xE3, CHR 0x80, CHR 0x80]]"

text \<open>
  The rest after one white-space character at the front. A lead byte never occurs inside another
  encoding, so scanning bytes and scanning runes find the same characters.
\<close>

definition strip_space :: "bytes \<Rightarrow> bytes option" where
  "strip_space s = (case find (\<lambda>e. has_prefix e s) space_encodings of
     None \<Rightarrow> None | Some e \<Rightarrow> Some (drop (length e) s))"

lemma space_encodings_not_Nil: "e \<in> set space_encodings \<Longrightarrow> e \<noteq> []"
  by (auto simp: space_encodings_def)

lemma find_space: "find P space_encodings = Some e \<Longrightarrow> P e \<and> e \<noteq> []"
  using space_encodings_not_Nil by (metis find_Some_iff nth_mem)

lemma strip_space_shorter: "strip_space s = Some t \<Longrightarrow> length t < length s"
  by (auto simp: strip_space_def has_prefix_iff split: option.splits dest!: find_space)

function trim_left :: "bytes \<Rightarrow> bytes" where
  "trim_left s = (case strip_space s of None \<Rightarrow> s | Some t \<Rightarrow> trim_left t)"
  by pat_completeness auto
termination
  by (relation "measure length") (auto dest: strip_space_shorter)

declare trim_left.simps [simp del]

text \<open>The same at the end: a suffix that is the encoding of a space.\<close>

definition strip_space_end :: "bytes \<Rightarrow> bytes option" where
  "strip_space_end s = (case find (\<lambda>e. has_prefix (rev e) (rev s)) space_encodings of
     None \<Rightarrow> None | Some e \<Rightarrow> Some (take (length s - length e) s))"

lemma strip_space_end_shorter: "strip_space_end s = Some t \<Longrightarrow> length t < length s"
  by (auto simp: strip_space_end_def has_prefix_iff split: option.splits dest!: find_space
      arg_cong [where f = length])

function trim_right :: "bytes \<Rightarrow> bytes" where
  "trim_right s = (case strip_space_end s of None \<Rightarrow> s | Some t \<Rightarrow> trim_right t)"
  by pat_completeness auto
termination
  by (relation "measure length") (auto dest: strip_space_end_shorter)

declare trim_right.simps [simp del]

definition TrimSpace :: "bytes \<Rightarrow> bytes" where
  "TrimSpace s = trim_right (trim_left s)"

text \<open>\<open>strings.Fields\<close>.\<close>

function fields_from :: "bytes \<Rightarrow> bytes \<Rightarrow> bytes list" where
  "fields_from s cur =
     (case strip_space s of
        Some t \<Rightarrow> (if cur = [] then fields_from t [] else cur # fields_from t [])
      | None \<Rightarrow>
          (case s of [] \<Rightarrow> (if cur = [] then [] else [cur])
           | c # cs \<Rightarrow> fields_from cs (cur @ [c])))"
  by pat_completeness auto
termination
  by (relation "measure (\<lambda>(s, cur). length s)") (auto dest: strip_space_shorter)

declare fields_from.simps [simp del]

definition Fields :: "bytes \<Rightarrow> bytes list" where
  "Fields s = fields_from s []"

section \<open>Words\<close>

text \<open>The UTF-8 encoding of one character, and of a byte that is not the first of its encoding.\<close>

definition continuation :: "byte \<Rightarrow> bool" where
  "continuation c \<longleftrightarrow> (let n = (of_char c :: nat) in 0x80 \<le> n \<and> n < 0xC0)"

definition rune_len :: "byte \<Rightarrow> nat" where
  "rune_len c = (let n = (of_char c :: nat) in if n < 0x80 then 1 else if n < 0xE0 then 2 else if n < 0xF0 then 3 else 4)"

definition rune :: "bytes \<Rightarrow> bool" where
  "rune r \<longleftrightarrow>
     (case r of [] \<Rightarrow> False
      | c # cs \<Rightarrow>
          let n = (of_char c :: nat); m = (case cs of [] \<Rightarrow> 0 | d # _ \<Rightarrow> (of_char d :: nat))
          in length r = rune_len c \<and> list_all continuation cs \<and> (n < 0x80 \<or> 0xC2 \<le> n) \<and> n \<le> 0xF4
             \<and> (n = 0xE0 \<longrightarrow> 0xA0 \<le> m) \<and> (n = 0xED \<longrightarrow> m < 0xA0) \<and> (n = 0xF0 \<longrightarrow> 0x90 \<le> m) \<and> (n = 0xF4 \<longrightarrow> m < 0x90))"

lemma rune_len_pos [simp]: "0 < rune_len c"
  by (simp add: rune_len_def Let_def)

lemma rune_lead: "rune r \<Longrightarrow> \<exists>c cs. r = c # cs \<and> \<not> continuation c \<and> list_all continuation cs \<and> Suc (length cs) = rune_len c"
  by (cases r) (auto simp: rune_def continuation_def Let_def)

text \<open>No encoding is a proper prefix or suffix of another.\<close>

lemma rune_prefix:
  assumes "rune a" "rune b" "a @ s = b @ t"
  shows "a = b"
proof -
  obtain c cs d ds where a: "a = c # cs" "Suc (length cs) = rune_len c" and b: "b = d # ds" "Suc (length ds) = rune_len d"
    using assms(1,2) rune_lead by metis
  with assms(3) show ?thesis by (metis append_eq_append_conv append_Cons list.inject nat.inject)
qed

lemma rune_not_suffix:
  assumes "rune a" "rune b" "u @ a = b"
  shows "a = b"
proof -
  obtain c cs where a: "a = c # cs" "\<not> continuation c" using assms(1) rune_lead by blast
  obtain d ds where b: "b = d # ds" "list_all continuation ds" using assms(2) rune_lead by blast
  show ?thesis using assms(3) a b by (cases u) auto
qed

lemma rune_suffix:
  assumes "rune a" "rune b" "s @ a = t @ b"
  shows "a = b"
  using assms(3) rune_not_suffix [OF assms(1,2)] rune_not_suffix [OF assms(2,1)]
  by (auto simp: append_eq_append_conv2)

lemma rune_space: "e \<in> set space_encodings \<Longrightarrow> rune e"
  by (auto simp: space_encodings_def rune_def rune_len_def continuation_def)

text \<open>Valid UTF-8 without white space: \<open>utf8.ValidString\<close> and no \<open>unicode.IsSpace\<close>.\<close>

function word_text :: "bytes \<Rightarrow> bool" where
  "word_text s =
     (if s = [] then True
      else rune (take (rune_len (hd s)) s) \<and> take (rune_len (hd s)) s \<notin> set space_encodings
        \<and> word_text (drop (rune_len (hd s)) s))"
  by pat_completeness auto
termination
  by (relation "measure length") auto

declare word_text.simps [simp del]

lemma word_text_Nil [simp]: "word_text []"
  by (simp add: word_text.simps)

lemma take_rune: "rune r \<Longrightarrow> take (rune_len (hd (r @ s))) (r @ s) = r \<and> drop (rune_len (hd (r @ s))) (r @ s) = s"
  by (drule rune_lead) (auto simp flip: length_Cons)

lemma word_text_rune: "rune r \<Longrightarrow> r \<notin> set space_encodings \<Longrightarrow> word_text (r @ s) = word_text s"
  using take_rune [of r s] by (subst word_text.simps) (auto dest: rune_lead)

lemma word_text_induct [consumes 1, case_names Nil Rune]:
  assumes "word_text s" "P []"
    "\<And>r s. rune r \<Longrightarrow> r \<notin> set space_encodings \<Longrightarrow> word_text s \<Longrightarrow> P s \<Longrightarrow> P (r @ s)"
  shows "P s"
  using assms(1)
proof (induction s rule: word_text.induct)
  case (1 s)
  show ?case
  proof (cases "s = []")
    case False
    let ?k = "rune_len (hd s)"
    have w: "rune (take ?k s)" "take ?k s \<notin> set space_encodings" "word_text (drop ?k s)"
      using 1(2) False by (simp_all add: word_text.simps [of s])
    have "P (take ?k s @ drop ?k s)"
      using w 1(1) [OF False w(3)] by (intro assms(3)) auto
    then show ?thesis by simp
  qed (simp add: assms(2))
qed

lemma word_text_append: "word_text a \<Longrightarrow> word_text b \<Longrightarrow> word_text (a @ b)"
  by (induction a rule: word_text_induct) (simp_all add: word_text_rune)

text \<open>Scanning a word finds no white space.\<close>

lemma strip_space_rune:
  assumes "rune r" "r \<notin> set space_encodings"
  shows "strip_space (r @ s) = None"
proof -
  have "\<not> has_prefix e (r @ s)" if "e \<in> set space_encodings" for e
    using rune_prefix [OF assms(1) rune_space [OF that]] assms(2) that by (auto simp: has_prefix_iff)
  then have "find (\<lambda>e. has_prefix e (r @ s)) space_encodings = None" unfolding find_None_iff by blast
  then show ?thesis by (simp add: strip_space_def)
qed

lemma strip_space_continuation: "continuation c \<Longrightarrow> strip_space (c # s) = None"
proof -
  assume c: "continuation c"
  have "\<not> has_prefix e (c # s)" if "e \<in> set space_encodings" for e
    using rune_lead [OF rune_space [OF that]] c by (auto simp: has_prefix_iff)
  then have "find (\<lambda>e. has_prefix e (c # s)) space_encodings = None" unfolding find_None_iff by blast
  then show ?thesis by (simp add: strip_space_def)
qed

lemma strip_space_Nil [simp]: "strip_space [] = None"
  using space_encodings_not_Nil by (auto simp: strip_space_def has_prefix_iff find_None_iff split: option.split)

lemma strip_space_blank [simp]: "strip_space (CHR 0x20 # s) = Some s"
  by (simp add: strip_space_def space_encodings_def has_prefix_def)

lemma strip_space_end_rune:
  assumes "rune r" "r \<notin> set space_encodings"
  shows "strip_space_end (s @ r) = None"
proof -
  have "\<not> has_prefix (rev e) (rev (s @ r))" if "e \<in> set space_encodings" for e
  proof
    assume "has_prefix (rev e) (rev (s @ r))"
    then obtain t where "rev (s @ r) = rev e @ t" by (auto simp: has_prefix_iff)
    then have "s @ r = rev t @ e" by (metis rev_append rev_rev_ident)
    from rune_suffix [OF assms(1) rune_space [OF that] this] assms(2) that show False by simp
  qed
  then have "find (\<lambda>e. has_prefix (rev e) (rev (s @ r))) space_encodings = None" unfolding find_None_iff by blast
  then show ?thesis by (simp add: strip_space_end_def)
qed

lemma strip_space_end_newline: "strip_space_end (s @ [CHR 0x0A]) = Some s"
  by (simp add: strip_space_end_def space_encodings_def has_prefix_def)

lemma word_text_last:
  assumes "word_text s" "s \<noteq> []"
  shows "\<exists>t r. s = t @ r \<and> rune r \<and> r \<notin> set space_encodings"
  using assms
proof (induction rule: word_text_induct)
  case (Rune r s)
  then show ?case by (cases "s = []") (auto intro: exI [of _ "[]"] exI [of _ "r @ _"] simp flip: append_assoc)
qed simp

lemma trim_left_word:
  assumes "word_text s" "s \<noteq> []"
  shows "trim_left (s @ t) = s @ t"
proof -
  have "strip_space (s @ t) = None" using assms
    by (induction rule: word_text_induct) (simp_all add: strip_space_rune)
  then show ?thesis by (subst trim_left.simps) simp
qed

lemma trim_right_word: "word_text s \<Longrightarrow> s \<noteq> [] \<Longrightarrow> trim_right s = s"
  using word_text_last [of s] by (auto simp: trim_right.simps strip_space_end_rune)

lemma TrimSpace_word:
  assumes "word_text s" "s \<noteq> []"
  shows "TrimSpace (s @ [CHR 0x0A]) = s" "TrimSpace s = s"
  using trim_left_word [OF assms] trim_left_word [OF assms, of "[]"] trim_right_word [OF assms]
  by (simp_all add: TrimSpace_def trim_right.simps [of "s @ _"] strip_space_end_newline)

lemma fields_from_continuation: "list_all continuation cs \<Longrightarrow> fields_from (cs @ s) cur = fields_from s (cur @ cs)"
proof (induction cs arbitrary: cur)
  case (Cons c cs)
  then have "fields_from ((c # cs) @ s) cur = fields_from (cs @ s) (cur @ [c])"
    by (subst fields_from.simps) (simp add: strip_space_continuation)
  with Cons show ?case by simp
qed simp

lemma fields_from_word: "word_text a \<Longrightarrow> fields_from (a @ s) cur = fields_from s (cur @ a)"
proof (induction a arbitrary: cur rule: word_text_induct)
  case (Rune r a)
  obtain c cs where r: "r = c # cs" "list_all continuation cs" using rune_lead [OF Rune(1)] by blast
  have "fields_from (r @ a @ s) cur = fields_from (cs @ a @ s) (cur @ [c])"
    using strip_space_rune [OF Rune(1,2), of "a @ s"] r(1) by (subst fields_from.simps) simp
  then show ?case using Rune(4) fields_from_continuation [OF r(2), of "a @ s" "cur @ [c]"] r(1) by simp
qed simp

lemma fields_from_Nil [simp]: "fields_from [] cur = (if cur = [] then [] else [cur])"
  by (subst fields_from.simps) simp

lemma fields_from_blank: "cur \<noteq> [] \<Longrightarrow> fields_from (CHR 0x20 # s) cur = cur # fields_from s []"
  by (subst fields_from.simps) simp

text \<open>A command word and one argument.\<close>

lemma Fields_two:
  assumes "word_text a" "a \<noteq> []" "word_text b" "b \<noteq> []"
  shows "Fields (a @ CHR 0x20 # b) = [a, b]"
  using assms fields_from_word [OF assms(1), of "CHR 0x20 # b" "[]"] fields_from_word [OF assms(3), of "[]" "[]"]
  by (simp add: Fields_def fields_from_blank)

lemma Fields_one: "word_text a \<Longrightarrow> a \<noteq> [] \<Longrightarrow> Fields a = [a]"
  using fields_from_word [of a "[]" "[]"] by (simp add: Fields_def)

text \<open>A word has no ASCII white space, in particular no newline.\<close>

lemma rune_ascii: "rune r \<Longrightarrow> c \<in> set r \<Longrightarrow> (of_char c :: nat) < 0x80 \<Longrightarrow> r = [c]"
  by (auto simp: rune_def rune_len_def continuation_def list_all_iff Let_def split: list.splits if_splits)

lemma word_text_newline: "word_text s \<Longrightarrow> CHR 0x0A \<notin> set s"
proof (induction rule: word_text_induct)
  case (Rune r s)
  then show ?case using rune_ascii [OF Rune(1), of "CHR 0x0A"] by (auto simp: space_encodings_def)
qed simp

text \<open>The names that \<open>note\<close> and \<open>torchwood\<close> accept for a key.\<close>

definition valid_key_name :: "bytes \<Rightarrow> bool" where
  "valid_key_name n \<longleftrightarrow> n \<noteq> [] \<and> word_text n \<and> CHR ''+'' \<notin> set n"

section \<open>Printable text\<close>

text \<open>Printable ASCII without the space.\<close>

definition graphic :: "byte \<Rightarrow> bool" where
  "graphic c \<longleftrightarrow> (let n = (of_char c :: nat) in 33 \<le> n \<and> n \<le> 126)"

lemma graphic_rune: "graphic c \<Longrightarrow> rune [c] \<and> [c] \<notin> set space_encodings"
  by (auto simp: graphic_def rune_def rune_len_def space_encodings_def Let_def)

lemma word_text_graphic: "list_all graphic s \<Longrightarrow> word_text s"
  using word_text_rune [of "[_]"] graphic_rune by (induction s) fastforce+

section \<open>Numbers and hex strings are printable\<close>

lemma graphic_digit: "is_digit c \<Longrightarrow> graphic c"
  by (auto simp: is_digit_def graphic_def Let_def)

lemma list_all_graphic_format_nat: "list_all graphic (format_nat n)"
  using format_nat_digits graphic_digit by (auto simp: list_all_iff)

lemma list_all_graphic_format_int: "list_all graphic (format_int n)"
  using list_all_graphic_format_nat by (simp add: format_int_def graphic_def)

lemma format_int_not_Nil [simp]: "format_int n \<noteq> []"
  by (simp add: format_int_def)

lemma graphic_hex_digit: "d < 16 \<Longrightarrow> graphic (hex_digit d)"
  by (auto simp: hex_digit_def graphic_def Let_def)

lemma list_all_graphic_hex_encode: "list_all graphic (hex_encode bs)"
proof (induction bs)
  case (Cons b bs)
  have "(of_char b :: nat) div 16 < 16" by (simp add: less_mult_imp_div_less)
  with Cons show ?case by (simp add: graphic_hex_digit Let_def)
qed simp

lemma TrimSpace_graphic:
  assumes "list_all graphic s" "s \<noteq> []"
  shows "TrimSpace (s @ [CHR 0x0A]) = s" "TrimSpace s = s"
  using TrimSpace_word [OF word_text_graphic] assms by simp_all

end
