(* ===== verification/Host_IO.thy ===== *)
theory Host_IO
  imports Exchange Go_Spaces
begin

text \<open>
  The world of the host tools under \<^verbatim>\<open>cmd/vitrum\<close>. A command is a function from the state of the world to a
  result and a new state; \<open>log.Fatal\<close> is the left injection, so every exit of a command is a value. What the
  tools use of packages outside the repository (\<open>note\<close>, \<open>torchwood\<close>, the tile fetcher, the SSH library) is a
  record of functions; the file system of the \<open>os\<close> package is a finite map with a schedule of faults.
\<close>

section \<open>Commands\<close>

type_synonym ('n, 'e, 'a) io = "'n \<Rightarrow> ('e + 'a) \<times> 'n"

definition io_return :: "'a \<Rightarrow> ('n, 'e, 'a) io" where
  "io_return x = (\<lambda>n. (Inr x, n))"

definition io_fail :: "'e \<Rightarrow> ('n, 'e, 'a) io" where
  "io_fail e = (\<lambda>n. (Inl e, n))"

definition io_of :: "'e + 'a \<Rightarrow> ('n, 'e, 'a) io" where
  "io_of r = (\<lambda>n. (r, n))"

definition io_bind :: "('n, 'e, 'a) io \<Rightarrow> ('a \<Rightarrow> ('n, 'e, 'b) io) \<Rightarrow> ('n, 'e, 'b) io" where
  "io_bind m f = (\<lambda>n. case m n of (Inl e, n') \<Rightarrow> (Inl e, n') | (Inr x, n') \<Rightarrow> f x n')"

text \<open>A call whose only failure is reported as the given error.\<close>

definition io_call :: "'e \<Rightarrow> ('n \<Rightarrow> 'a option \<times> 'n) \<Rightarrow> ('n, 'e, 'a) io" where
  "io_call e f = (\<lambda>n. case f n of (None, n') \<Rightarrow> (Inl e, n') | (Some x, n') \<Rightarrow> (Inr x, n'))"

definition io_map_error :: "('e \<Rightarrow> 'f) \<Rightarrow> ('n, 'e, 'a) io \<Rightarrow> ('n, 'f, 'a) io" where
  "io_map_error g m = (\<lambda>n. case m n of (Inl e, n') \<Rightarrow> (Inl (g e), n') | (Inr x, n') \<Rightarrow> (Inr x, n'))"

named_theorems io_simps \<open>running commands\<close>

lemma io_return_run [simp, io_simps]: "io_return x n = (Inr x, n)"
  by (simp add: io_return_def)

lemma io_fail_run [simp, io_simps]: "io_fail e n = (Inl e, n)"
  by (simp add: io_fail_def)

lemma io_of_run [simp, io_simps]: "io_of r n = (r, n)"
  by (simp add: io_of_def)

lemma io_bind_run: "m n = (Inr x, n') \<Longrightarrow> io_bind m f n = f x n'"
  by (simp add: io_bind_def)

lemma io_bind_Inr [io_simps]:
  "io_bind m f n = (Inr y, n') \<longleftrightarrow> (\<exists>x n1. m n = (Inr x, n1) \<and> f x n1 = (Inr y, n'))"
  by (auto simp: io_bind_def split: prod.splits sum.splits)

lemma io_bind_Inl:
  "io_bind m f n = (Inl e, n') \<longleftrightarrow> m n = (Inl e, n') \<or> (\<exists>x n1. m n = (Inr x, n1) \<and> f x n1 = (Inl e, n'))"
  by (auto simp: io_bind_def split: prod.splits sum.splits)

lemma io_call_Inr [io_simps]: "io_call e f n = (Inr x, n') \<longleftrightarrow> f n = (Some x, n')"
  by (auto simp: io_call_def split: prod.splits option.splits)

lemma io_map_error_Inr [io_simps]: "io_map_error g m n = (Inr x, n') \<longleftrightarrow> m n = (Inr x, n')"
  by (auto simp: io_map_error_def split: prod.splits sum.splits)

lemma io_map_error_Inl: "io_map_error g m n = (Inl e, n') \<longleftrightarrow> (\<exists>e'. m n = (Inl e', n') \<and> e = g e')"
  by (auto simp: io_map_error_def split: prod.splits sum.splits)

lemma io_fail_not_Inr [simp, io_simps]: "io_fail e n = (Inr x, n') \<longleftrightarrow> False"
  by simp

text \<open>
  \<open>io_keeps P m Q\<close>: running \<open>m\<close> keeps \<open>P\<close>, whether it succeeds or fails, and a value it returns satisfies \<open>Q\<close>.
\<close>

definition io_keeps :: "('n \<Rightarrow> bool) \<Rightarrow> ('n, 'e, 'a) io \<Rightarrow> ('a \<Rightarrow> bool) \<Rightarrow> bool" where
  "io_keeps P m Q \<longleftrightarrow> (\<forall>n r n'. P n \<longrightarrow> m n = (r, n') \<longrightarrow> P n' \<and> (\<forall>x. r = Inr x \<longrightarrow> Q x))"

named_theorems io_keeps_intros \<open>invariants of commands\<close>

lemma io_keepsI: "(\<And>n r n'. P n \<Longrightarrow> m n = (r, n') \<Longrightarrow> P n' \<and> (\<forall>x. r = Inr x \<longrightarrow> Q x)) \<Longrightarrow> io_keeps P m Q"
  by (simp add: io_keeps_def)

lemma io_keepsD: "io_keeps P m Q \<Longrightarrow> P n \<Longrightarrow> m n = (r, n') \<Longrightarrow> P n'"
  by (simp add: io_keeps_def)

lemma io_keeps_bind [io_keeps_intros]:
  assumes "io_keeps P m Q" "\<And>x. Q x \<Longrightarrow> io_keeps P (f x) R"
  shows "io_keeps P (io_bind m f) R"
proof (rule io_keepsI)
  fix n r n' assume n: "P n" "io_bind m f n = (r, n')"
  obtain r1 n1 where m: "m n = (r1, n1)" by fastforce
  then have "P n1" "\<And>x. r1 = Inr x \<Longrightarrow> Q x" using assms(1) n(1) by (auto simp: io_keeps_def)
  with n(2) m assms(2) show "P n' \<and> (\<forall>x. r = Inr x \<longrightarrow> R x)"
    by (cases r1) (auto simp: io_bind_def io_keeps_def)
qed

lemma io_keeps_return [io_keeps_intros]: "Q x \<Longrightarrow> io_keeps P (io_return x) Q"
  by (simp add: io_keeps_def)

lemma io_keeps_fail [io_keeps_intros]: "io_keeps P (io_fail e) Q"
  by (simp add: io_keeps_def)

lemma io_keeps_map_error [io_keeps_intros]: "io_keeps P m Q \<Longrightarrow> io_keeps P (io_map_error g m) Q"
  by (simp add: io_keeps_def io_map_error_def split: prod.splits sum.splits)

lemma io_keeps_if [io_keeps_intros]: "(b \<Longrightarrow> io_keeps P m Q) \<Longrightarrow> (\<not> b \<Longrightarrow> io_keeps P m' Q) \<Longrightarrow> io_keeps P (if b then m else m') Q"
  by simp

section \<open>Files\<close>

text \<open>
  Each operation takes the next fault of the schedule: none, a failure that changed nothing, or a failure
  that left the given bytes in the file. An empty schedule is a machine without faults.
\<close>

datatype fault = NoFault | FaultClean | FaultPartial bytes

record file_system =
  fs_files :: "(bytes, bytes) gomap"
  fs_faults :: "fault list"

datatype read_error = NotExist | ReadFault

definition next_fault :: "file_system \<Rightarrow> fault \<times> file_system" where
  "next_fault fs = (case fs_faults fs of [] \<Rightarrow> (NoFault, fs) | f # rest \<Rightarrow> (f, fs\<lparr>fs_faults := rest\<rparr>))"

definition os_ReadFile :: "bytes \<Rightarrow> (file_system, read_error, bytes) io" where
  "os_ReadFile path fs =
     (case next_fault fs of (f, fs') \<Rightarrow>
        if f \<noteq> NoFault then (Inl ReadFault, fs')
        else case map_of (fs_files fs') path of None \<Rightarrow> (Inl NotExist, fs') | Some data \<Rightarrow> (Inr data, fs'))"

definition os_Stat :: "bytes \<Rightarrow> file_system \<Rightarrow> bool \<times> file_system" where
  "os_Stat path fs =
     (case next_fault fs of (f, fs') \<Rightarrow> (f = NoFault \<and> map_of (fs_files fs') path \<noteq> None, fs'))"

text \<open>Directories are not part of the state: making one succeeds or fails.\<close>

definition os_MkdirAll :: "bytes \<Rightarrow> file_system \<Rightarrow> bool \<times> file_system" where
  "os_MkdirAll dir fs = (case next_fault fs of (f, fs') \<Rightarrow> (f = NoFault, fs'))"

text \<open>\<open>os.WriteFile\<close> replaces the content; a fault during the write leaves some bytes behind.\<close>

definition os_WriteFile :: "bytes \<Rightarrow> bytes \<Rightarrow> file_system \<Rightarrow> bool \<times> file_system" where
  "os_WriteFile path data fs =
     (case next_fault fs of
        (NoFault, fs') \<Rightarrow> (True, fs'\<lparr>fs_files := AList.update path data (fs_files fs')\<rparr>)
      | (FaultClean, fs') \<Rightarrow> (False, fs')
      | (FaultPartial left_over, fs') \<Rightarrow> (False, fs'\<lparr>fs_files := AList.update path left_over (fs_files fs')\<rparr>))"

text \<open>\<open>os.OpenFile\<close> with \<open>O_CREATE|O_EXCL\<close>: refused when the file exists.\<close>

definition os_OpenExcl :: "bytes \<Rightarrow> file_system \<Rightarrow> bool \<times> file_system" where
  "os_OpenExcl path fs =
     (case next_fault fs of (f, fs') \<Rightarrow>
        if f \<noteq> NoFault \<or> map_of (fs_files fs') path \<noteq> None then (False, fs')
        else (True, fs'\<lparr>fs_files := AList.update path [] (fs_files fs')\<rparr>))"

text \<open>A write through a descriptor at the end of the file.\<close>

definition os_Write :: "bytes \<Rightarrow> bytes \<Rightarrow> file_system \<Rightarrow> bool \<times> file_system" where
  "os_Write path data fs =
     (case next_fault fs of (f, fs') \<Rightarrow>
        let old = (case map_of (fs_files fs') path of None \<Rightarrow> [] | Some d \<Rightarrow> d);
            put = (\<lambda>d. fs'\<lparr>fs_files := AList.update path (old @ d) (fs_files fs')\<rparr>)
        in case f of
             NoFault \<Rightarrow> (True, put data)
           | FaultClean \<Rightarrow> (False, fs')
           | FaultPartial written \<Rightarrow> (False, put written))"

definition os_Close :: "file_system \<Rightarrow> bool \<times> file_system" where
  "os_Close fs = (case next_fault fs of (f, fs') \<Rightarrow> (f = NoFault, fs'))"

definition os_Remove :: "bytes \<Rightarrow> file_system \<Rightarrow> bool \<times> file_system" where
  "os_Remove path fs =
     (case next_fault fs of (f, fs') \<Rightarrow>
        if f \<noteq> NoFault \<or> map_of (fs_files fs') path = None then (False, fs')
        else (True, fs'\<lparr>fs_files := AList.delete path (fs_files fs')\<rparr>))"

lemma next_fault_files [simp]: "next_fault fs = (f, fs') \<Longrightarrow> fs_files fs' = fs_files fs"
  by (auto simp: next_fault_def split: list.splits)

lemma os_WriteFile_ok: "os_WriteFile path data fs = (True, fs') \<Longrightarrow> fs_files fs' = AList.update path data (fs_files fs)"
  by (auto simp: os_WriteFile_def split: prod.splits fault.splits)

lemma no_faults [simp]: "fs_faults fs = [] \<Longrightarrow> next_fault fs = (NoFault, fs)"
  by (simp add: next_fault_def)

end
