(* ===== verification/Host_Clients.thy ===== *)
theory Host_Clients
  imports Host_IO
begin

text \<open>
  What the host commands share: the registry of known logs (\<^verbatim>\<open>internal/config/config.go\<close>,
  \<^verbatim>\<open>cmd/vitrum/logs.go\<close>), the clients of a log and of a witness (\<^verbatim>\<open>cmd/vitrum/client.go\<close>) and the check of
  a cosignature (\<^verbatim>\<open>cmd/vitrum/cosig.go\<close>).
\<close>

section \<open>Known logs\<close>

definition WitnessKeyName :: bytes where "WitnessKeyName = ''vitrum-UNSAFE-test-key.invalid''"
definition SelftestOrigin :: bytes where "SelftestOrigin = ''vitrum-selftest.invalid/log''"
definition SelftestSeed :: bytes where "SelftestSeed = ''vitrum-selftest-seed-1''"

record config_log =
  lg_Origin :: bytes
  lg_VKey :: bytes

definition config_Logs :: "config_log list" where
  "config_Logs =
     [\<lparr>lg_Origin = ''keyserver.geomys.org'',
       lg_VKey = ''keyserver.geomys.org+16b31509+ARLJ+pmTj78HzTeBj04V+LVfB+GFAQyrg54CRIju7Nn8''\<rparr>]"

record fetchable_log =
  fl_Name :: bytes
  fl_MonitoringURL :: bytes
  fl_Log :: config_log

text \<open>\<open>None\<close> is the panic during initialization.\<close>

definition mustConfigLog :: "bytes \<Rightarrow> config_log option" where
  "mustConfigLog origin = find (\<lambda>l. lg_Origin l = origin) config_Logs"

definition fetchableLogs :: "fetchable_log list option" where
  "fetchableLogs =
     (case mustConfigLog ''keyserver.geomys.org'' of
        None \<Rightarrow> None
      | Some l \<Rightarrow> Some [\<lparr>fl_Name = ''keyserver'', fl_MonitoringURL = ''https://keyserver.geomys.org/tlog/'', fl_Log = l\<rparr>])"

definition fetchableByName :: "fetchable_log list \<Rightarrow> bytes \<Rightarrow> fetchable_log option" where
  "fetchableByName logs name = (if name = [] then None else find (\<lambda>l. fl_Name l = name) logs)"

definition fetchableNames :: "fetchable_log list \<Rightarrow> bytes list" where
  "fetchableNames logs = map fl_Name logs"

datatype resolve_error =
    MutuallyExclusive
  | UnknownLogName bytes "bytes list"
  | IncompleteLog

definition resolveLog :: "fetchable_log list \<Rightarrow> bytes \<Rightarrow> bytes \<Rightarrow> bytes \<Rightarrow> bytes \<Rightarrow> resolve_error + fetchable_log" where
  "resolveLog logs name monitoringURL origin logKey =
     (if name \<noteq> [] then
        if monitoringURL \<noteq> [] \<or> origin \<noteq> [] \<or> logKey \<noteq> [] then Inl MutuallyExclusive
        else case fetchableByName logs name of
               None \<Rightarrow> Inl (UnknownLogName name (fetchableNames logs))
             | Some l \<Rightarrow> Inr l
      else if monitoringURL = [] \<or> origin = [] \<or> logKey = [] then Inl IncompleteLog
      else Inr \<lparr>fl_Name = [], fl_MonitoringURL = monitoringURL, fl_Log = \<lparr>lg_Origin = origin, lg_VKey = logKey\<rparr>\<rparr>)"

lemma fetchableLogs_init:
  "fetchableLogs = Some [\<lparr>fl_Name = ''keyserver'', fl_MonitoringURL = ''https://keyserver.geomys.org/tlog/'',
     fl_Log = hd config_Logs\<rparr>]"
  by (simp add: fetchableLogs_def mustConfigLog_def config_Logs_def)

lemma find_SomeD: "find P xs = Some x \<Longrightarrow> x \<in> set xs \<and> P x"
  by (metis find_Some_iff nth_mem)

text \<open>What \<open>resolveLog\<close> returns is a registered log under its name, or exactly the three flags.\<close>

lemma resolveLog_InrD:
  assumes "resolveLog logs name url origin key = Inr l"
  shows "if name \<noteq> [] then l \<in> set logs \<and> fl_Name l = name \<and> url = [] \<and> origin = [] \<and> key = []
    else fl_MonitoringURL l = url \<and> lg_Origin (fl_Log l) = origin \<and> lg_VKey (fl_Log l) = key \<and> origin \<noteq> []"
  using assms by (auto simp: resolveLog_def fetchableByName_def split: if_splits option.splits dest!: find_SomeD)

section \<open>Libraries and network\<close>

text \<open>
  \<open>nt_Open vkey data\<close> is the text of a signed note whose signature by the log key verifies;
  \<open>nt_OpenCosig vkey data\<close> are the verified signatures of a note, each with its key name.
\<close>

record note_lib =
  nt_NewVerifier :: "bytes \<Rightarrow> bool"
  nt_Open :: "bytes \<Rightarrow> bytes \<Rightarrow> bytes option"
  nt_NewCosigVerifier :: "bytes \<Rightarrow> bytes option"
  nt_OpenCosig :: "bytes \<Rightarrow> bytes \<Rightarrow> (bytes \<times> bytes) list option"
  nt_Timestamp :: "bytes \<Rightarrow> int option"
  nt_Json :: "bytes \<Rightarrow> (bytes \<Rightarrow> bytes option) option"

text \<open>The network over the state \<open>'n\<close> of the world: tile fetcher and HTTP client.\<close>

record 'n network =
  hn_NewTileFetcher :: "bytes \<Rightarrow> bool"
  hn_ReadEndpoint :: "bytes \<Rightarrow> bytes \<Rightarrow> 'n \<Rightarrow> bytes option \<times> 'n"
  hn_ProveTree :: "bytes \<Rightarrow> checkpoint \<Rightarrow> int \<Rightarrow> 'n \<Rightarrow> bytes list option \<times> 'n"
  hn_Post :: "bytes \<Rightarrow> bytes \<Rightarrow> 'n \<Rightarrow> (nat \<times> bytes) option \<times> 'n"
  hn_Get :: "bytes \<Rightarrow> 'n \<Rightarrow> (nat \<times> bytes) option \<times> 'n"

section \<open>Log client\<close>

record log_client =
  lc_origin :: bytes
  lc_vkey :: bytes
  lc_prefix :: bytes

datatype log_error =
    BadLogKey
  | BadLogURL
  | FetchCheckpoint
  | VerifyCheckpoint
  | UnparseableCheckpoint
  | OriginMismatch bytes bytes
  | ProofError int int

definition newLogClient :: "note_lib \<Rightarrow> 'n network \<Rightarrow> bytes \<Rightarrow> bytes \<Rightarrow> bytes \<Rightarrow> log_error + log_client" where
  "newLogClient lib net monitoringURL origin vkey =
     (if \<not> nt_NewVerifier lib vkey then Inl BadLogKey
      else if \<not> hn_NewTileFetcher net monitoringURL then Inl BadLogURL
      else Inr \<lparr>lc_origin = origin, lc_vkey = vkey, lc_prefix = monitoringURL\<rparr>)"

definition lc_checkpoint :: "external \<Rightarrow> note_lib \<Rightarrow> 'n network \<Rightarrow> log_client \<Rightarrow> ('n, log_error, checkpoint \<times> bytes) io" where
  "lc_checkpoint ex lib net c =
     io_bind (io_call FetchCheckpoint (hn_ReadEndpoint net (lc_prefix c) ''checkpoint'')) (\<lambda>data.
       case nt_Open lib (lc_vkey c) data of
         None \<Rightarrow> io_fail VerifyCheckpoint
       | Some txt \<Rightarrow>
           (case ex_ParseCheckpoint ex txt of
              None \<Rightarrow> io_fail UnparseableCheckpoint
            | Some cp \<Rightarrow>
                if cp_Origin cp \<noteq> lc_origin c then io_fail (OriginMismatch (cp_Origin cp) (lc_origin c))
                else io_return (cp, data)))"

definition lc_proveTree :: "'n network \<Rightarrow> log_client \<Rightarrow> checkpoint \<Rightarrow> int \<Rightarrow> ('n, log_error, bytes list) io" where
  "lc_proveTree net c cp older = io_call (ProofError older (cp_N cp)) (hn_ProveTree net (lc_prefix c) cp older)"

lemma lc_checkpoint_InrD:
  assumes "lc_checkpoint ex lib net c n = (Inr (cp, data), n')"
  shows "\<exists>txt. nt_Open lib (lc_vkey c) data = Some txt \<and> ex_ParseCheckpoint ex txt = Some cp \<and> cp_Origin cp = lc_origin c"
  using assms by (auto simp: lc_checkpoint_def io_simps split: option.splits if_splits)

section \<open>Witness client\<close>

definition maxWitnessResponse :: nat where "maxWitnessResponse = 2 ^ 20"

text \<open>\<open>strings.TrimRight(base, "/")\<close>.\<close>

definition trim_slashes :: "bytes \<Rightarrow> bytes" where
  "trim_slashes s = rev (dropWhile (\<lambda>c. c = CHR ''/'') (rev s))"

definition newWitnessClient :: "bytes \<Rightarrow> bytes" where
  "newWitnessClient base = trim_slashes base"

definition wc_post :: "'n network \<Rightarrow> bytes \<Rightarrow> bytes \<Rightarrow> bytes \<Rightarrow> 'n \<Rightarrow> (nat \<times> bytes) option \<times> 'n" where
  "wc_post net base path body n =
     (case hn_Post net (base @ path) body n of
        (None, n') \<Rightarrow> (None, n')
      | (Some (code, data), n') \<Rightarrow> if maxWitnessResponse < length data then (None, n') else (Some (code, data), n'))"

definition wc_submit :: "'n network \<Rightarrow> bytes \<Rightarrow> bytes \<Rightarrow> 'n \<Rightarrow> (nat \<times> bytes) option \<times> 'n" where
  "wc_submit net base body = wc_post net base ''/add-checkpoint'' body"

text \<open>The string members of the health object; the decoder reads no more than the cap.\<close>

definition wc_healthz :: "note_lib \<Rightarrow> 'n network \<Rightarrow> bytes \<Rightarrow> 'n \<Rightarrow> (bytes \<Rightarrow> bytes option) option \<times> 'n" where
  "wc_healthz lib net base n =
     (case hn_Get net (base @ ''/healthz'') n of
        (None, n') \<Rightarrow> (None, n')
      | (Some (code, body), n') \<Rightarrow>
          if code \<noteq> StatusOK then (None, n') else (nt_Json lib (take maxWitnessResponse body), n'))"

section \<open>Cosignatures\<close>

datatype cosig_error = OpenCosigned | BadTimestamp | MissingCosignature

definition verifyCosignature :: "note_lib \<Rightarrow> bytes \<Rightarrow> bytes \<Rightarrow> bytes \<Rightarrow> bytes \<Rightarrow> cosig_error + int" where
  "verifyCosignature lib vkey vname cpNote cosig =
     (case nt_OpenCosig lib vkey (cpNote @ cosig) of
        None \<Rightarrow> Inl OpenCosigned
      | Some sigs \<Rightarrow>
          (case find (\<lambda>(name, sig). name = vname) sigs of
             None \<Rightarrow> Inl MissingCosignature
           | Some (name, sig) \<Rightarrow> (case nt_Timestamp lib sig of None \<Rightarrow> Inl BadTimestamp | Some ts \<Rightarrow> Inr ts)))"

lemma verifyCosignature_InrD:
  assumes "verifyCosignature lib vkey vname cpNote cosig = Inr ts"
  shows "\<exists>sigs sig. nt_OpenCosig lib vkey (cpNote @ cosig) = Some sigs \<and> (vname, sig) \<in> set sigs
    \<and> nt_Timestamp lib sig = Some ts"
  using assms
  by (auto simp: verifyCosignature_def split: option.splits dest!: find_SomeD)

section \<open>A model witness behind a network\<close>

text \<open>The network delivers submissions to the witness that is the state of the world.\<close>

definition witness_behind :: "external \<Rightarrow> ('s, 'e) store_ops \<Rightarrow> 'e tick \<Rightarrow> 's witness network \<Rightarrow> bytes \<Rightarrow> bool" where
  "witness_behind ex sops tk net base \<longleftrightarrow>
     (\<forall>w body. hn_Post net (base @ ''/add-checkpoint'') body w =
        (case exchange ex sops tk w body of
           (None, w') \<Rightarrow> (None, w') | (Some r, w') \<Rightarrow> (Some (hr_code r, hr_body r), w')))"

lemma submit_exchange:
  assumes "witness_behind ex sops tk net base" "exchange ex sops tk w body = (Some r, w')"
    "length (hr_body r) \<le> maxWitnessResponse"
  shows "wc_submit net base body w = (Some (hr_code r, hr_body r), w')"
  using assms by (simp add: witness_behind_def wc_submit_def wc_post_def)

text \<open>The body of a conflict tells the client the size that the witness has.\<close>

lemma conflict_body_parses:
  assumes "0 \<le> n" "n < 2 ^ 63"
  shows "parse_int64 (TrimSpace (format_int n @ [nl])) = Some n"
  using assms TrimSpace_graphic(1) [OF list_all_graphic_format_int format_int_not_Nil]
  by (simp add: parse_int64_format_int)

lemma length_format_nat: "n < 10 ^ Suc k \<Longrightarrow> length (format_nat n) \<le> Suc k"
proof (induction k arbitrary: n)
  case 0
  then show ?case by (subst format_nat.simps) simp
next
  case (Suc k)
  have "n div 10 < 10 ^ Suc k" using Suc.prems by (simp add: less_mult_imp_div_less mult.commute)
  with Suc.IH show ?case by (subst format_nat.simps) simp
qed

lemma conflict_body_short:
  assumes "0 \<le> n" "n < 2 ^ 63"
  shows "length (format_int n @ [nl]) \<le> maxWitnessResponse"
proof -
  have "nat n < 10 ^ Suc 18" using assms by simp
  from length_format_nat [OF this] assms(1) show ?thesis by (simp add: format_int_def maxWitnessResponse_def)
qed

end
