(* ===== verification/Go_Paths.thy ===== *)
theory Go_Paths
  imports Go_Strings
begin

text \<open>
  \<open>strings.Split\<close> on one byte and the parts of \<open>path/filepath\<close> that the host tools use, on a Unix system:
  \<open>Clean\<close>, \<open>Join\<close> and \<open>Dir\<close>.
\<close>

fun split_on :: "byte \<Rightarrow> bytes \<Rightarrow> bytes list" where
  "split_on c [] = [[]]"
| "split_on c (x # xs) =
     (if x = c then [] # split_on c xs
      else case split_on c xs of [] \<Rightarrow> [[x]] | p # ps \<Rightarrow> (x # p) # ps)"

fun join_with :: "bytes \<Rightarrow> bytes list \<Rightarrow> bytes" where
  "join_with sep [] = []"
| "join_with sep [p] = p"
| "join_with sep (p # ps) = p @ sep @ join_with sep ps"

text \<open>The loop of \<open>Clean\<close> over the path elements; the accumulator holds the output in reverse.\<close>

fun clean_parts :: "bool \<Rightarrow> bytes list \<Rightarrow> bytes list \<Rightarrow> bytes list" where
  "clean_parts rooted [] acc = rev acc"
| "clean_parts rooted (p # ps) acc =
     (if p = [] \<or> p = ''.'' then clean_parts rooted ps acc
      else if p = ''..'' then
        (case acc of
           [] \<Rightarrow> clean_parts rooted ps (if rooted then [] else [p])
         | a # as \<Rightarrow> clean_parts rooted ps (if a = ''..'' then p # acc else as))
      else clean_parts rooted ps (p # acc))"

definition Clean :: "bytes \<Rightarrow> bytes" where
  "Clean path =
     (let rooted = (path \<noteq> [] \<and> hd path = CHR ''/'');
          out = (if rooted then ''/'' else []) @ join_with ''/'' (clean_parts rooted (split_on (CHR ''/'') path) [])
      in if out = [] then ''.'' else out)"

definition Join :: "bytes list \<Rightarrow> bytes" where
  "Join elems = (case dropWhile (\<lambda>e. e = []) elems of [] \<Rightarrow> [] | es \<Rightarrow> Clean (join_with ''/'' es))"

definition Dir :: "bytes \<Rightarrow> bytes" where
  "Dir path = Clean (rev (dropWhile (\<lambda>c. c \<noteq> CHR ''/'') (rev path)))"

section \<open>Lemmas\<close>

lemma split_on_not_Nil [simp]: "split_on c s \<noteq> []"
  by (cases s) (auto split: list.split)

lemma split_on_append: "split_on c (a @ c # b) = split_on c a @ split_on c b"
proof (induction a)
  case (Cons x a)
  then show ?case using split_on_not_Nil [of c a] by (cases "split_on c a") auto
qed simp

lemma split_on_plain: "c \<notin> set s \<Longrightarrow> split_on c s = [s]"
  by (induction s) auto

lemma clean_parts_append: "clean_parts r (ps @ qs) acc = clean_parts r qs (rev (clean_parts r ps acc))"
  by (induction r ps acc rule: clean_parts.induct) (auto split: list.split)

text \<open>A plain file name: no separator and not one of the special elements.\<close>

definition plain_name :: "bytes \<Rightarrow> bool" where
  "plain_name s \<longleftrightarrow> CHR ''/'' \<notin> set s \<and> s \<noteq> [] \<and> s \<noteq> ''.'' \<and> s \<noteq> ''..''"

lemma clean_parts_plain: "plain_name f \<Longrightarrow> clean_parts r (split_on (CHR ''/'') (d @ CHR ''/'' # f)) [] =
    clean_parts r (split_on (CHR ''/'') d) [] @ [f]"
  by (simp add: split_on_append split_on_plain plain_name_def clean_parts_append)

lemma join_with_snoc: "ps \<noteq> [] \<Longrightarrow> join_with sep (ps @ [p]) = join_with sep ps @ sep @ p"
  by (induction sep ps rule: join_with.induct) auto

lemma join_with_snoc_inj: "join_with sep (ps @ [p]) = join_with sep (ps @ [q]) \<Longrightarrow> p = q"
  by (cases "ps = []") (auto simp: join_with_snoc)

text \<open>Different files of one directory have different paths.\<close>

lemma Join_inj:
  assumes "plain_name f" "plain_name g" "Join [d, f] = Join [d, g]"
  shows "f = g"
proof (cases "d = []")
  case True
  have "Clean f = f" if "plain_name f" for f
    using that by (cases f) (auto simp: Clean_def plain_name_def split_on_plain Let_def)
  with True assms show ?thesis by (simp add: Join_def plain_name_def)
next
  case False
  let ?r = "hd d = CHR ''/''"
  have C: "Clean (d @ CHR ''/'' # f) =
      (if ?r then ''/'' else []) @ join_with ''/'' (clean_parts ?r (split_on (CHR ''/'') d) [] @ [f])"
    if "plain_name f" for f
  proof -
    have "join_with ''/'' (clean_parts ?r (split_on (CHR ''/'') d) [] @ [f]) \<noteq> []"
      using that by (cases "clean_parts ?r (split_on (CHR ''/'') d) [] = []") (auto simp: join_with_snoc plain_name_def)
    with False that show ?thesis by (simp add: Clean_def clean_parts_plain Let_def)
  qed
  from False assms show ?thesis by (auto simp: Join_def C dest: join_with_snoc_inj)
qed

end
