(* ===== verification/Record_Fixtures.thy ===== *)
theory Record_Fixtures
  imports Host_Clients Go_Paths
begin

text \<open>
  \<open>vitrum record\<close> (\<^verbatim>\<open>cmd/vitrum/record.go\<close>): capture checkpoints of a live log as a sequence of request bodies with
  the status each must produce on a fresh witness. The loop that waits for the log to grow is a partial
  function; it is shown to end when sleeping advances the clock. The recorded statuses are shown to be what the
  model of the witness answers.
\<close>

record record_flags =
  rf_logName :: bytes
  rf_log :: bytes
  rf_origin :: bytes
  rf_logKey :: bytes
  rf_out :: bytes
  rf_wait :: int
  rf_poll :: int

record 'n clock =
  ck_now :: "'n \<Rightarrow> int"
  ck_sleep :: "int \<Rightarrow> 'n \<Rightarrow> 'n"

record fixture_manifest =
  fm_Origin :: bytes
  fm_VKey :: bytes
  fm_Steps :: "(bytes \<times> nat) list"

record 'n recorder =
  rc_net :: 'n
  rc_fs :: file_system
  rc_steps :: "(bytes \<times> nat) list"

datatype record_error =
    RecordResolve resolve_error
  | RecordLog log_error
  | RecordMkdir
  | RecordWrite bytes

section \<open>Steps\<close>

text \<open>A command of the network part.\<close>

definition on_net :: "('n, log_error, 'a) io \<Rightarrow> ('n recorder, record_error, 'a) io" where
  "on_net m r = (case m (rc_net r) of
     (Inl e, n') \<Rightarrow> (Inl (RecordLog e), r\<lparr>rc_net := n'\<rparr>) | (Inr x, n') \<Rightarrow> (Inr x, r\<lparr>rc_net := n'\<rparr>))"

text \<open>An operation on the file system whose failure is fatal.\<close>

definition on_fs :: "record_error \<Rightarrow> (file_system \<Rightarrow> bool \<times> file_system) \<Rightarrow> ('n recorder, record_error, unit) io" where
  "on_fs e f r = (case f (rc_fs r) of
     (False, fs') \<Rightarrow> (Inl e, r\<lparr>rc_fs := fs'\<rparr>) | (True, fs') \<Rightarrow> (Inr (), r\<lparr>rc_fs := fs'\<rparr>))"

lemma on_net_Inr [io_simps]:
  "on_net m r = (Inr x, r') \<longleftrightarrow> (\<exists>n'. m (rc_net r) = (Inr x, n') \<and> r' = r\<lparr>rc_net := n'\<rparr>)"
  by (auto simp: on_net_def split: prod.splits sum.splits)

lemma on_fs_Inr [io_simps]:
  "on_fs e f r = (Inr x, r') \<longleftrightarrow> (\<exists>fs'. f (rc_fs r) = (True, fs') \<and> r' = r\<lparr>rc_fs := fs'\<rparr>)"
  by (auto simp: on_fs_def split: prod.splits bool.splits)

text \<open>The closure \<open>step\<close>: write the body and add the step to the manifest.\<close>

definition record_step :: "bytes \<Rightarrow> bytes \<Rightarrow> nat \<Rightarrow> bytes \<Rightarrow> ('n recorder, record_error, unit) io" where
  "record_step dir name status body =
     (let file = name @ ''.req''
      in io_bind (on_fs (RecordWrite file) (os_WriteFile (Join [dir, file]) body)) (\<lambda>_ r.
           (Inr (), r\<lparr>rc_steps := rc_steps r @ [(file, status)]\<rparr>)))"

fun record_all :: "bytes \<Rightarrow> (bytes \<times> nat \<times> bytes) list \<Rightarrow> ('n recorder, record_error, unit) io" where
  "record_all dir [] = io_return ()"
| "record_all dir ((name, status, body) # steps) =
     io_bind (record_step dir name status body) (\<lambda>_. record_all dir steps)"

text \<open>\<open>bad[0][0] ^= 0xff\<close> on a copy of the proof.\<close>

definition tamper :: "bytes list \<Rightarrow> bytes list" where
  "tamper prf = (case prf of
     (b # h) # hs \<Rightarrow> (char_of (255 - (of_char b :: nat)) # h) # hs
   | _ \<Rightarrow> prf)"

definition first_steps :: "external \<Rightarrow> checkpoint \<Rightarrow> bytes \<Rightarrow> (bytes \<times> nat \<times> bytes) list" where
  "first_steps ex cp1 cpNote1 =
     [(''00-first'', StatusOK, EncodeAddCheckpoint ex 0 [] cpNote1),
      (''01-resubmit'', StatusOK, EncodeAddCheckpoint ex (cp_N cp1) [] cpNote1)]"

definition grow_steps :: "external \<Rightarrow> checkpoint \<Rightarrow> bytes \<Rightarrow> bytes list \<Rightarrow> (bytes \<times> nat \<times> bytes) list" where
  "grow_steps ex cp1 cpNote2 prf =
     (if prf \<noteq> [] then
        [(''02-badproof'', StatusUnprocessableEntity, EncodeAddCheckpoint ex (cp_N cp1) (tamper prf) cpNote2)]
      else []) @
     [(''03-grow'', StatusOK, EncodeAddCheckpoint ex (cp_N cp1) prf cpNote2)]"

definition stale_step :: "external \<Rightarrow> bytes \<Rightarrow> (bytes \<times> nat \<times> bytes) list" where
  "stale_step ex cpNote1 = [(''99-stale'', StatusConflict, EncodeAddCheckpoint ex 0 [] cpNote1)]"

section \<open>Waiting for growth\<close>

partial_function (option) record_wait :: "external \<Rightarrow> note_lib \<Rightarrow> 'n network \<Rightarrow> 'n clock \<Rightarrow> log_client \<Rightarrow> checkpoint \<Rightarrow>
    int \<Rightarrow> int \<Rightarrow> checkpoint \<Rightarrow> bytes \<Rightarrow> 'n \<Rightarrow> ((log_error + checkpoint \<times> bytes) \<times> 'n) option" where
  "record_wait ex lib net ck lc cp1 deadline poll cp2 cpNote2 n =
     (if cp_N cp1 < cp_N cp2 then Some (Inr (cp2, cpNote2), n)
      else if deadline < ck_now ck n then Some (Inr (cp2, cpNote2), n)
      else case lc_checkpoint ex lib net lc (ck_sleep ck poll n) of
             (Inl e, n') \<Rightarrow> Some (Inl e, n')
           | (Inr (cp, cpNote), n') \<Rightarrow> record_wait ex lib net ck lc cp1 deadline poll cp cpNote n')"

section \<open>The command\<close>

definition safe_name :: "bytes \<Rightarrow> bytes" where
  "safe_name origin = map (\<lambda>c. if c = CHR ''/'' \<or> c = CHR '':'' then CHR ''_'' else c) origin"

definition record_dir :: "record_flags \<Rightarrow> bytes \<Rightarrow> bytes" where
  "record_dir fl origin =
     (if rf_out fl = [] then Join [''internal'', ''witness'', ''testdata'', safe_name origin] else rf_out fl)"

text \<open>Up to the first checkpoint and the two fixtures made from it.\<close>

definition record_begin :: "external \<Rightarrow> note_lib \<Rightarrow> 'n network \<Rightarrow> fetchable_log list \<Rightarrow> record_flags \<Rightarrow>
    ('n recorder, record_error, fetchable_log \<times> log_client \<times> checkpoint \<times> bytes) io" where
  "record_begin ex lib net logs fl =
     io_bind (io_map_error RecordResolve (io_of (resolveLog logs (rf_logName fl) (rf_log fl) (rf_origin fl) (rf_logKey fl)))) (\<lambda>l.
     let dir = record_dir fl (lg_Origin (fl_Log l)) in
     io_bind (on_fs RecordMkdir (os_MkdirAll dir)) (\<lambda>_.
     io_bind (io_map_error RecordLog (io_of (newLogClient lib net (fl_MonitoringURL l) (lg_Origin (fl_Log l))
       (lg_VKey (fl_Log l))))) (\<lambda>lc.
     io_bind (on_net (lc_checkpoint ex lib net lc)) (\<lambda>(cp1, cpNote1).
     io_bind (record_all dir (first_steps ex cp1 cpNote1)) (\<lambda>_.
     io_return (l, lc, cp1, cpNote1))))))"

text \<open>The fixtures for the growth, if there was any, the stale replay and the manifest.\<close>

definition record_end :: "external \<Rightarrow> 'n network \<Rightarrow> (fixture_manifest \<Rightarrow> bytes) \<Rightarrow> bytes \<Rightarrow> fetchable_log \<Rightarrow> log_client \<Rightarrow>
    checkpoint \<Rightarrow> bytes \<Rightarrow> checkpoint \<Rightarrow> bytes \<Rightarrow> ('n recorder, record_error, fixture_manifest) io" where
  "record_end ex net json dir l lc cp1 cpNote1 cp2 cpNote2 =
     io_bind (if cp_N cp1 < cp_N cp2
              then io_bind (on_net (lc_proveTree net lc cp2 (cp_N cp1))) (\<lambda>prf.
                     record_all dir (grow_steps ex cp1 cpNote2 prf))
              else io_return ()) (\<lambda>_.
     io_bind (record_all dir (stale_step ex cpNote1)) (\<lambda>_ r.
     let m = \<lparr>fm_Origin = lg_Origin (fl_Log l), fm_VKey = lg_VKey (fl_Log l), fm_Steps = rc_steps r\<rparr>
     in io_bind (on_fs (RecordWrite ''manifest.json'') (os_WriteFile (Join [dir, ''manifest.json'']) (json m @ [nl]))) (\<lambda>_.
          io_return m) r))"

definition cmdRecord :: "external \<Rightarrow> note_lib \<Rightarrow> 'n network \<Rightarrow> 'n clock \<Rightarrow> (fixture_manifest \<Rightarrow> bytes) \<Rightarrow> fetchable_log list \<Rightarrow>
    record_flags \<Rightarrow> 'n recorder \<Rightarrow> ((record_error + fixture_manifest) \<times> 'n recorder) option" where
  "cmdRecord ex lib net ck json logs fl r =
     (case record_begin ex lib net logs fl r of
        (Inl e, r1) \<Rightarrow> Some (Inl e, r1)
      | (Inr (l, lc, cp1, cpNote1), r1) \<Rightarrow>
          (case record_wait ex lib net ck lc cp1 (ck_now ck (rc_net r1) + rf_wait fl) (rf_poll fl) cp1 cpNote1 (rc_net r1) of
             None \<Rightarrow> None
           | Some (Inl e, n') \<Rightarrow> Some (Inl (RecordLog e), r1\<lparr>rc_net := n'\<rparr>)
           | Some (Inr (cp2, cpNote2), n') \<Rightarrow>
               Some (record_end ex net json (record_dir fl (lg_Origin (fl_Log l))) l lc cp1 cpNote1 cp2 cpNote2
                 (r1\<lparr>rc_net := n'\<rparr>))))"

section \<open>The wait ends\<close>

text \<open>Sleeping takes at least as long as asked, and a fetch does not turn the clock back.\<close>

definition clock_ok :: "external \<Rightarrow> note_lib \<Rightarrow> 'n network \<Rightarrow> 'n clock \<Rightarrow> log_client \<Rightarrow> bool" where
  "clock_ok ex lib net ck lc \<longleftrightarrow>
     (\<forall>d n. ck_now ck n + d \<le> ck_now ck (ck_sleep ck d n)) \<and>
     (\<forall>n. ck_now ck n \<le> ck_now ck (snd (lc_checkpoint ex lib net lc n)))"

lemma record_wait_ends:
  assumes "clock_ok ex lib net ck lc" "0 < poll"
  shows "\<exists>res. record_wait ex lib net ck lc cp1 deadline poll cp2 cpNote2 n = Some res"
proof (induction "nat (deadline + 1 - ck_now ck n)" arbitrary: cp2 cpNote2 n rule: less_induct)
  case less
  show ?case
  proof (cases "cp_N cp1 < cp_N cp2 \<or> deadline < ck_now ck n")
    case True
    then show ?thesis by (subst record_wait.simps) auto
  next
    case False
    obtain res n' where l: "lc_checkpoint ex lib net lc (ck_sleep ck poll n) = (res, n')" by fastforce
    have "ck_now ck n + poll \<le> ck_now ck n'"
      using assms(1) l order_trans unfolding clock_ok_def by (metis snd_conv)
    then have "nat (deadline + 1 - ck_now ck n') < nat (deadline + 1 - ck_now ck n)" using False assms(2) by linarith
    from less.hyps [OF this] False l show ?thesis by (subst record_wait.simps) (auto split: sum.split)
  qed
qed

text \<open>What the wait returns is the checkpoint it started with or one that it fetched.\<close>

lemma record_wait_fetched:
  assumes "record_wait ex lib net ck lc cp1 deadline poll cp2 cpNote2 n = Some (Inr (cp, cpNote), n')"
  shows "(cp, cpNote, n') = (cp2, cpNote2, n) \<or> (\<exists>n0. lc_checkpoint ex lib net lc n0 = (Inr (cp, cpNote), n'))"
proof -
  have "\<forall>cp cpNote n'. res = (Inr (cp, cpNote), n') \<longrightarrow>
      (cp, cpNote, n') = (cp2, cpNote2, n) \<or> (\<exists>n0. lc_checkpoint ex lib net lc n0 = (Inr (cp, cpNote), n'))"
    if "record_wait ex lib net ck lc cp1 deadline poll cp2 cpNote2 n = Some res" for res
    using that
  proof (induct rule: record_wait.raw_induct [rotated 1, consumes 1, case_names step])
    case (step wait ex lib net ck lc cp1 deadline poll cp2 cpNote2 n res)
    obtain r0 n0 where l: "lc_checkpoint ex lib net lc (ck_sleep ck poll n) = (r0, n0)" by fastforce
    from step(2) consider "res = (Inr (cp2, cpNote2), n)" | e n' where "res = (Inl e, n')"
      | (again) cp cpNote n' where "lc_checkpoint ex lib net lc (ck_sleep ck poll n) = (Inr (cp, cpNote), n')"
          "wait ex lib net ck lc cp1 deadline poll cp cpNote n' = Some res"
      by (cases r0) (auto simp: l split: if_splits)
    then show ?case
    proof cases
      case again
      from step(1) [OF again(2)] again(1) l show ?thesis by blast
    qed auto
  qed
  with assms show ?thesis by blast
qed

section \<open>What is written\<close>

lemma record_step_ok:
  assumes "record_step dir name status body r = (Inr (), r')"
  shows "rc_net r' = rc_net r \<and> rc_steps r' = rc_steps r @ [(name @ ''.req'', status)]
    \<and> fs_files (rc_fs r') = AList.update (Join [dir, name @ ''.req'']) body (fs_files (rc_fs r))"
  using assms by (auto simp: record_step_def io_simps Let_def dest!: os_WriteFile_ok)

lemma record_all_ok:
  assumes "record_all dir steps r = (Inr (), r')"
  shows "rc_net r' = rc_net r \<and> rc_steps r' = rc_steps r @ map (\<lambda>(name, status, body). (name @ ''.req'', status)) steps
    \<and> fs_files (rc_fs r') =
        foldl (\<lambda>m (name, status, body). AList.update (Join [dir, name @ ''.req'']) body m) (fs_files (rc_fs r)) steps"
  using assms
  by (induction dir steps arbitrary: r rule: record_all.induct) (auto simp: io_simps dest!: record_step_ok)

text \<open>The whole list of fixtures for given checkpoints; \<open>grown\<close> is the second note and the proof.\<close>

definition record_plan :: "external \<Rightarrow> checkpoint \<Rightarrow> bytes \<Rightarrow> (bytes \<times> bytes list) option \<Rightarrow> (bytes \<times> nat \<times> bytes) list" where
  "record_plan ex cp1 cpNote1 grown =
     [(''00-first'', 200, EncodeAddCheckpoint ex 0 [] cpNote1),
      (''01-resubmit'', 200, EncodeAddCheckpoint ex (cp_N cp1) [] cpNote1)] @
     (case grown of None \<Rightarrow> []
      | Some (cpNote2, prf) \<Rightarrow>
          (if prf = [] then [] else [(''02-badproof'', 422, EncodeAddCheckpoint ex (cp_N cp1) (tamper prf) cpNote2)]) @
          [(''03-grow'', 200, EncodeAddCheckpoint ex (cp_N cp1) prf cpNote2)]) @
     [(''99-stale'', 409, EncodeAddCheckpoint ex 0 [] cpNote1)]"

text \<open>It is the list of steps that the command records.\<close>

lemma record_plan_steps:
  "record_plan ex cp1 cpNote1 grown =
     first_steps ex cp1 cpNote1 @ (case grown of None \<Rightarrow> [] | Some (cpNote2, prf) \<Rightarrow> grow_steps ex cp1 cpNote2 prf)
     @ stale_step ex cpNote1"
  by (simp add: record_plan_def first_steps_def grow_steps_def stale_step_def split: option.split)

lemma plan_names:
  "distinct (map fst (record_plan ex cp1 cpNote1 grown))"
  "step \<in> set (record_plan ex cp1 cpNote1 grown) \<Longrightarrow> plain_name (fst step @ ''.req'') \<and> fst step @ ''.req'' \<noteq> ''manifest.json''"
  by (auto simp: record_plan_def plain_name_def split: option.split option.splits if_splits)

definition put_steps :: "bytes \<Rightarrow> (bytes \<times> nat \<times> bytes) list \<Rightarrow> (bytes, bytes) gomap \<Rightarrow> (bytes, bytes) gomap" where
  "put_steps dir steps m = foldl (\<lambda>m (name, status, body). AList.update (Join [dir, name @ ''.req'']) body m) m steps"

lemma put_steps_append: "put_steps dir (a @ b) m = put_steps dir b (put_steps dir a m)"
  by (simp add: put_steps_def)

lemma put_steps_other:
  "(\<And>step. step \<in> set steps \<Longrightarrow> path \<noteq> Join [dir, fst step @ ''.req'']) \<Longrightarrow> map_of (put_steps dir steps m) path = map_of m path"
  unfolding put_steps_def
proof (induction steps arbitrary: m)
  case (Cons a steps)
  obtain name status body where a: "a = (name, status, body)" by (cases a)
  have "path \<noteq> Join [dir, name @ ''.req'']" using Cons.prems [of a] a by simp
  with Cons a show ?case by (simp add: gomap_simps)
qed simp

lemma put_steps_lookup:
  assumes "(name, status, body) \<in> set steps" "distinct (map fst steps)"
    "\<And>step. step \<in> set steps \<Longrightarrow> plain_name (fst step @ ''.req'')"
  shows "map_of (put_steps dir steps m) (Join [dir, name @ ''.req'']) = Some body"
  using assms
proof (induction steps arbitrary: m)
  case (Cons a steps)
  have head: "put_steps dir (a # steps) m = put_steps dir steps (put_steps dir [a] m)"
    by (simp add: put_steps_def)
  show ?case
  proof (cases "a = (name, status, body)")
    case True
    have "map_of (put_steps dir (a # steps) m) (Join [dir, name @ ''.req'']) =
        map_of (put_steps dir [a] m) (Join [dir, name @ ''.req''])"
      unfolding head
    proof (rule put_steps_other)
      fix step assume s: "step \<in> set steps"
      then have "fst step @ ''.req'' \<noteq> name @ ''.req''" using Cons.prems(2) True by force
      then show "Join [dir, name @ ''.req''] \<noteq> Join [dir, fst step @ ''.req'']"
        using Join_inj Cons.prems(3) s True by (metis fst_conv list.set_intros(1,2))
    qed
    with True show ?thesis by (simp add: put_steps_def gomap_simps)
  next
    case False
    with Cons show ?thesis unfolding head by auto
  qed
qed simp

text \<open>The second note and the proof, when the log has grown; the proof is fetched in the given state.\<close>

definition growth :: "'n network \<Rightarrow> log_client \<Rightarrow> checkpoint \<Rightarrow> checkpoint \<Rightarrow> bytes \<Rightarrow> 'n \<Rightarrow> (bytes \<times> bytes list) option \<Rightarrow> bool" where
  "growth net lc cp1 cp2 cpNote2 n grown \<longleftrightarrow>
     (if cp_N cp1 < cp_N cp2 then \<exists>prf n'. lc_proveTree net lc cp2 (cp_N cp1) n = (Inr prf, n') \<and> grown = Some (cpNote2, prf)
      else grown = None)"

lemma record_end_InrD:
  assumes "record_end ex net json dir l lc cp1 cpNote1 cp2 cpNote2 r = (Inr m, r')"
  obtains grown where "growth net lc cp1 cp2 cpNote2 (rc_net r) grown"
    "fm_Steps m = rc_steps r @ map (\<lambda>(name, status, body). (name @ ''.req'', status))
       ((case grown of None \<Rightarrow> [] | Some (cpNote2, prf) \<Rightarrow> grow_steps ex cp1 cpNote2 prf) @ stale_step ex cpNote1)"
    "fs_files (rc_fs r') = AList.update (Join [dir, ''manifest.json'']) (json m @ [nl])
       (put_steps dir ((case grown of None \<Rightarrow> [] | Some (cpNote2, prf) \<Rightarrow> grow_steps ex cp1 cpNote2 prf)
          @ stale_step ex cpNote1) (fs_files (rc_fs r)))"
proof (cases "cp_N cp1 < cp_N cp2")
  case True
  with assms obtain pf n' where "lc_proveTree net lc cp2 (cp_N cp1) (rc_net r) = (Inr pf, n')"
    "fm_Steps m = rc_steps r @ map (\<lambda>(name, status, body). (name @ ''.req'', status))
       (grow_steps ex cp1 cpNote2 pf @ stale_step ex cpNote1)"
    "fs_files (rc_fs r') = AList.update (Join [dir, ''manifest.json'']) (json m @ [nl])
       (put_steps dir (grow_steps ex cp1 cpNote2 pf @ stale_step ex cpNote1) (fs_files (rc_fs r)))"
    by (auto simp: record_end_def io_simps Let_def put_steps_def dest!: record_all_ok os_WriteFile_ok)
  then show thesis using that [of "Some (cpNote2, pf)"] True by (simp add: growth_def)
next
  case False
  with assms have
    "fm_Steps m = rc_steps r @ map (\<lambda>(name, status, body). (name @ ''.req'', status)) (stale_step ex cpNote1)"
    "fs_files (rc_fs r') = AList.update (Join [dir, ''manifest.json'']) (json m @ [nl])
       (put_steps dir (stale_step ex cpNote1) (fs_files (rc_fs r)))"
    by (auto simp: record_end_def io_simps Let_def put_steps_def dest!: record_all_ok os_WriteFile_ok)
  then show thesis using that [of None] False by (simp add: growth_def)
qed

text \<open>
  A run that reports success has written the manifest it returns and, for each of its steps, the body of the plan under
  the step's file name; the plan is the one of the checkpoints and the proof that the run fetched.
\<close>

lemma cmdRecord_InrD:
  assumes "cmdRecord ex lib net ck json logs fl r = Some (Inr m, r')" "rc_steps r = []"
  obtains l lc cp1 cpNote1 n1 cp2 cpNote2 n2 grown where
    "resolveLog logs (rf_logName fl) (rf_log fl) (rf_origin fl) (rf_logKey fl) = Inr l"
    "newLogClient lib net (fl_MonitoringURL l) (lg_Origin (fl_Log l)) (lg_VKey (fl_Log l)) = Inr lc"
    "lc_checkpoint ex lib net lc (rc_net r) = (Inr (cp1, cpNote1), n1)"
    "record_wait ex lib net ck lc cp1 (ck_now ck n1 + rf_wait fl) (rf_poll fl) cp1 cpNote1 n1 = Some (Inr (cp2, cpNote2), n2)"
    "growth net lc cp1 cp2 cpNote2 n2 grown"
    "fm_Steps m = map (\<lambda>(name, status, body). (name @ ''.req'', status)) (record_plan ex cp1 cpNote1 grown)"
    "\<forall>(name, status, body) \<in> set (record_plan ex cp1 cpNote1 grown).
       map_of (fs_files (rc_fs r')) (Join [record_dir fl (lg_Origin (fl_Log l)), name @ ''.req'']) = Some body"
    "map_of (fs_files (rc_fs r')) (Join [record_dir fl (lg_Origin (fl_Log l)), ''manifest.json'']) = Some (json m @ [nl])"
proof -
  from assms(1) obtain l lc cp1 cpNote1 r1 cp2 cpNote2 n2 where
    b: "record_begin ex lib net logs fl r = (Inr (l, lc, cp1, cpNote1), r1)"
    and w: "record_wait ex lib net ck lc cp1 (ck_now ck (rc_net r1) + rf_wait fl) (rf_poll fl) cp1 cpNote1 (rc_net r1) =
      Some (Inr (cp2, cpNote2), n2)"
    and e: "record_end ex net json (record_dir fl (lg_Origin (fl_Log l))) l lc cp1 cpNote1 cp2 cpNote2 (r1\<lparr>rc_net := n2\<rparr>) = (Inr m, r')"
    by (auto simp: cmdRecord_def split: prod.splits sum.splits option.splits)
  define dir where "dir = record_dir fl (lg_Origin (fl_Log l))"
  from b assms(2) have s1: "rc_steps r1 = map (\<lambda>(name, status, body). (name @ ''.req'', status)) (first_steps ex cp1 cpNote1)"
    and f1: "\<exists>m0. fs_files (rc_fs r1) = put_steps dir (first_steps ex cp1 cpNote1) m0"
    and l: "resolveLog logs (rf_logName fl) (rf_log fl) (rf_origin fl) (rf_logKey fl) = Inr l"
      "newLogClient lib net (fl_MonitoringURL l) (lg_Origin (fl_Log l)) (lg_VKey (fl_Log l)) = Inr lc"
      "lc_checkpoint ex lib net lc (rc_net r) = (Inr (cp1, cpNote1), rc_net r1)"
    by (auto simp: record_begin_def dir_def io_simps Let_def put_steps_def dest!: record_all_ok)
  from e obtain grown where g: "growth net lc cp1 cp2 cpNote2 n2 grown" and
    s2: "fm_Steps m = rc_steps r1 @ map (\<lambda>(name, status, body). (name @ ''.req'', status))
        ((case grown of None \<Rightarrow> [] | Some (cpNote2, prf) \<Rightarrow> grow_steps ex cp1 cpNote2 prf) @ stale_step ex cpNote1)"
    and f2: "fs_files (rc_fs r') = AList.update (Join [dir, ''manifest.json'']) (json m @ [nl])
        (put_steps dir ((case grown of None \<Rightarrow> [] | Some (cpNote2, prf) \<Rightarrow> grow_steps ex cp1 cpNote2 prf)
        @ stale_step ex cpNote1) (fs_files (rc_fs r1)))"
    by (rule record_end_InrD) (auto simp: dir_def)
  let ?plan = "record_plan ex cp1 cpNote1 grown"
  from f1 f2 obtain m0 where
    files: "fs_files (rc_fs r') = AList.update (Join [dir, ''manifest.json'']) (json m @ [nl]) (put_steps dir ?plan m0)"
    by (auto simp: record_plan_steps put_steps_append)
  have "map_of (fs_files (rc_fs r')) (Join [dir, name @ ''.req'']) = Some body"
    if "(name, status, body) \<in> set ?plan" for name status body
  proof -
    have "Join [dir, name @ ''.req''] \<noteq> Join [dir, ''manifest.json'']"
      using Join_inj [of "name @ ''.req''" "''manifest.json''" dir] plan_names(2) [OF that] by (auto simp: plain_name_def)
    then show ?thesis
      using put_steps_lookup [OF that plan_names(1)] plan_names(2) by (simp add: files gomap_simps)
  qed
  moreover have "fm_Steps m = map (\<lambda>(name, status, body). (name @ ''.req'', status)) ?plan"
    by (simp add: s1 s2 record_plan_steps)
  moreover have "map_of (fs_files (rc_fs r')) (Join [dir, ''manifest.json'']) = Some (json m @ [nl])"
    by (simp add: files gomap_simps)
  ultimately show thesis using that [OF l w g] unfolding dir_def by blast
qed

section \<open>The fixtures replay\<close>

text \<open>Requests sent one after the other to a witness, and the status of each response.\<close>

fun replay :: "external \<Rightarrow> ('s, 'e) store_ops \<Rightarrow> 'e tick \<Rightarrow> 's witness \<Rightarrow> bytes list \<Rightarrow> nat option list" where
  "replay ex sops tk w [] = []"
| "replay ex sops tk w (body # bodies) =
     (case exchange ex sops tk w body of (res, w') \<Rightarrow> map_option hr_code res # replay ex sops tk w' bodies)"

text \<open>A note of the log that the witness can sign.\<close>

definition signable :: "external \<Rightarrow> signer_ref \<Rightarrow> 'e tick \<Rightarrow> bytes \<Rightarrow> checkpoint \<Rightarrow> bool" where
  "signable ex sg tk cpNote cp \<longleftrightarrow>
     (\<exists>txt. note_text cpNote = Some txt \<and> ex_ParseCheckpoint ex txt = Some cp
        \<and> ex_Sign ex sg (tk_now tk (cp_Origin cp)) txt \<noteq> None) \<and> 0 < cp_N cp \<and> cp_N cp < 2 ^ 63"

lemma replay_accepted:
  assumes "ready mem_store_ops sg w" "hash_codec_ok ex" "signable ex sg tk cpNote cp" "proof_ok prf"
    "0 \<le> old" "old \<le> cp_N cp" "old = latest mem_store_ops w (cp_Origin cp)"
    "consistency_check ex \<lparr>rq_old = old, rq_proof = prf, rq_note = cpNote\<rparr> cp (latest_hash mem_store_ops w (cp_Origin cp))"
    "length (EncodeAddCheckpoint ex old prf cpNote) \<le> MaxRequestSize"
  shows "\<exists>w'. replay ex mem_store_ops tk w (EncodeAddCheckpoint ex old prf cpNote # bodies) =
      Some StatusOK # replay ex mem_store_ops tk w' bodies
    \<and> ready mem_store_ops sg w' \<and> known_tree w' (cp_Origin cp) (cp_N cp) (cp_Hash cp)"
proof -
  from assms(3) obtain tx snote where t: "note_text cpNote = Some tx" "ex_ParseCheckpoint ex tx = Some cp"
    "ex_Sign ex sg (tk_now tk (cp_Origin cp)) tx = Some snote" "cp_N cp < 2 ^ 63" by (auto simp: signable_def)
  have "submission ex (EncodeAddCheckpoint ex old prf cpNote) \<lparr>rq_old = old, rq_proof = prf, rq_note = cpNote\<rparr> tx cp"
    by (rule encoded_submission [OF assms(2,4-6) t(4,1,2) assms(9)])
  from mem_accepted [OF assms(1) this _ _ t(3)] assms(7,8) show ?thesis by (fastforce simp: known_tree_def)
qed

lemma replay_refused:
  assumes "ready mem_store_ops sg w" "hash_codec_ok ex" "signable ex sg tk cpNote cp" "proof_ok prf"
    "0 \<le> old" "old \<le> cp_N cp" "length (EncodeAddCheckpoint ex old prf cpNote) \<le> MaxRequestSize"
    "if status = StatusConflict then old \<noteq> latest mem_store_ops w (cp_Origin cp)
     else status = StatusUnprocessableEntity \<and> old = latest mem_store_ops w (cp_Origin cp) \<and>
       \<not> consistency_check ex \<lparr>rq_old = old, rq_proof = prf, rq_note = cpNote\<rparr> cp (latest_hash mem_store_ops w (cp_Origin cp))"
  shows "replay ex mem_store_ops tk w (EncodeAddCheckpoint ex old prf cpNote # bodies) =
    Some status # replay ex mem_store_ops tk w bodies"
proof -
  from assms(3) obtain tx where t: "note_text cpNote = Some tx" "ex_ParseCheckpoint ex tx = Some cp"
    "cp_N cp < 2 ^ 63" by (auto simp: signable_def)
  have sub: "submission ex (EncodeAddCheckpoint ex old prf cpNote) \<lparr>rq_old = old, rq_proof = prf, rq_note = cpNote\<rparr> tx cp"
    by (rule encoded_submission [OF assms(2,4-6) t(3,1,2) assms(7)])
  show ?thesis
    using exchange_conflict [OF assms(1) sub, of tk] exchange_refused [OF assms(1) sub, of tk] assms(8)
    by (cases "status = StatusConflict") auto
qed

lemma proof_ok_tamper: "proof_ok prf \<Longrightarrow> proof_ok (tamper prf)"
  by (auto simp: proof_ok_def tamper_def split: list.splits)

text \<open>The log grew honestly from the first to the second checkpoint, and the tampered proof does not verify.\<close>

definition honest_growth :: "external \<Rightarrow> signer_ref \<Rightarrow> 'e tick \<Rightarrow> checkpoint \<Rightarrow> bytes \<Rightarrow> checkpoint \<Rightarrow> bytes list \<Rightarrow> bool" where
  "honest_growth ex sg tk cp1 cpNote2 cp2 prf \<longleftrightarrow>
     signable ex sg tk cpNote2 cp2 \<and> cp_Origin cp2 = cp_Origin cp1 \<and> cp_N cp1 < cp_N cp2 \<and> proof_ok prf
     \<and> ex_CheckTree ex prf (cp_N cp2) (cp_Hash cp2) (cp_N cp1) (cp_Hash cp1)
     \<and> (prf \<noteq> [] \<longrightarrow> \<not> ex_CheckTree ex (tamper prf) (cp_N cp2) (cp_Hash cp2) (cp_N cp1) (cp_Hash cp1))"

text \<open>What the fetched proof has to be for this.\<close>

definition honest_proof :: "external \<Rightarrow> checkpoint \<Rightarrow> checkpoint \<Rightarrow> bytes list \<Rightarrow> bool" where
  "honest_proof ex cp1 cp2 prf \<longleftrightarrow> proof_ok prf
     \<and> ex_CheckTree ex prf (cp_N cp2) (cp_Hash cp2) (cp_N cp1) (cp_Hash cp1)
     \<and> (prf \<noteq> [] \<longrightarrow> \<not> ex_CheckTree ex (tamper prf) (cp_N cp2) (cp_Hash cp2) (cp_N cp1) (cp_Hash cp1))"

text \<open>
  A note that opens under the key of the log and holds a checkpoint has the text of the checkpoint before its first empty
  line (a checkpoint has no empty lines); its size is an \<open>int64\<close>; and the signer of the witness signs the text.
\<close>

definition submittable :: "external \<Rightarrow> note_lib \<Rightarrow> bytes \<Rightarrow> signer_ref \<Rightarrow> 'e tick \<Rightarrow> bool" where
  "submittable ex lib vkey sg tk \<longleftrightarrow>
     (\<forall>cpNote txt cp. nt_Open lib vkey cpNote = Some txt \<longrightarrow> ex_ParseCheckpoint ex txt = Some cp \<longrightarrow>
        note_text cpNote = Some txt \<and> cp_N cp < 2 ^ 63 \<and> ex_Sign ex sg (tk_now tk (cp_Origin cp)) txt \<noteq> None)"

lemma fetched_signable:
  assumes "submittable ex lib (lc_vkey lc) sg tk" "lc_checkpoint ex lib net lc n = (Inr (cp, cpNote), n')" "0 < cp_N cp"
  shows "signable ex sg tk cpNote cp" "cp_Origin cp = lc_origin lc"
  using lc_checkpoint_InrD [OF assms(2)] assms(1,3) unfolding submittable_def signable_def by blast+

lemma replay_grow:
  assumes w: "ready mem_store_ops sg w" "known_tree w (cp_Origin cp1) (cp_N cp1) (cp_Hash cp1)" and codec: "hash_codec_ok ex"
    and pos: "0 < cp_N cp1" and g: "honest_growth ex sg tk cp1 cpNote2 cp2 prf"
    and fits: "\<forall>(name, status, body) \<in> set (grow_steps ex cp1 cpNote2 prf). length body \<le> MaxRequestSize"
  shows "\<exists>w'. replay ex mem_store_ops tk w (map (snd \<circ> snd) (grow_steps ex cp1 cpNote2 prf) @ bodies) =
      map (Some \<circ> fst \<circ> snd) (grow_steps ex cp1 cpNote2 prf) @ replay ex mem_store_ops tk w' bodies
    \<and> ready mem_store_ops sg w' \<and> known_tree w' (cp_Origin cp1) (cp_N cp2) (cp_Hash cp2)"
proof -
  have s2: "signable ex sg tk cpNote2 cp2" and og: "cp_Origin cp2 = cp_Origin cp1" and lt: "cp_N cp1 < cp_N cp2"
    and ok: "proof_ok prf" "ex_CheckTree ex prf (cp_N cp2) (cp_Hash cp2) (cp_N cp1) (cp_Hash cp1)"
    and bad: "prf \<noteq> [] \<Longrightarrow> \<not> ex_CheckTree ex (tamper prf) (cp_N cp2) (cp_Hash cp2) (cp_N cp1) (cp_Hash cp1)"
    using g by (simp_all add: honest_growth_def)
  have kl: "latest mem_store_ops w (cp_Origin cp2) = cp_N cp1" "latest_hash mem_store_ops w (cp_Origin cp2) = cp_Hash cp1"
    using known_latest [OF w(2)] og by simp_all
  from fits have f: "length (EncodeAddCheckpoint ex (cp_N cp1) prf cpNote2) \<le> MaxRequestSize"
    "prf \<noteq> [] \<Longrightarrow> length (EncodeAddCheckpoint ex (cp_N cp1) (tamper prf) cpNote2) \<le> MaxRequestSize"
    by (auto simp: grow_steps_def split: if_splits)
  have "\<exists>w'. replay ex mem_store_ops tk w (EncodeAddCheckpoint ex (cp_N cp1) prf cpNote2 # bodies) =
        Some StatusOK # replay ex mem_store_ops tk w' bodies
      \<and> ready mem_store_ops sg w' \<and> known_tree w' (cp_Origin cp2) (cp_N cp2) (cp_Hash cp2)"
    by (rule replay_accepted [OF w(1) codec s2 ok(1) _ _ _ _ f(1)])
      (use pos lt ok(2) in \<open>simp_all add: kl consistency_check_def\<close>)
  then obtain w' where
    w': "replay ex mem_store_ops tk w (EncodeAddCheckpoint ex (cp_N cp1) prf cpNote2 # bodies) =
        Some StatusOK # replay ex mem_store_ops tk w' bodies"
      "ready mem_store_ops sg w'" "known_tree w' (cp_Origin cp1) (cp_N cp2) (cp_Hash cp2)" using og by auto
  have "replay ex mem_store_ops tk w (EncodeAddCheckpoint ex (cp_N cp1) (tamper prf) cpNote2 # bodies') =
      Some StatusUnprocessableEntity # replay ex mem_store_ops tk w bodies'" if "prf \<noteq> []" for bodies'
    by (rule replay_refused [OF w(1) codec s2 proof_ok_tamper [OF ok(1)] _ _ f(2) [OF that]])
      (use pos lt bad [OF that] in \<open>simp_all add: kl consistency_check_def\<close>)
  with w' show ?thesis by (auto simp: grow_steps_def simp del: replay.simps)
qed

text \<open>The plan of a log that is not empty produces its own statuses on a witness that does not know the log.\<close>

lemma plan_replays:
  assumes w: "ready mem_store_ops sg w" "map_of (w_store w) (cp_Origin cp1) = None" and codec: "hash_codec_ok ex"
    and s1: "signable ex sg tk cpNote1 cp1"
    and g: "\<And>cpNote2 prf. grown = Some (cpNote2, prf) \<Longrightarrow> \<exists>cp2. honest_growth ex sg tk cp1 cpNote2 cp2 prf"
    and fits: "\<forall>(name, status, body) \<in> set (record_plan ex cp1 cpNote1 grown). length body \<le> MaxRequestSize"
  shows "replay ex mem_store_ops tk w (map (snd \<circ> snd) (record_plan ex cp1 cpNote1 grown)) =
    map (Some \<circ> fst \<circ> snd) (record_plan ex cp1 cpNote1 grown)"
proof -
  let ?mid = "case grown of None \<Rightarrow> [] | Some (cpNote2, prf) \<Rightarrow> grow_steps ex cp1 cpNote2 prf"
  let ?stale = "EncodeAddCheckpoint ex 0 [] cpNote1"
  let ?rest = "map (snd \<circ> snd) ?mid @ [?stale]"
  have pos: "0 < cp_N cp1" using s1 by (simp add: signable_def)
  from fits have f: "length ?stale \<le> MaxRequestSize" "length (EncodeAddCheckpoint ex (cp_N cp1) [] cpNote1) \<le> MaxRequestSize"
    by (auto simp: record_plan_steps first_steps_def)
  have "\<exists>w1. replay ex mem_store_ops tk w (?stale # EncodeAddCheckpoint ex (cp_N cp1) [] cpNote1 # ?rest) =
      Some StatusOK # replay ex mem_store_ops tk w1 (EncodeAddCheckpoint ex (cp_N cp1) [] cpNote1 # ?rest)
    \<and> ready mem_store_ops sg w1 \<and> known_tree w1 (cp_Origin cp1) (cp_N cp1) (cp_Hash cp1)"
    by (rule replay_accepted [OF w(1) codec s1 proof_ok_Nil _ _ _ _ f(1)])
      (use w(2) pos in \<open>simp_all add: mem_latest consistency_check_def\<close>)
  then obtain w1 where w1: "replay ex mem_store_ops tk w (?stale # EncodeAddCheckpoint ex (cp_N cp1) [] cpNote1 # ?rest) =
      Some StatusOK # replay ex mem_store_ops tk w1 (EncodeAddCheckpoint ex (cp_N cp1) [] cpNote1 # ?rest)"
    "ready mem_store_ops sg w1" "known_tree w1 (cp_Origin cp1) (cp_N cp1) (cp_Hash cp1)" by blast
  have "\<exists>w2. replay ex mem_store_ops tk w1 (EncodeAddCheckpoint ex (cp_N cp1) [] cpNote1 # ?rest) =
      Some StatusOK # replay ex mem_store_ops tk w2 ?rest
    \<and> ready mem_store_ops sg w2 \<and> known_tree w2 (cp_Origin cp1) (cp_N cp1) (cp_Hash cp1)"
    by (rule replay_accepted [OF w1(2) codec s1 proof_ok_Nil _ _ _ _ f(2)])
      (use pos known_latest [OF w1(3)] in \<open>simp_all add: consistency_check_def\<close>)
  then obtain w2 where w2: "replay ex mem_store_ops tk w1 (EncodeAddCheckpoint ex (cp_N cp1) [] cpNote1 # ?rest) =
      Some StatusOK # replay ex mem_store_ops tk w2 ?rest"
    "ready mem_store_ops sg w2" "known_tree w2 (cp_Origin cp1) (cp_N cp1) (cp_Hash cp1)" by blast
  have "\<exists>w3 n h. replay ex mem_store_ops tk w2 ?rest = map (Some \<circ> fst \<circ> snd) ?mid @ replay ex mem_store_ops tk w3 [?stale]
      \<and> ready mem_store_ops sg w3 \<and> known_tree w3 (cp_Origin cp1) n h \<and> 0 < n"
  proof (cases grown)
    case None
    then show ?thesis using w2(2,3) pos by auto
  next
    case (Some a)
    then obtain cpNote2 pf where a: "grown = Some (cpNote2, pf)" by (cases a) auto
    from g [OF a] obtain cp2 where cp2: "honest_growth ex sg tk cp1 cpNote2 cp2 pf" by blast
    then have "0 < cp_N cp2" using pos by (simp add: honest_growth_def)
    then show ?thesis
      using replay_grow [OF w2(2,3) codec pos cp2, of "[?stale]"] fits a by (auto simp: record_plan_steps)
  qed
  then obtain w3 n h where w3: "replay ex mem_store_ops tk w2 ?rest =
      map (Some \<circ> fst \<circ> snd) ?mid @ replay ex mem_store_ops tk w3 [?stale]"
    "ready mem_store_ops sg w3" "known_tree w3 (cp_Origin cp1) n h" "0 < n" by blast
  have "replay ex mem_store_ops tk w3 [?stale] = Some StatusConflict # replay ex mem_store_ops tk w3 []"
    by (rule replay_refused [OF w3(2) codec s1]) (use known_latest [OF w3(3)] w3(4) pos f(1) in auto)
  with w1(1) w2(1) w3(1) show ?thesis
    by (simp add: record_plan_steps first_steps_def stale_step_def del: replay.simps(2))
qed

text \<open>The plan that a run recorded, from the laws of the libraries.\<close>

lemma recorded_plan_replays:
  assumes lc: "newLogClient lib net url (lg_Origin log) (lg_VKey log) = Inr lc"
    and c1: "lc_checkpoint ex lib net lc n0 = (Inr (cp1, cpNote1), n1)"
    and c2: "record_wait ex lib net ck lc cp1 deadline poll cp1 cpNote1 n1 = Some (Inr (cp2, cpNote2), n2)"
    and gr: "growth net lc cp1 cp2 cpNote2 n2 grown"
    and w: "ready mem_store_ops sg w" "map_of (w_store w) (lg_Origin log) = None" and codec: "hash_codec_ok ex"
    and sub: "submittable ex lib (lg_VKey log) sg tk" and pos: "0 < cp_N cp1"
    and honest: "\<And>prf. grown = Some (cpNote2, prf) \<Longrightarrow> honest_proof ex cp1 cp2 prf"
    and fits: "\<forall>(name, status, body) \<in> set (record_plan ex cp1 cpNote1 grown). length body \<le> MaxRequestSize"
  shows "replay ex mem_store_ops tk w (map (snd \<circ> snd) (record_plan ex cp1 cpNote1 grown)) =
    map (Some \<circ> fst \<circ> snd) (record_plan ex cp1 cpNote1 grown)"
proof -
  have client: "lc_vkey lc = lg_VKey log" "lc_origin lc = lg_Origin log" using lc by (auto simp: newLogClient_def split: if_splits)
  note signable = fetched_signable [OF sub [folded client(1)]]
  have "map_of (w_store w) (cp_Origin cp1) = None" using w(2) signable(2) [OF c1 pos] client(2) by simp
  then show ?thesis
  proof (rule plan_replays [OF w(1) _ codec signable(1) [OF c1 pos] _ fits])
    fix cpNote pf assume g: "grown = Some (cpNote, pf)"
    then have n: "cp_N cp1 < cp_N cp2" and same: "cpNote = cpNote2" using gr by (auto simp: growth_def split: if_splits)
    then obtain n3 where c2': "lc_checkpoint ex lib net lc n3 = (Inr (cp2, cpNote2), n2)" using record_wait_fetched [OF c2] by auto
    have "0 < cp_N cp2" using n pos by simp
    with signable [OF c2'] signable(2) [OF c1 pos] n honest g same show "\<exists>cp2. honest_growth ex sg tk cp1 cpNote cp2 pf"
      by (auto simp: honest_growth_def honest_proof_def)
  qed
qed

text \<open>
  For an empty log the last fixture is wrong: the witness knows size 0, so the stale replay is not stale and is
  answered with 200, not with the recorded 409.
\<close>

lemma empty_log_stale_step:
  assumes w: "ready mem_store_ops sg w" "known_tree w (cp_Origin cp1) 0 (cp_Hash cp1)" and codec: "hash_codec_ok ex"
    and cp: "note_text cpNote1 = Some txt" "ex_ParseCheckpoint ex txt = Some cp1" "cp_N cp1 = 0" "cp_Hash cp1 = emptyTreeHash ex"
    and sign: "ex_Sign ex sg (tk_now tk (cp_Origin cp1)) txt = Some snote"
    and fits: "length (EncodeAddCheckpoint ex 0 [] cpNote1) \<le> MaxRequestSize"
  shows "replay ex mem_store_ops tk w (map (snd \<circ> snd) (stale_step ex cpNote1)) = [Some StatusOK]"
proof -
  have sub: "submission ex (EncodeAddCheckpoint ex 0 [] cpNote1) \<lparr>rq_old = 0, rq_proof = [], rq_note = cpNote1\<rparr> txt cp1"
    by (rule encoded_submission [OF codec]) (use cp fits in auto)
  from mem_accepted [OF w(1) sub _ _ sign] known_latest [OF w(2)] cp(3,4) show ?thesis
    by (auto simp: stale_step_def consistency_check_def)
qed

end
