(* ===== verification/Feed.thy ===== *)
theory Feed
  imports Host_Clients
begin

text \<open>
  \<open>vitrum feed\<close> (\<^verbatim>\<open>cmd/vitrum/feed.go\<close>): fetch the latest checkpoint of a log, submit it with old size 0, and
  when the witness answers with a conflict, submit it again with the size the witness reported and the
  consistency proof for it. A reported success means that the log's signature, the witness's answer and its
  cosignature were checked; against the model of the witness the command succeeds.
\<close>

record feed_flags =
  ff_witness :: bytes
  ff_logName :: bytes
  ff_log :: bytes
  ff_origin :: bytes
  ff_logKey :: bytes
  ff_witnessKey :: bytes

datatype feed_error =
    FeedResolve resolve_error
  | FeedLog log_error
  | FetchingWitnessKey
  | NoWitnessKey
  | BadWitnessKey
  | SubmitFailed
  | UnparseableConflict bytes
  | WitnessAhead int int
  | WitnessRefused nat bytes
  | FeedCosignature cosig_error

record feed_report =
  fo_Origin :: bytes
  fo_Size :: int
  fo_Name :: bytes
  fo_Time :: int

text \<open>The verifier key of the flag, or the one that \<open>/healthz\<close> reports.\<close>

definition feed_witness_key :: "note_lib \<Rightarrow> 'n network \<Rightarrow> bytes \<Rightarrow> bytes \<Rightarrow> ('n, feed_error, bytes) io" where
  "feed_witness_key lib net wc flag =
     (if flag \<noteq> [] then io_return flag
      else io_bind (io_call FetchingWitnessKey (wc_healthz lib net wc)) (\<lambda>health.
             case health ''witness_key'' of
               None \<Rightarrow> io_fail NoWitnessKey
             | Some k \<Rightarrow> if k = [] then io_fail NoWitnessKey else io_return k))"

text \<open>The second submission after a conflict.\<close>

definition feed_retry :: "external \<Rightarrow> 'n network \<Rightarrow> bytes \<Rightarrow> log_client \<Rightarrow> checkpoint \<Rightarrow> bytes \<Rightarrow> bytes \<Rightarrow>
    ('n, feed_error, nat \<times> bytes) io" where
  "feed_retry ex net wc lc cp cpNote resp =
     (case parse_int64 (TrimSpace resp) of
        None \<Rightarrow> io_fail (UnparseableConflict resp)
      | Some known \<Rightarrow>
          if cp_N cp < known then io_fail (WitnessAhead known (cp_N cp))
          else io_bind (if 0 < known \<and> known < cp_N cp
                        then io_map_error FeedLog (lc_proveTree net lc cp known) else io_return []) (\<lambda>prf.
               io_call SubmitFailed (wc_submit net wc (EncodeAddCheckpoint ex known prf cpNote))))"

definition cmdFeed :: "external \<Rightarrow> note_lib \<Rightarrow> 'n network \<Rightarrow> fetchable_log list \<Rightarrow> feed_flags \<Rightarrow>
    ('n, feed_error, feed_report) io" where
  "cmdFeed ex lib net logs fl =
     io_bind (io_map_error FeedResolve (io_of (resolveLog logs (ff_logName fl) (ff_log fl) (ff_origin fl) (ff_logKey fl)))) (\<lambda>logCfg.
     io_bind (io_map_error FeedLog (io_of (newLogClient lib net (fl_MonitoringURL logCfg) (lg_Origin (fl_Log logCfg))
       (lg_VKey (fl_Log logCfg))))) (\<lambda>lc.
     let wc = newWitnessClient (ff_witness fl) in
     io_bind (feed_witness_key lib net wc (ff_witnessKey fl)) (\<lambda>witnessKey.
     case nt_NewCosigVerifier lib witnessKey of
       None \<Rightarrow> io_fail BadWitnessKey
     | Some vname \<Rightarrow>
     io_bind (io_map_error FeedLog (lc_checkpoint ex lib net lc)) (\<lambda>(cp, cpNote).
     io_bind (io_call SubmitFailed (wc_submit net wc (EncodeAddCheckpoint ex 0 [] cpNote))) (\<lambda>(code, resp).
     io_bind (if code = StatusConflict then feed_retry ex net wc lc cp cpNote resp else io_return (code, resp)) (\<lambda>(code, resp).
     if code \<noteq> StatusOK then io_fail (WitnessRefused code resp)
     else io_bind (io_map_error FeedCosignature (io_of (verifyCosignature lib witnessKey vname cpNote resp))) (\<lambda>ts.
     io_return \<lparr>fo_Origin = cp_Origin cp, fo_Size = cp_N cp, fo_Name = vname, fo_Time = ts\<rparr>)))))))"

section \<open>What a success means\<close>

text \<open>
  A report of success is sound whatever the network did: the log key signed a note with exactly the reported
  origin and size, the origin is the expected one, and the witness key's signature with the reported time is
  on that note.
\<close>

lemma cmdFeed_InrD:
  assumes "cmdFeed ex lib net logs fl n = (Inr rep, n')"
  shows "\<exists>logCfg key cpNote cosig txt cp sigs sig.
    resolveLog logs (ff_logName fl) (ff_log fl) (ff_origin fl) (ff_logKey fl) = Inr logCfg
    \<and> nt_Open lib (lg_VKey (fl_Log logCfg)) cpNote = Some txt \<and> ex_ParseCheckpoint ex txt = Some cp
    \<and> cp_Origin cp = lg_Origin (fl_Log logCfg) \<and> fo_Origin rep = cp_Origin cp \<and> fo_Size rep = cp_N cp
    \<and> nt_NewCosigVerifier lib key = Some (fo_Name rep) \<and> (ff_witnessKey fl \<noteq> [] \<longrightarrow> key = ff_witnessKey fl)
    \<and> nt_OpenCosig lib key (cpNote @ cosig) = Some sigs \<and> (fo_Name rep, sig) \<in> set sigs
    \<and> nt_Timestamp lib sig = Some (fo_Time rep)"
proof -
  from assms obtain logCfg lc key vname cp cpNote code resp n1 n2 n3 where
    r: "resolveLog logs (ff_logName fl) (ff_log fl) (ff_origin fl) (ff_logKey fl) = Inr logCfg"
    and c: "newLogClient lib net (fl_MonitoringURL logCfg) (lg_Origin (fl_Log logCfg)) (lg_VKey (fl_Log logCfg)) = Inr lc"
    and k: "feed_witness_key lib net (newWitnessClient (ff_witness fl)) (ff_witnessKey fl) n = (Inr key, n1)"
    and v: "nt_NewCosigVerifier lib key = Some vname"
    and l: "lc_checkpoint ex lib net lc n1 = (Inr (cp, cpNote), n2)"
    and s: "verifyCosignature lib key vname cpNote resp = Inr (fo_Time rep)"
    and o: "fo_Origin rep = cp_Origin cp" "fo_Size rep = cp_N cp" "fo_Name rep = vname"
    by (auto simp: cmdFeed_def io_simps Let_def split: option.splits prod.splits if_splits)
  have "lc_origin lc = lg_Origin (fl_Log logCfg)" "lc_vkey lc = lg_VKey (fl_Log logCfg)"
    using c by (auto simp: newLogClient_def split: if_splits)
  moreover have "ff_witnessKey fl \<noteq> [] \<longrightarrow> key = ff_witnessKey fl"
    using k by (auto simp: feed_witness_key_def)
  ultimately show ?thesis
    using r v o lc_checkpoint_InrD [OF l] verifyCosignature_InrD [OF s] by metis
qed

section \<open>Against the witness\<close>

text \<open>The log's endpoint serves a checkpoint note that its key signed.\<close>

definition log_serves :: "external \<Rightarrow> note_lib \<Rightarrow> 'n network \<Rightarrow> fetchable_log \<Rightarrow> checkpoint \<Rightarrow> bytes \<Rightarrow> bytes \<Rightarrow> 'n \<Rightarrow> bool" where
  "log_serves ex lib net l cp cpNote txt n \<longleftrightarrow>
     nt_NewVerifier lib (lg_VKey (fl_Log l)) \<and> hn_NewTileFetcher net (fl_MonitoringURL l)
     \<and> hn_ReadEndpoint net (fl_MonitoringURL l) ''checkpoint'' n = (Some cpNote, n)
     \<and> nt_Open lib (lg_VKey (fl_Log l)) cpNote = Some txt \<and> note_text cpNote = Some txt
     \<and> ex_ParseCheckpoint ex txt = Some cp \<and> cp_Origin cp = lg_Origin (fl_Log l)"

text \<open>
  The checkpoint extends what the witness has: the empty tree, the same tree, or a larger one with the given proof.
\<close>

definition honest_update :: "external \<Rightarrow> checkpoint \<Rightarrow> int \<Rightarrow> bytes \<Rightarrow> bytes list \<Rightarrow> bool" where
  "honest_update ex cp known knownHash prf \<longleftrightarrow>
     0 \<le> known \<and> known \<le> cp_N cp \<and> cp_N cp < 2 ^ 63
     \<and> (cp_N cp = 0 \<longrightarrow> cp_Hash cp = emptyTreeHash ex)
     \<and> (0 < known \<and> known = cp_N cp \<longrightarrow> prf = [] \<and> cp_Hash cp = knownHash)
     \<and> (known = 0 \<longrightarrow> prf = [])
     \<and> (0 < known \<and> known < cp_N cp \<longrightarrow> proof_ok prf \<and> ex_CheckTree ex prf (cp_N cp) (cp_Hash cp) known knownHash)"

lemma honest_update_check:
  "honest_update ex cp known knownHash prf \<Longrightarrow>
   consistency_check ex \<lparr>rq_old = known, rq_proof = prf, rq_note = cpNote\<rparr> cp knownHash \<and> proof_ok prf"
  by (auto simp: honest_update_def consistency_check_def)

lemma newWitnessClient_idem [simp]: "newWitnessClient (newWitnessClient base) = newWitnessClient base"
proof -
  have "dropWhile P (dropWhile P xs) = dropWhile P xs" for P and xs :: bytes
    by (induction xs) auto
  then show ?thesis by (simp add: newWitnessClient_def trim_slashes_def)
qed

text \<open>
  With the size the witness really has, a submission of an honest update is accepted and answered with the
  signature lines.
\<close>

lemma submit_update:
  assumes "witness_behind ex sops tk net wc" "ready sops sg w" "hash_codec_ok ex"
    "honest_update ex cp (latest sops w (cp_Origin cp)) (latest_hash sops w (cp_Origin cp)) prf"
    "note_text cpNote = Some txt" "ex_ParseCheckpoint ex txt = Some cp"
    "length (EncodeAddCheckpoint ex (latest sops w (cp_Origin cp)) prf cpNote) \<le> MaxRequestSize"
    "ex_Sign ex sg (tk_now tk (cp_Origin cp)) txt = Some snote" "length snote \<le> maxWitnessResponse"
    "st_PutBatch sops (tk_env tk) (w_store w)
       [(cp_Origin cp, \<lparr>ls_Size = cp_N cp, ls_Hash = cp_Hash cp, ls_Note = snote\<rparr>)] = (None, st')"
  shows "\<exists>w'. wc_submit net wc (EncodeAddCheckpoint ex (latest sops w (cp_Origin cp)) prf cpNote) w =
      (Some (StatusOK, drop (length txt + 1) snote), w') \<and> w_store w' = st' \<and> w_signer w' = Some sg \<and> idle w'"
proof -
  let ?old = "latest sops w (cp_Origin cp)"
  have chk: "consistency_check ex \<lparr>rq_old = ?old, rq_proof = prf, rq_note = cpNote\<rparr> cp (latest_hash sops w (cp_Origin cp))"
    "proof_ok prf" using honest_update_check [OF assms(4)] by blast+
  have sub: "submission ex (EncodeAddCheckpoint ex ?old prf cpNote) \<lparr>rq_old = ?old, rq_proof = prf, rq_note = cpNote\<rparr> txt cp"
    using assms(4) by (intro encoded_submission [OF assms(3) chk(2) _ _ _ assms(5-7)]) (auto simp: honest_update_def)
  from exchange_accepted [OF assms(2) sub _ _ assms(8,10)] chk(1) obtain w' where
    e: "exchange ex sops tk w (EncodeAddCheckpoint ex ?old prf cpNote) =
      (Some \<lparr>hr_code = StatusOK, hr_content_type = text_plain, hr_body = drop (length txt + 1) snote\<rparr>, w')"
    and w': "w_store w' = st'" "w_signer w' = Some sg" "idle w'" by auto
  from submit_exchange [OF assms(1) e] assms(9) w' show ?thesis by auto
qed

lemma submit_conflict:
  assumes "witness_behind ex sops tk net wc" "ready sops sg w" "hash_codec_ok ex"
    "0 < latest sops w (cp_Origin cp)" "latest sops w (cp_Origin cp) \<le> cp_N cp" "cp_N cp < 2 ^ 63"
    "note_text cpNote = Some txt" "ex_ParseCheckpoint ex txt = Some cp"
    "length (EncodeAddCheckpoint ex 0 [] cpNote) \<le> MaxRequestSize"
  shows "wc_submit net wc (EncodeAddCheckpoint ex 0 [] cpNote) w =
      (Some (StatusConflict, format_int (latest sops w (cp_Origin cp)) @ [nl]), w)"
proof -
  have sub: "submission ex (EncodeAddCheckpoint ex 0 [] cpNote) \<lparr>rq_old = 0, rq_proof = [], rq_note = cpNote\<rparr> txt cp"
    using assms(4-9) by (intro encoded_submission [OF assms(3)]) auto
  have e: "exchange ex sops tk w (EncodeAddCheckpoint ex 0 [] cpNote) =
    (Some \<lparr>hr_code = StatusConflict, hr_content_type = ''text/x.tlog.size'',
       hr_body = format_int (latest sops w (cp_Origin cp)) @ [nl]\<rparr>, w)"
    using assms(4) by (intro exchange_conflict [OF assms(2) sub]) simp
  from submit_exchange [OF assms(1) e] conflict_body_short [of "latest sops w (cp_Origin cp)"] assms(4-6)
  show ?thesis by simp
qed

text \<open>The two submissions of \<open>feed\<close>, together.\<close>

lemma feed_submits:
  assumes behind: "witness_behind ex sops tk net wc" and ready: "ready sops sg w" and codec: "hash_codec_ok ex"
    and upd: "honest_update ex cp (latest sops w (cp_Origin cp)) (latest_hash sops w (cp_Origin cp)) prf"
    and prove: "0 < latest sops w (cp_Origin cp) \<Longrightarrow> latest sops w (cp_Origin cp) < cp_N cp \<Longrightarrow>
      hn_ProveTree net (lc_prefix lc) cp (latest sops w (cp_Origin cp)) w = (Some prf, w)"
    and cpn: "note_text cpNote = Some txt" "ex_ParseCheckpoint ex txt = Some cp"
    and fits: "length (EncodeAddCheckpoint ex 0 [] cpNote) \<le> MaxRequestSize"
      "length (EncodeAddCheckpoint ex (latest sops w (cp_Origin cp)) prf cpNote) \<le> MaxRequestSize"
    and sign: "ex_Sign ex sg (tk_now tk (cp_Origin cp)) txt = Some snote" "length snote \<le> maxWitnessResponse"
    and put: "st_PutBatch sops (tk_env tk) (w_store w)
       [(cp_Origin cp, \<lparr>ls_Size = cp_N cp, ls_Hash = cp_Hash cp, ls_Note = snote\<rparr>)] = (None, st')"
  shows "\<exists>w'. io_bind (io_call SubmitFailed (wc_submit net wc (EncodeAddCheckpoint ex 0 [] cpNote))) (\<lambda>(code, resp).
      if code = StatusConflict then feed_retry ex net wc lc cp cpNote resp else io_return (code, resp)) w =
    (Inr (StatusOK, drop (length txt + 1) snote), w') \<and> w_store w' = st'"
proof -
  let ?known = "latest sops w (cp_Origin cp)"
  have range: "0 \<le> ?known" "?known \<le> cp_N cp" "cp_N cp < 2 ^ 63" using upd by (auto simp: honest_update_def)
  obtain w' where ok: "wc_submit net wc (EncodeAddCheckpoint ex ?known prf cpNote) w =
      (Some (StatusOK, drop (length txt + 1) snote), w')" "w_store w' = st'"
    using submit_update [OF behind ready codec upd cpn fits(2) sign put] by blast
  show ?thesis
  proof (cases "?known = 0")
    case True
    then have "prf = []" using upd by (simp add: honest_update_def)
    with ok True show ?thesis by (auto simp: io_bind_def io_call_def)
  next
    case False
    then have known: "0 < ?known" using range(1) by simp
    have prv: "(if 0 < ?known \<and> ?known < cp_N cp
        then io_map_error FeedLog (lc_proveTree net lc cp ?known) else io_return []) w = (Inr prf, w)"
      using prove known upd range(2) by (auto simp: lc_proveTree_def io_map_error_def io_call_def honest_update_def)
    have "feed_retry ex net wc lc cp cpNote (format_int ?known @ [nl]) w = (Inr (StatusOK, drop (length txt + 1) snote), w')"
      using conflict_body_parses [OF range(1)] range ok(1)
      by (simp add: feed_retry_def io_bind_def prv io_call_def)
    then show ?thesis
      using submit_conflict [OF behind ready codec known range(2,3) cpn fits(1)] ok(2)
      by (simp add: io_bind_def io_call_def)
  qed
qed

text \<open>The whole command.\<close>

lemma feed_passes:
  assumes "resolveLog logs (ff_logName fl) (ff_log fl) (ff_origin fl) (ff_logKey fl) = Inr logCfg"
    "log_serves ex lib net logCfg cp cpNote txt w" "ff_witnessKey fl \<noteq> []" "nt_NewCosigVerifier lib (ff_witnessKey fl) = Some vname"
    "witness_behind ex sops tk net (newWitnessClient (ff_witness fl))" "ready sops sg w" "hash_codec_ok ex"
    "honest_update ex cp (latest sops w (cp_Origin cp)) (latest_hash sops w (cp_Origin cp)) pf"
    "0 < latest sops w (cp_Origin cp) \<Longrightarrow> latest sops w (cp_Origin cp) < cp_N cp \<Longrightarrow>
      hn_ProveTree net (fl_MonitoringURL logCfg) cp (latest sops w (cp_Origin cp)) w = (Some pf, w)"
    "length (EncodeAddCheckpoint ex 0 [] cpNote) \<le> MaxRequestSize"
    "length (EncodeAddCheckpoint ex (latest sops w (cp_Origin cp)) pf cpNote) \<le> MaxRequestSize"
    "ex_Sign ex sg (tk_now tk (cp_Origin cp)) txt = Some snote" "length snote \<le> maxWitnessResponse"
    "st_PutBatch sops (tk_env tk) (w_store w)
       [(cp_Origin cp, \<lparr>ls_Size = cp_N cp, ls_Hash = cp_Hash cp, ls_Note = snote\<rparr>)] = (None, st')"
    "verifyCosignature lib (ff_witnessKey fl) vname cpNote (drop (length txt + 1) snote) = Inr ts"
  shows "\<exists>w'. cmdFeed ex lib net logs fl w =
      (Inr \<lparr>fo_Origin = cp_Origin cp, fo_Size = cp_N cp, fo_Name = vname, fo_Time = ts\<rparr>, w') \<and> w_store w' = st'"
proof -
  let ?lc = "\<lparr>lc_origin = lg_Origin (fl_Log logCfg), lc_vkey = lg_VKey (fl_Log logCfg), lc_prefix = fl_MonitoringURL logCfg\<rparr>"
  note l = assms(2) [unfolded log_serves_def]
  have new: "newLogClient lib net (fl_MonitoringURL logCfg) (lg_Origin (fl_Log logCfg)) (lg_VKey (fl_Log logCfg)) = Inr ?lc"
    using l by (simp add: newLogClient_def)
  have fetch: "lc_checkpoint ex lib net ?lc w = (Inr (cp, cpNote), w)"
    using l by (simp add: lc_checkpoint_def io_bind_def io_call_def)
  have "\<exists>w'. io_bind (io_call SubmitFailed (wc_submit net (newWitnessClient (ff_witness fl)) (EncodeAddCheckpoint ex 0 [] cpNote))) (\<lambda>(code, resp).
      if code = StatusConflict then feed_retry ex net (newWitnessClient (ff_witness fl)) ?lc cp cpNote resp else io_return (code, resp)) w =
    (Inr (StatusOK, drop (length txt + 1) snote), w') \<and> w_store w' = st'"
    by (rule feed_submits [OF assms(5-8) _ _ _ assms(10-14)]) (use l assms(9) in simp_all)
  then obtain w' code resp w1 where "w_store w' = st'"
    "io_call SubmitFailed (wc_submit net (newWitnessClient (ff_witness fl)) (EncodeAddCheckpoint ex 0 [] cpNote)) w = (Inr (code, resp), w1)"
    "(if code = StatusConflict then feed_retry ex net (newWitnessClient (ff_witness fl)) ?lc cp cpNote resp else io_return (code, resp)) w1 =
      (Inr (StatusOK, drop (length txt + 1) snote), w')"
    by (auto simp: io_simps)
  then show ?thesis using assms(1,3,4,15) new fetch
    by (auto simp: cmdFeed_def io_bind_def io_map_error_def feed_witness_key_def Let_def)
qed

end
