(* ===== verification/Testlog.thy ===== *)
theory Testlog
  imports Host_IO
begin

text \<open>
  The in-memory log of \<^verbatim>\<open>internal/testlog\<close>: a deterministic source of randomness and a log that keeps the stored
  hashes of its Merkle tree. The tree functions of \<open>x/mod/sumdb/tlog\<close> read the log back through
  \<open>ReadHashes\<close>, so they are parameters that take the reader. The seed reader is shown to deliver one fixed
  stream, however it is read.
\<close>

section \<open>SeedReader\<close>

record seed_reader =
  sr_seed :: bytes
  sr_ctr :: u64
  sr_buf :: bytes

definition NewSeedReader :: "bytes \<Rightarrow> seed_reader" where
  "NewSeedReader seed = \<lparr>sr_seed = seed, sr_ctr = 0, sr_buf = []\<rparr>"

definition put_u64_be :: "u64 \<Rightarrow> bytes" where
  "put_u64_be x = rev (put_le 8 (unat x))"

definition seed_block :: "(bytes \<Rightarrow> bytes) \<Rightarrow> bytes \<Rightarrow> u64 \<Rightarrow> bytes" where
  "seed_block sha seed ctr = sha (seed @ put_u64_be ctr)"

text \<open>The loop of \<open>Read\<close>; it would not end for a hash function with empty results.\<close>

partial_function (option) seed_fill :: "(bytes \<Rightarrow> bytes) \<Rightarrow> nat \<Rightarrow> seed_reader \<Rightarrow> seed_reader option" where
  "seed_fill sha n r =
     (if length (sr_buf r) < n
      then seed_fill sha n (r\<lparr>sr_ctr := sr_ctr r + 1, sr_buf := sr_buf r @ seed_block sha (sr_seed r) (sr_ctr r)\<rparr>)
      else Some r)"

definition seed_Read :: "(bytes \<Rightarrow> bytes) \<Rightarrow> nat \<Rightarrow> seed_reader \<Rightarrow> (bytes \<times> seed_reader) option" where
  "seed_Read sha n r =
     (case seed_fill sha n r of
        None \<Rightarrow> None
      | Some r' \<Rightarrow> Some (take n (sr_buf r'), r'\<lparr>sr_buf := drop n (sr_buf r')\<rparr>))"

fun seed_reads :: "(bytes \<Rightarrow> bytes) \<Rightarrow> nat list \<Rightarrow> seed_reader \<Rightarrow> (bytes list \<times> seed_reader) option" where
  "seed_reads sha [] r = Some ([], r)"
| "seed_reads sha (n # ns) r =
     (case seed_Read sha n r of
        None \<Rightarrow> None
      | Some (p, r') \<Rightarrow> (case seed_reads sha ns r' of None \<Rightarrow> None | Some (ps, r'') \<Rightarrow> Some (p # ps, r'')))"

text \<open>The reference: the concatenation of the first \<open>k\<close> blocks.\<close>

definition seed_stream :: "(bytes \<Rightarrow> bytes) \<Rightarrow> bytes \<Rightarrow> nat \<Rightarrow> bytes" where
  "seed_stream sha seed k = concat (map (\<lambda>i. seed_block sha seed (of_nat i)) [0..<k])"

lemma seed_stream_Suc: "seed_stream sha seed (Suc k) = seed_stream sha seed k @ seed_block sha seed (of_nat k)"
  by (simp add: seed_stream_def)

lemma length_seed_stream: "\<forall>x. length (sha x) = 32 \<Longrightarrow> length (seed_stream sha seed k) = 32 * k"
  by (induction k) (simp_all add: seed_stream_def seed_block_def)

lemma seed_stream_prefix: "k \<le> m \<Longrightarrow> \<exists>t. seed_stream sha seed m = seed_stream sha seed k @ t"
  by (induction m) (auto simp: seed_stream_Suc le_Suc_eq)

text \<open>The reader has consumed \<open>c\<close> bytes of the first \<open>k\<close> blocks.\<close>

definition seed_at :: "(bytes \<Rightarrow> bytes) \<Rightarrow> bytes \<Rightarrow> nat \<Rightarrow> seed_reader \<Rightarrow> bool" where
  "seed_at sha seed c r \<longleftrightarrow>
     (\<exists>k. sr_seed r = seed \<and> sr_ctr r = of_nat k \<and> c \<le> length (seed_stream sha seed k)
        \<and> sr_buf r = drop c (seed_stream sha seed k))"

lemma seed_at_New: "seed_at sha seed 0 (NewSeedReader seed)"
  by (auto simp: seed_at_def NewSeedReader_def seed_stream_def intro: exI [of _ 0])

lemma seed_fill_ends:
  assumes "\<forall>x. length (sha x) = 32" "seed_at sha seed c r"
  shows "\<exists>r'. seed_fill sha n r = Some r' \<and> seed_at sha seed c r' \<and> n \<le> length (sr_buf r')"
  using assms(2)
proof (induction "n - length (sr_buf r)" arbitrary: r rule: less_induct)
  case less
  show ?case
  proof (cases "length (sr_buf r) < n")
    case True
    let ?r = "r\<lparr>sr_ctr := sr_ctr r + 1, sr_buf := sr_buf r @ seed_block sha (sr_seed r) (sr_ctr r)\<rparr>"
    from less.prems obtain k where k: "sr_seed r = seed" "sr_ctr r = of_nat k" "c \<le> length (seed_stream sha seed k)"
      "sr_buf r = drop c (seed_stream sha seed k)" unfolding seed_at_def by blast
    then have "seed_at sha seed c ?r"
      unfolding seed_at_def by (intro exI [of _ "Suc k"]) (simp add: seed_stream_Suc)
    moreover have "n - length (sr_buf ?r) < n - length (sr_buf r)" using True assms(1) by (simp add: seed_block_def)
    ultimately show ?thesis using less.hyps True by (subst seed_fill.simps) simp
  next
    case False
    then show ?thesis using less.prems by (subst seed_fill.simps) simp
  qed
qed

lemma seed_Read_stream:
  assumes sha: "\<forall>x. length (sha x) = 32" and r: "seed_at sha seed c r"
  shows "\<exists>p r'. seed_Read sha n r = Some (p, r') \<and> seed_at sha seed (c + n) r' \<and> length p = n
    \<and> take (c + n) (seed_stream sha seed (c + n)) = take c (seed_stream sha seed (c + n)) @ p"
proof -
  from seed_fill_ends [OF sha r, of n] obtain r1 k where r1: "seed_fill sha n r = Some r1" "n \<le> length (sr_buf r1)"
    "sr_seed r1 = seed" "sr_ctr r1 = of_nat k" "c \<le> length (seed_stream sha seed k)"
    "sr_buf r1 = drop c (seed_stream sha seed k)" unfolding seed_at_def by blast
  have len: "c + n \<le> length (seed_stream sha seed k)" using r1(2,5,6) by simp
  have at: "seed_at sha seed (c + n) (r1\<lparr>sr_buf := drop n (sr_buf r1)\<rparr>)"
    unfolding seed_at_def using r1 len by (intro exI [of _ k]) (simp add: add.commute)
  have same: "take m (seed_stream sha seed (c + n)) = take m (seed_stream sha seed k)" if "m \<le> c + n" for m
  proof (cases "k \<le> c + n")
    case True
    then show ?thesis using seed_stream_prefix [of k "c + n" sha seed] that len by auto
  next
    case False
    then obtain t where "seed_stream sha seed k = seed_stream sha seed (c + n) @ t"
      using seed_stream_prefix [of "c + n" k sha seed] by auto
    then show ?thesis using that length_seed_stream [OF sha, of seed "c + n"] by simp
  qed
  have "take (c + n) (seed_stream sha seed (c + n)) = take c (seed_stream sha seed (c + n)) @ take n (sr_buf r1)"
    unfolding same [OF order_refl] same [OF le_add1] r1(6) by (rule take_add)
  then show ?thesis using r1(1,2) at by (simp add: seed_Read_def)
qed

lemma seed_reads_stream:
  assumes sha: "\<forall>x. length (sha x) = 32" and r: "seed_at sha seed c r"
  shows "\<exists>ps r'. seed_reads sha ns r = Some (ps, r') \<and> map length ps = ns
    \<and> take (c + sum_list ns) (seed_stream sha seed (c + sum_list ns)) =
        take c (seed_stream sha seed (c + sum_list ns)) @ concat ps"
  using r
proof (induction ns arbitrary: c r)
  case (Cons n ns)
  from seed_Read_stream [OF sha Cons.prems, of n] obtain p r1 where r1: "seed_Read sha n r = Some (p, r1)"
    "seed_at sha seed (c + n) r1" "length p = n"
    "take (c + n) (seed_stream sha seed (c + n)) = take c (seed_stream sha seed (c + n)) @ p" by blast
  from Cons.IH [OF r1(2)] obtain ps r2 where r2: "seed_reads sha ns r1 = Some (ps, r2)" "map length ps = ns"
    "take (c + n + sum_list ns) (seed_stream sha seed (c + n + sum_list ns)) =
      take (c + n) (seed_stream sha seed (c + n + sum_list ns)) @ concat ps" by blast
  from seed_stream_prefix [of "c + n" "c + n + sum_list ns" sha seed] obtain t where
    t: "seed_stream sha seed (c + n + sum_list ns) = seed_stream sha seed (c + n) @ t" by auto
  have "c + n \<le> length (seed_stream sha seed (c + n))" using length_seed_stream [OF sha, of seed "c + n"] by simp
  then have "take (c + n) (seed_stream sha seed (c + n + sum_list ns)) = take c (seed_stream sha seed (c + n + sum_list ns)) @ p"
    using r1(4) by (simp add: t)
  with r1(1,3) r2 show ?case by (simp add: add.assoc)
qed simp

section \<open>The log\<close>

type_synonym hash_reader = "int list \<Rightarrow> bytes list option"

record tlog_lib =
  tl_StoredHashes :: "int \<Rightarrow> bytes \<Rightarrow> hash_reader \<Rightarrow> bytes list option"
  tl_TreeHash :: "int \<Rightarrow> hash_reader \<Rightarrow> bytes option"
  tl_ProveTree :: "int \<Rightarrow> int \<Rightarrow> hash_reader \<Rightarrow> bytes list option"
  tl_GenerateKey :: "seed_reader \<Rightarrow> bytes \<Rightarrow> (bytes \<times> bytes) option"
  tl_NewSigner :: "bytes \<Rightarrow> bool"
  tl_CheckpointString :: "checkpoint \<Rightarrow> bytes"
  tl_Sign :: "bytes \<Rightarrow> bytes \<Rightarrow> bytes option"

record test_log =
  tg_Origin :: bytes
  tg_Skey :: bytes
  tg_VKey :: bytes
  tg_hashes :: "bytes list"
  tg_n :: int

definition tg_New :: "tlog_lib \<Rightarrow> seed_reader \<Rightarrow> bytes \<Rightarrow> test_log option" where
  "tg_New lib rand origin =
     (case tl_GenerateKey lib rand origin of
        None \<Rightarrow> None
      | Some (skey, vkey) \<Rightarrow>
          if \<not> tl_NewSigner lib skey then None
          else Some \<lparr>tg_Origin = origin, tg_Skey = skey, tg_VKey = vkey, tg_hashes = [], tg_n = 0\<rparr>)"

definition tg_Size :: "test_log \<Rightarrow> int" where
  "tg_Size l = tg_n l"

fun tg_ReadHashes :: "test_log \<Rightarrow> hash_reader" where
  "tg_ReadHashes l [] = Some []"
| "tg_ReadHashes l (x # xs) =
     (if x < 0 \<or> int (length (tg_hashes l)) \<le> x then None
      else map_option ((#) (tg_hashes l ! nat x)) (tg_ReadHashes l xs))"

text \<open>A failure leaves the records appended so far in the log.\<close>

fun tg_Append :: "tlog_lib \<Rightarrow> bytes list \<Rightarrow> test_log \<Rightarrow> bool \<times> test_log" where
  "tg_Append lib [] l = (True, l)"
| "tg_Append lib (rec # recs) l =
     (case tl_StoredHashes lib (tg_n l) rec (tg_ReadHashes l) of
        None \<Rightarrow> (False, l)
      | Some hs \<Rightarrow> tg_Append lib recs (l\<lparr>tg_hashes := tg_hashes l @ hs, tg_n := tg_n l + 1\<rparr>))"

definition tg_TreeHash :: "tlog_lib \<Rightarrow> test_log \<Rightarrow> int \<Rightarrow> bytes option" where
  "tg_TreeHash lib l n = tl_TreeHash lib n (tg_ReadHashes l)"

definition tg_CheckpointWithHash :: "tlog_lib \<Rightarrow> test_log \<Rightarrow> int \<Rightarrow> bytes \<Rightarrow> (bytes \<times> checkpoint) option" where
  "tg_CheckpointWithHash lib l n root =
     (let cp = \<lparr>cp_Origin = tg_Origin l, cp_N = n, cp_Hash = root\<rparr>
      in case tl_Sign lib (tg_Skey l) (tl_CheckpointString lib cp) of None \<Rightarrow> None | Some snote \<Rightarrow> Some (snote, cp))"

definition tg_Checkpoint :: "tlog_lib \<Rightarrow> test_log \<Rightarrow> (bytes \<times> checkpoint) option" where
  "tg_Checkpoint lib l =
     (case tg_TreeHash lib l (tg_n l) of None \<Rightarrow> None | Some th \<Rightarrow> tg_CheckpointWithHash lib l (tg_n l) th)"

definition tg_ProveTree :: "tlog_lib \<Rightarrow> test_log \<Rightarrow> int \<Rightarrow> int \<Rightarrow> bytes list option" where
  "tg_ProveTree lib l newSize oldSize = tl_ProveTree lib newSize oldSize (tg_ReadHashes l)"

lemma tg_ReadHashes_iff:
  "tg_ReadHashes l xs = Some hs \<longleftrightarrow>
     (\<forall>x \<in> set xs. 0 \<le> x \<and> x < int (length (tg_hashes l))) \<and> hs = map (\<lambda>x. tg_hashes l ! nat x) xs"
  by (induction xs arbitrary: hs) (auto simp: not_less)

lemma tg_Append_grows:
  "tg_Append lib recs l = (ok, l') \<Longrightarrow> (\<exists>hs. tg_hashes l' = tg_hashes l @ hs) \<and> tg_n l \<le> tg_n l'
     \<and> (ok \<longrightarrow> tg_n l' = tg_n l + int (length recs))
     \<and> tg_Origin l' = tg_Origin l \<and> tg_Skey l' = tg_Skey l \<and> tg_VKey l' = tg_VKey l"
proof (induction recs arbitrary: l)
  case (Cons x recs)
  then show ?case by (fastforce split: option.splits)
qed auto

text \<open>What was readable stays readable, with the same hashes: the log is append-only.\<close>

lemma tg_Append_reads:
  assumes "tg_Append lib recs l = (ok, l')" "tg_ReadHashes l xs = Some hs"
  shows "tg_ReadHashes l' xs = Some hs"
proof -
  from tg_Append_grows [OF assms(1)] obtain new where h: "tg_hashes l' = tg_hashes l @ new" by blast
  with assms(2) show ?thesis by (auto simp: tg_ReadHashes_iff nth_append)
qed

end
