(* ===== verification/Selftest.thy ===== *)
theory Selftest
  imports Feed Testlog
begin

text \<open>
  \<open>vitrum selftest\<close> (\<^verbatim>\<open>cmd/vitrum/selftest.go\<close>): build a synthetic log and check that a witness accepts its
  checkpoints, answers a stale replay with the size it has, and refuses a fork. A pass is shown to mean what the
  command prints, and the model of the witness is shown to pass.
\<close>

section \<open>The command\<close>

datatype selftest_error =
    NewLogFailed
  | HealthzFailed
  | NoReportedKey
  | BadVerifierKey
  | LogFailed
  | StepTransport bytes
  | StepStatus bytes nat nat bytes
  | StaleBody bytes int
  | CosignatureFailed cosig_error

definition newSelftestLog :: "tlog_lib \<Rightarrow> bytes \<Rightarrow> bytes \<Rightarrow> test_log option" where
  "newSelftestLog tlib seed origin = tg_New tlib (NewSeedReader seed) origin"

definition signAs :: "tlog_lib \<Rightarrow> test_log \<Rightarrow> int \<Rightarrow> bytes \<Rightarrow> (bytes \<times> checkpoint) option" where
  "signAs tlib l n root =
     (let cp = \<lparr>cp_Origin = tg_Origin l, cp_N = n, cp_Hash = root\<rparr>
      in case tl_Sign tlib (tg_Skey l) (tl_CheckpointString tlib cp) of None \<Rightarrow> None | Some snote \<Rightarrow> Some (snote, cp))"

text \<open>\<open>bytes.Replace(s, old, new, 1)\<close>.\<close>

definition replace_first :: "bytes \<Rightarrow> bytes \<Rightarrow> bytes \<Rightarrow> bytes" where
  "replace_first s a b =
     (case index_of a s of None \<Rightarrow> s | Some i \<Rightarrow> take i s @ b @ drop (i + length a) s)"

text \<open>The closure \<open>must\<close>.\<close>

definition must :: "external \<Rightarrow> 'n network \<Rightarrow> bytes \<Rightarrow> bytes \<Rightarrow> nat \<Rightarrow> int \<Rightarrow> bytes list \<Rightarrow> bytes \<Rightarrow>
    ('n, selftest_error, bytes) io" where
  "must ex net wc step expected old prf cpNote =
     io_bind (io_call (StepTransport step) (wc_submit net wc (EncodeAddCheckpoint ex old prf cpNote))) (\<lambda>(code, resp).
       if code \<noteq> expected then io_fail (StepStatus step code expected resp) else io_return resp)"

definition of_option :: "'e \<Rightarrow> 'a option \<Rightarrow> ('n, 'e, 'a) io" where
  "of_option e x = (case x of None \<Rightarrow> io_fail e | Some y \<Rightarrow> io_return y)"

lemma of_option_Inr [io_simps]: "of_option e x n = (Inr y, n') \<longleftrightarrow> x = Some y \<and> n' = n"
  by (auto simp: of_option_def split: option.split)

lemma of_option_Some [simp]: "of_option e (Some y) = io_return y"
  by (simp add: of_option_def)

text \<open>The verifier of the key that \<open>/healthz\<close> reports.\<close>

definition selftest_verifier :: "note_lib \<Rightarrow> 'n network \<Rightarrow> bytes \<Rightarrow> ('n, selftest_error, bytes \<times> bytes) io" where
  "selftest_verifier lib net wc =
     io_bind (io_call HealthzFailed (wc_healthz lib net wc)) (\<lambda>health.
       case health ''witness_key'' of
         None \<Rightarrow> io_fail NoReportedKey
       | Some k \<Rightarrow>
           if k = [] then io_fail NoReportedKey
           else io_bind (of_option BadVerifierKey (nt_NewCosigVerifier lib k)) (\<lambda>vname. io_return (k, vname)))"

text \<open>First sighting, its cosignature, and the stale replay.\<close>

definition selftest_first :: "external \<Rightarrow> note_lib \<Rightarrow> 'n network \<Rightarrow> bytes \<Rightarrow> bytes \<Rightarrow> bytes \<Rightarrow> bytes \<Rightarrow> checkpoint \<Rightarrow>
    ('n, selftest_error, unit) io" where
  "selftest_first ex lib net wc vkey vname cp1Note cp1 =
     io_bind (must ex net wc ''submit@3, first sighting'' StatusOK 0 [] cp1Note) (\<lambda>cosig.
     io_bind (io_map_error CosignatureFailed (io_of (verifyCosignature lib vkey vname cp1Note cosig))) (\<lambda>ts.
     io_bind (must ex net wc ''stale replay'' StatusConflict 0 [] cp1Note) (\<lambda>resp.
       if TrimSpace resp \<noteq> format_int (cp_N cp1) then io_fail (StaleBody resp (cp_N cp1)) else io_return ())))"

text \<open>The fork: another log with the same origin, its root signed with the key of the first.\<close>

definition selftest_fork :: "tlog_lib \<Rightarrow> bytes \<Rightarrow> test_log \<Rightarrow> checkpoint \<Rightarrow> (bytes list \<times> bytes) option" where
  "selftest_fork tlib seed l cp2 =
     (case newSelftestLog tlib (seed @ ''-fork'') SelftestOrigin of
        None \<Rightarrow> None
      | Some fork0 \<Rightarrow>
          let fork = snd (tg_Append tlib [''a'', ''b'', ''X'', ''d'', ''e'', ''f'', ''g''] fork0) in
          case tg_Checkpoint tlib fork of
            None \<Rightarrow> None
          | Some (_, forkCP) \<Rightarrow>
              (case tg_ProveTree tlib fork (cp_N forkCP) (cp_N cp2) of
                 None \<Rightarrow> None
               | Some forkProof \<Rightarrow>
                   (case tg_TreeHash tlib fork (cp_N forkCP) of
                      None \<Rightarrow> None
                    | Some forkRoot \<Rightarrow>
                        (case signAs tlib l (cp_N forkCP) forkRoot of
                           None \<Rightarrow> None | Some (forkNote, _) \<Rightarrow> Some (forkProof, forkNote)))))"

definition unknown_origin :: bytes where "unknown_origin = ''unknown.invalid/log''"

definition cmdSelftest :: "external \<Rightarrow> note_lib \<Rightarrow> tlog_lib \<Rightarrow> 'n network \<Rightarrow> bytes \<Rightarrow> bytes \<Rightarrow> ('n, selftest_error, unit) io" where
  "cmdSelftest ex lib tlib net witnessURL seed =
     io_bind (of_option NewLogFailed (newSelftestLog tlib seed SelftestOrigin)) (\<lambda>l0.
     let wc = newWitnessClient witnessURL in
     io_bind (selftest_verifier lib net wc) (\<lambda>(vkey, vname).
     case tg_Append tlib [''a'', ''b'', ''c''] l0 of
       (False, _) \<Rightarrow> io_fail LogFailed
     | (True, l1) \<Rightarrow>
     io_bind (of_option LogFailed (tg_Checkpoint tlib l1)) (\<lambda>(cp1Note, cp1).
     io_bind (selftest_first ex lib net wc vkey vname cp1Note cp1) (\<lambda>_.
     case tg_Append tlib [''d'', ''e''] l1 of
       (False, _) \<Rightarrow> io_fail LogFailed
     | (True, l2) \<Rightarrow>
     io_bind (of_option LogFailed (tg_Checkpoint tlib l2)) (\<lambda>(cp2Note, cp2).
     io_bind (of_option LogFailed (tg_ProveTree tlib l2 (cp_N cp2) (cp_N cp1))) (\<lambda>prf.
     io_bind (must ex net wc ''submit@5, growth with proof'' StatusOK (cp_N cp1) prf cp2Note) (\<lambda>_.
     io_bind (of_option LogFailed (selftest_fork tlib seed l2 cp2)) (\<lambda>(forkProof, forkNote).
     io_bind (must ex net wc ''fork growth refused'' StatusUnprocessableEntity (cp_N cp2) forkProof forkNote) (\<lambda>_.
     let freshNote = replace_first cp1Note SelftestOrigin unknown_origin in
     io_bind (must ex net wc ''fresh origin cosigned on first sighting'' StatusOK 0 [] freshNote) (\<lambda>freshCosig.
     io_bind (io_map_error CosignatureFailed (io_of (verifyCosignature lib vkey vname freshNote freshCosig))) (\<lambda>_.
     io_return ())))))))))))"

section \<open>Against the witness\<close>

text \<open>The values of one run: the logs, their notes and checkpoints, and the proofs.\<close>

record selftest_run =
  sn_l0 :: test_log
  sn_l1 :: test_log
  sn_l2 :: test_log
  sn_note1 :: bytes
  sn_cp1 :: checkpoint
  sn_note2 :: bytes
  sn_cp2 :: checkpoint
  sn_proof :: "bytes list"
  sn_forkProof :: "bytes list"
  sn_forkNote :: bytes
  sn_forkCP :: checkpoint
  sn_freshCP :: checkpoint

definition sn_freshNote :: "selftest_run \<Rightarrow> bytes" where
  "sn_freshNote d = replace_first (sn_note1 d) SelftestOrigin unknown_origin"

definition log_built :: "tlog_lib \<Rightarrow> bytes \<Rightarrow> selftest_run \<Rightarrow> bool" where
  "log_built tlib seed d \<longleftrightarrow>
     newSelftestLog tlib seed SelftestOrigin = Some (sn_l0 d)
     \<and> tg_Append tlib [''a'', ''b'', ''c''] (sn_l0 d) = (True, sn_l1 d)
     \<and> tg_Checkpoint tlib (sn_l1 d) = Some (sn_note1 d, sn_cp1 d)
     \<and> tg_Append tlib [''d'', ''e''] (sn_l1 d) = (True, sn_l2 d)
     \<and> tg_Checkpoint tlib (sn_l2 d) = Some (sn_note2 d, sn_cp2 d)
     \<and> tg_ProveTree tlib (sn_l2 d) (cp_N (sn_cp2 d)) (cp_N (sn_cp1 d)) = Some (sn_proof d)
     \<and> selftest_fork tlib seed (sn_l2 d) (sn_cp2 d) = Some (sn_forkProof d, sn_forkNote d)"

text \<open>A note with its checkpoint, which the witness signs and whose cosignature verifies.\<close>

definition cosignable :: "external \<Rightarrow> note_lib \<Rightarrow> signer_ref \<Rightarrow> 'e tick \<Rightarrow> bytes \<Rightarrow> bytes \<Rightarrow> bytes \<Rightarrow> checkpoint \<Rightarrow> bool" where
  "cosignable ex lib sg tk vkey vname cpNote cp \<longleftrightarrow>
     (\<exists>txt snote ts. note_text cpNote = Some txt \<and> ex_ParseCheckpoint ex txt = Some cp
        \<and> ex_Sign ex sg (tk_now tk (cp_Origin cp)) txt = Some snote \<and> length snote \<le> maxWitnessResponse
        \<and> verifyCosignature lib vkey vname cpNote (drop (length txt + 1) snote) = Inr ts)"

definition run_ok :: "external \<Rightarrow> note_lib \<Rightarrow> signer_ref \<Rightarrow> 'e tick \<Rightarrow> bytes \<Rightarrow> bytes \<Rightarrow> selftest_run \<Rightarrow> bool" where
  "run_ok ex lib sg tk vkey vname d \<longleftrightarrow>
     cosignable ex lib sg tk vkey vname (sn_note1 d) (sn_cp1 d) \<and> cosignable ex lib sg tk vkey vname (sn_note2 d) (sn_cp2 d)
     \<and> cosignable ex lib sg tk vkey vname (sn_freshNote d) (sn_freshCP d)
     \<and> cp_Origin (sn_cp2 d) = cp_Origin (sn_cp1 d) \<and> cp_Origin (sn_forkCP d) = cp_Origin (sn_cp1 d)
     \<and> cp_Origin (sn_freshCP d) \<noteq> cp_Origin (sn_cp1 d) \<and> 0 < cp_N (sn_cp1 d) \<and> cp_N (sn_cp1 d) < cp_N (sn_cp2 d)
     \<and> cp_N (sn_cp2 d) < cp_N (sn_forkCP d) \<and> cp_N (sn_forkCP d) < 2 ^ 63
     \<and> 0 < cp_N (sn_freshCP d) \<and> cp_N (sn_freshCP d) < 2 ^ 63
     \<and> proof_ok (sn_proof d) \<and> proof_ok (sn_forkProof d)
     \<and> ex_CheckTree ex (sn_proof d) (cp_N (sn_cp2 d)) (cp_Hash (sn_cp2 d)) (cp_N (sn_cp1 d)) (cp_Hash (sn_cp1 d))
     \<and> \<not> ex_CheckTree ex (sn_forkProof d) (cp_N (sn_forkCP d)) (cp_Hash (sn_forkCP d)) (cp_N (sn_cp2 d)) (cp_Hash (sn_cp2 d))
     \<and> (\<exists>txt. note_text (sn_forkNote d) = Some txt \<and> ex_ParseCheckpoint ex txt = Some (sn_forkCP d))
     \<and> length (EncodeAddCheckpoint ex 0 [] (sn_note1 d)) \<le> MaxRequestSize
     \<and> length (EncodeAddCheckpoint ex (cp_N (sn_cp1 d)) (sn_proof d) (sn_note2 d)) \<le> MaxRequestSize
     \<and> length (EncodeAddCheckpoint ex (cp_N (sn_cp2 d)) (sn_forkProof d) (sn_forkNote d)) \<le> MaxRequestSize
     \<and> length (EncodeAddCheckpoint ex 0 [] (sn_freshNote d)) \<le> MaxRequestSize"

lemma must_accepted:
  assumes "witness_behind ex mem_store_ops tk net wc" "ready mem_store_ops sg w" "hash_codec_ok ex"
    "cosignable ex lib sg tk vkey vname cpNote cp" "proof_ok prf" "0 \<le> old" "old \<le> cp_N cp" "cp_N cp < 2 ^ 63"
    "old = latest mem_store_ops w (cp_Origin cp)"
    "consistency_check ex \<lparr>rq_old = old, rq_proof = prf, rq_note = cpNote\<rparr> cp (latest_hash mem_store_ops w (cp_Origin cp))"
    "length (EncodeAddCheckpoint ex old prf cpNote) \<le> MaxRequestSize"
  shows "\<exists>w' cosig ts st. must ex net wc step StatusOK old prf cpNote w = (Inr cosig, w')
    \<and> verifyCosignature lib vkey vname cpNote cosig = Inr ts \<and> ready mem_store_ops sg w'
    \<and> map_of (w_store w') = (map_of (w_store w))(cp_Origin cp \<mapsto> st) \<and> ls_Size st = cp_N cp \<and> ls_Hash st = cp_Hash cp"
proof -
  from assms(4) obtain tx snote ts where t: "note_text cpNote = Some tx" "ex_ParseCheckpoint ex tx = Some cp"
    "ex_Sign ex sg (tk_now tk (cp_Origin cp)) tx = Some snote" "length snote \<le> maxWitnessResponse"
    "verifyCosignature lib vkey vname cpNote (drop (length tx + 1) snote) = Inr ts" by (auto simp: cosignable_def)
  have sub: "submission ex (EncodeAddCheckpoint ex old prf cpNote) \<lparr>rq_old = old, rq_proof = prf, rq_note = cpNote\<rparr> tx cp"
    by (rule encoded_submission [OF assms(3,5-8) t(1,2) assms(11)])
  from mem_accepted [OF assms(2) sub _ _ t(3)] assms(9,10) obtain w' where
    e: "exchange ex mem_store_ops tk w (EncodeAddCheckpoint ex old prf cpNote) =
      (Some \<lparr>hr_code = StatusOK, hr_content_type = text_plain, hr_body = drop (length tx + 1) snote\<rparr>, w')"
    and w': "ready mem_store_ops sg w'" "map_of (w_store w') = (map_of (w_store w))
        (cp_Origin cp \<mapsto> \<lparr>ls_Size = cp_N cp, ls_Hash = cp_Hash cp, ls_Note = snote\<rparr>)" by auto
  have "must ex net wc step StatusOK old prf cpNote w = (Inr (drop (length tx + 1) snote), w')"
    using submit_exchange [OF assms(1) e] t(4) by (simp add: must_def io_bind_def io_call_def)
  with t(5) w' show ?thesis by fastforce
qed

lemma must_refused:
  assumes "witness_behind ex mem_store_ops tk net wc" "ready mem_store_ops sg w" "hash_codec_ok ex"
    "note_text cpNote = Some txt" "ex_ParseCheckpoint ex txt = Some cp" "proof_ok prf" "0 \<le> old" "old \<le> cp_N cp" "cp_N cp < 2 ^ 63"
    "old = latest mem_store_ops w (cp_Origin cp)"
    "\<not> consistency_check ex \<lparr>rq_old = old, rq_proof = prf, rq_note = cpNote\<rparr> cp (latest_hash mem_store_ops w (cp_Origin cp))"
    "length (EncodeAddCheckpoint ex old prf cpNote) \<le> MaxRequestSize"
  shows "must ex net wc step StatusUnprocessableEntity old prf cpNote w = (Inr [], w)"
proof -
  have sub: "submission ex (EncodeAddCheckpoint ex old prf cpNote) \<lparr>rq_old = old, rq_proof = prf, rq_note = cpNote\<rparr> txt cp"
    by (rule encoded_submission [OF assms(3,6-9,4,5,12)])
  from exchange_refused [OF assms(2) sub] assms(10,11) have
    e: "exchange ex mem_store_ops tk w (EncodeAddCheckpoint ex old prf cpNote) =
      (Some \<lparr>hr_code = StatusUnprocessableEntity, hr_content_type = text_plain, hr_body = []\<rparr>, w)" by simp
  show ?thesis using submit_exchange [OF assms(1) e] by (simp add: must_def io_bind_def io_call_def)
qed

text \<open>The first part on a witness that does not know the log.\<close>

lemma selftest_first_passes:
  assumes behind: "witness_behind ex mem_store_ops tk net wc" and w: "ready mem_store_ops sg w"
    "map_of (w_store w) (cp_Origin cp1) = None" and codec: "hash_codec_ok ex"
    and cp1: "cosignable ex lib sg tk vkey vname cp1Note cp1" "0 < cp_N cp1" "cp_N cp1 < 2 ^ 63"
    and fits: "length (EncodeAddCheckpoint ex 0 [] cp1Note) \<le> MaxRequestSize"
  shows "\<exists>w'. selftest_first ex lib net wc vkey vname cp1Note cp1 w = (Inr (), w') \<and> ready mem_store_ops sg w'
    \<and> known_tree w' (cp_Origin cp1) (cp_N cp1) (cp_Hash cp1)
    \<and> (\<forall>o'. o' \<noteq> cp_Origin cp1 \<longrightarrow> map_of (w_store w') o' = map_of (w_store w) o')"
proof -
  have "\<exists>w' cosig ts st. must ex net wc ''submit@3, first sighting'' StatusOK 0 [] cp1Note w = (Inr cosig, w')
    \<and> verifyCosignature lib vkey vname cp1Note cosig = Inr ts \<and> ready mem_store_ops sg w'
    \<and> map_of (w_store w') = (map_of (w_store w))(cp_Origin cp1 \<mapsto> st) \<and> ls_Size st = cp_N cp1 \<and> ls_Hash st = cp_Hash cp1"
    by (rule must_accepted [OF behind w(1) codec cp1(1) proof_ok_Nil _ _ cp1(3) _ _ fits])
      (use w(2) cp1(2) in \<open>simp_all add: mem_latest consistency_check_def\<close>)
  then obtain w' cosig ts st where m: "must ex net wc ''submit@3, first sighting'' StatusOK 0 [] cp1Note w = (Inr cosig, w')"
    "verifyCosignature lib vkey vname cp1Note cosig = Inr ts" "ready mem_store_ops sg w'"
    "map_of (w_store w') = (map_of (w_store w))(cp_Origin cp1 \<mapsto> st)" "ls_Size st = cp_N cp1" "ls_Hash st = cp_Hash cp1"
    by blast
  have known: "known_tree w' (cp_Origin cp1) (cp_N cp1) (cp_Hash cp1)" using m(4-6) by (simp add: known_tree_def)
  from cp1(1) obtain tx where t: "note_text cp1Note = Some tx" "ex_ParseCheckpoint ex tx = Some cp1"
    by (auto simp: cosignable_def)
  have "wc_submit net wc (EncodeAddCheckpoint ex 0 [] cp1Note) w' = (Some (StatusConflict, format_int (cp_N cp1) @ [nl]), w')"
    using submit_conflict [OF behind m(3) codec _ _ cp1(3) t fits] known_latest [OF known] cp1(2) by simp
  then have "must ex net wc ''stale replay'' StatusConflict 0 [] cp1Note w' = (Inr (format_int (cp_N cp1) @ [nl]), w')"
    by (simp add: must_def io_bind_def io_call_def)
  moreover have "TrimSpace (format_int (cp_N cp1) @ [nl]) = format_int (cp_N cp1)"
    by (rule TrimSpace_graphic(1) [OF list_all_graphic_format_int format_int_not_Nil])
  ultimately have "selftest_first ex lib net wc vkey vname cp1Note cp1 w = (Inr (), w')"
    using m(1,2) by (simp add: selftest_first_def io_bind_def io_map_error_def)
  with m(3,4) known show ?thesis by auto
qed

text \<open>The whole command on a witness that knows neither of the two origins.\<close>

lemma selftest_passes_aux:
  assumes behind: "witness_behind ex mem_store_ops tk net (newWitnessClient url)" and w: "ready mem_store_ops sg w"
    "map_of (w_store w) (cp_Origin (sn_cp1 d)) = None" "map_of (w_store w) (cp_Origin (sn_freshCP d)) = None"
    and codec: "hash_codec_ok ex" and built: "log_built tlib seed d" and ok: "run_ok ex lib sg tk vkey vname d"
    and key: "selftest_verifier lib net (newWitnessClient url) w = (Inr (vkey, vname), w)"
  shows "\<exists>w'. cmdSelftest ex lib tlib net url seed w = (Inr (), w') \<and> ready mem_store_ops sg w'
    \<and> known_tree w' (cp_Origin (sn_cp1 d)) (cp_N (sn_cp2 d)) (cp_Hash (sn_cp2 d))
    \<and> known_tree w' (cp_Origin (sn_freshCP d)) (cp_N (sn_freshCP d)) (cp_Hash (sn_freshCP d))"
proof -
  let ?wc = "newWitnessClient url"
  note b = built [unfolded log_built_def]
  note k = ok [unfolded run_ok_def]
  from k obtain ftx where ftx: "note_text (sn_forkNote d) = Some ftx" "ex_ParseCheckpoint ex ftx = Some (sn_forkCP d)" by blast
  have "\<exists>w1. selftest_first ex lib net ?wc vkey vname (sn_note1 d) (sn_cp1 d) w = (Inr (), w1) \<and> ready mem_store_ops sg w1
      \<and> known_tree w1 (cp_Origin (sn_cp1 d)) (cp_N (sn_cp1 d)) (cp_Hash (sn_cp1 d))
      \<and> (\<forall>o'. o' \<noteq> cp_Origin (sn_cp1 d) \<longrightarrow> map_of (w_store w1) o' = map_of (w_store w) o')"
    by (rule selftest_first_passes [OF behind w(1,2) codec]) (use k in simp_all)
  then obtain w1 where w1: "selftest_first ex lib net ?wc vkey vname (sn_note1 d) (sn_cp1 d) w = (Inr (), w1)"
    "ready mem_store_ops sg w1" "known_tree w1 (cp_Origin (sn_cp1 d)) (cp_N (sn_cp1 d)) (cp_Hash (sn_cp1 d))"
    "map_of (w_store w1) (cp_Origin (sn_freshCP d)) = None" using k w(3) by auto
  note l1 = known_latest [OF w1(3)]
  have "\<exists>w2 cosig ts st. must ex net ?wc ''submit@5, growth with proof'' StatusOK (cp_N (sn_cp1 d)) (sn_proof d) (sn_note2 d) w1 = (Inr cosig, w2)
    \<and> verifyCosignature lib vkey vname (sn_note2 d) cosig = Inr ts \<and> ready mem_store_ops sg w2
    \<and> map_of (w_store w2) = (map_of (w_store w1))(cp_Origin (sn_cp2 d) \<mapsto> st) \<and> ls_Size st = cp_N (sn_cp2 d) \<and> ls_Hash st = cp_Hash (sn_cp2 d)"
    by (rule must_accepted [OF behind w1(2) codec]) (use k l1 in \<open>simp_all add: consistency_check_def\<close>)
  then obtain w2 cosig2 where w2: "must ex net ?wc ''submit@5, growth with proof'' StatusOK (cp_N (sn_cp1 d)) (sn_proof d) (sn_note2 d) w1 = (Inr cosig2, w2)"
    "ready mem_store_ops sg w2" "known_tree w2 (cp_Origin (sn_cp1 d)) (cp_N (sn_cp2 d)) (cp_Hash (sn_cp2 d))"
    "map_of (w_store w2) (cp_Origin (sn_freshCP d)) = None" using k w1(4) by (auto simp: known_tree_def)
  note l2 = known_latest [OF w2(3)]
  have w3: "must ex net ?wc ''fork growth refused'' StatusUnprocessableEntity (cp_N (sn_cp2 d)) (sn_forkProof d) (sn_forkNote d) w2 = (Inr [], w2)"
    by (rule must_refused [OF behind w2(2) codec ftx]) (use k l2 in \<open>simp_all add: consistency_check_def\<close>)
  have "\<exists>w4 cosig ts st. must ex net ?wc ''fresh origin cosigned on first sighting'' StatusOK 0 [] (sn_freshNote d) w2 = (Inr cosig, w4)
    \<and> verifyCosignature lib vkey vname (sn_freshNote d) cosig = Inr ts \<and> ready mem_store_ops sg w4
    \<and> map_of (w_store w4) = (map_of (w_store w2))(cp_Origin (sn_freshCP d) \<mapsto> st) \<and> ls_Size st = cp_N (sn_freshCP d) \<and> ls_Hash st = cp_Hash (sn_freshCP d)"
    by (rule must_accepted [OF behind w2(2) codec]) (use k w2(4) in \<open>simp_all add: mem_latest consistency_check_def\<close>)
  then obtain w4 cosig4 ts4 where w4: "must ex net ?wc ''fresh origin cosigned on first sighting'' StatusOK 0 [] (sn_freshNote d) w2 = (Inr cosig4, w4)"
    "verifyCosignature lib vkey vname (sn_freshNote d) cosig4 = Inr ts4" "ready mem_store_ops sg w4"
    "known_tree w4 (cp_Origin (sn_cp1 d)) (cp_N (sn_cp2 d)) (cp_Hash (sn_cp2 d))"
    "known_tree w4 (cp_Origin (sn_freshCP d)) (cp_N (sn_freshCP d)) (cp_Hash (sn_freshCP d))"
    using k w2(3) by (auto simp: known_tree_def)
  have "cmdSelftest ex lib tlib net url seed w = (Inr (), w4)"
    using b key w1(1) w2(1) w3 w4(1,2)
    by (simp add: cmdSelftest_def io_bind_def io_map_error_def Let_def sn_freshNote_def)
  with w4 show ?thesis by blast
qed

section \<open>The libraries\<close>

text \<open>A log that was built from an empty one by appending records.\<close>

definition holds_records :: "tlog_lib \<Rightarrow> bytes list \<Rightarrow> test_log \<Rightarrow> bool" where
  "holds_records tlib recs l \<longleftrightarrow> (\<exists>l0. tg_hashes l0 = [] \<and> tg_n l0 = 0 \<and> tg_Append tlib recs l0 = (True, l))"

text \<open>
  \<open>x/mod/sumdb/tlog\<close>, with \<open>mth\<close> the Merkle tree hash of a list of records: on the hashes that \<open>StoredHashes\<close> has
  produced so far it computes the next ones, \<open>TreeHash\<close> is the tree hash of the records, and \<open>ProveTree\<close> returns a proof that
  \<open>CheckTree\<close> accepts for the tree of the first records.
\<close>

definition merkle_ok :: "external \<Rightarrow> tlog_lib \<Rightarrow> (bytes list \<Rightarrow> bytes) \<Rightarrow> bool" where
  "merkle_ok ex tlib mth \<longleftrightarrow>
     (\<forall>recs. length (mth recs) = 32) \<and>
     (\<forall>recs l. holds_records tlib recs l \<longrightarrow> length recs < 2 ^ 32 \<longrightarrow>
        (\<forall>r. tl_StoredHashes tlib (tg_n l) r (tg_ReadHashes l) \<noteq> None)
        \<and> (recs \<noteq> [] \<longrightarrow> tl_TreeHash tlib (tg_n l) (tg_ReadHashes l) = Some (mth recs))
        \<and> (\<forall>old. 0 < old \<longrightarrow> old < length recs \<longrightarrow>
             (\<exists>prf. tl_ProveTree tlib (tg_n l) (int old) (tg_ReadHashes l) = Some prf \<and> proof_ok prf
                \<and> ex_CheckTree ex prf (tg_n l) (mth recs) (int old) (mth (take old recs)))))"

text \<open>
  What \<open>CheckTree\<close> establishes, for two given lists of records: the smaller tree is a prefix of the larger one. (For all lists
  at once this would say that the hash function has no collisions.)
\<close>

definition prefix_sound :: "external \<Rightarrow> (bytes list \<Rightarrow> bytes) \<Rightarrow> bytes list \<Rightarrow> bytes list \<Rightarrow> bool" where
  "prefix_sound ex mth recs recs' \<longleftrightarrow>
     (\<forall>prf. ex_CheckTree ex prf (int (length recs')) (mth recs') (int (length recs)) (mth recs) \<longrightarrow> take (length recs) recs' = recs)"

definition plain_cp :: "checkpoint \<Rightarrow> bool" where
  "plain_cp cp \<longleftrightarrow> cp_Origin cp \<noteq> [] \<and> list_all graphic (cp_Origin cp) \<and> 0 \<le> cp_N cp \<and> cp_N cp < 2 ^ 63 \<and> length (cp_Hash cp) = 32"

text \<open>
  The checkpoint format of \<open>torchwood\<close> (origin, size and base64 hash, a line each), which it parses back, and signed
  notes: \<open>note.Sign\<close> appends an empty line and signature lines to the text. \<open>GenerateKey\<close> makes a key that \<open>NewSigner\<close> takes.
\<close>

definition log_notes_ok :: "external \<Rightarrow> tlog_lib \<Rightarrow> bool" where
  "log_notes_ok ex tlib \<longleftrightarrow>
     (\<forall>cp. tl_CheckpointString tlib cp =
        cp_Origin cp @ nl # format_int (cp_N cp) @ nl # ex_HashString ex (cp_Hash cp) @ [nl]) \<and>
     (\<forall>cp. plain_cp cp \<longrightarrow> ex_ParseCheckpoint ex (tl_CheckpointString tlib cp) = Some cp) \<and>
     (\<forall>h. length h = 32 \<longrightarrow> length (ex_HashString ex h) \<le> 64) \<and>
     (\<forall>rd. \<exists>skey vkey. tl_GenerateKey tlib rd SelftestOrigin = Some (skey, vkey) \<and> tl_NewSigner tlib skey
        \<and> (\<forall>cp. plain_cp cp \<longrightarrow> (\<exists>sigs. length sigs \<le> 1000 \<and>
             tl_Sign tlib skey (tl_CheckpointString tlib cp) = Some (tl_CheckpointString tlib cp @ nl # sigs))))"

text \<open>
  The cosignature key of the witness: signing the text of a checkpoint yields the text, an empty line and a line that
  verifies under the key, with a timestamp, also after the signature lines of a log.
\<close>

definition cosigner_ok :: "external \<Rightarrow> tlog_lib \<Rightarrow> note_lib \<Rightarrow> signer_ref \<Rightarrow> bytes \<Rightarrow> bytes \<Rightarrow> bool" where
  "cosigner_ok ex tlib lib sg vkey vname \<longleftrightarrow>
     (\<forall>cp t. plain_cp cp \<longrightarrow> (\<exists>cosig. ex_Sign ex sg t (tl_CheckpointString tlib cp) = Some (tl_CheckpointString tlib cp @ nl # cosig)
        \<and> length cosig \<le> 1000
        \<and> (\<forall>skey txt sigs. tl_Sign tlib skey txt = Some (txt @ nl # sigs) \<longrightarrow>
             (\<exists>sig ts. nt_OpenCosig lib vkey (tl_CheckpointString tlib cp @ nl # sigs @ cosig) = Some [(vname, sig)]
                \<and> nt_Timestamp lib sig = Some ts))))"

lemma text_ok_newline: "text_ok [nl]"
  by (auto simp: text_ok_def has_prefix_blank drop_Cons split: nat.splits)

lemma text_ok_Cons: "text_ok t \<Longrightarrow> x = nl \<longrightarrow> hd t \<noteq> nl \<Longrightarrow> text_ok (x # t)"
  by (auto simp: text_ok_def has_prefix_blank drop_Cons split: nat.splits)

lemma text_ok_line: "a \<noteq> [] \<Longrightarrow> nl \<notin> set a \<Longrightarrow> t = [] \<or> text_ok t \<and> hd t \<noteq> nl \<Longrightarrow> text_ok (a @ nl # t)"
proof (induction a)
  case (Cons x a)
  have "text_ok (nl # t)" using Cons.prems(3) text_ok_newline text_ok_Cons by fastforce
  with Cons show ?case by (cases "a = []") (auto intro: text_ok_Cons)
qed simp

lemma format_int_line: "0 \<le> n \<Longrightarrow> nl \<notin> set (format_int n) \<and> hd (format_int n @ s) \<noteq> nl"
  using list_all_graphic_format_int [of n] by (cases "format_int n") (auto simp: graphic_def list_all_iff)

lemma checkpoint_text:
  assumes "hash_codec_ok ex" "log_notes_ok ex tlib" "plain_cp cp"
  shows "note_text (tl_CheckpointString tlib cp @ nl # sigs) = Some (tl_CheckpointString tlib cp)"
    "ex_ParseCheckpoint ex (tl_CheckpointString tlib cp) = Some cp"
    "length (tl_CheckpointString tlib cp) \<le> length (cp_Origin cp) + 100"
proof -
  let ?h = "ex_HashString ex (cp_Hash cp)" and ?n = "format_int (cp_N cp)"
  have s: "tl_CheckpointString tlib cp = cp_Origin cp @ nl # ?n @ nl # ?h @ [nl]"
    using assms(2) by (simp add: log_notes_ok_def)
  have h: "?h \<noteq> []" "nl \<notin> set ?h" "length ?h \<le> 64"
    using assms by (auto simp: hash_codec_ok_def log_notes_ok_def plain_cp_def)
  have n: "nl \<notin> set ?n" "hd (?n @ t) \<noteq> nl" for t using assms(3) format_int_line by (auto simp: plain_cp_def)
  have o': "cp_Origin cp \<noteq> []" "nl \<notin> set (cp_Origin cp)"
    using assms(3) word_text_newline [OF word_text_graphic] by (auto simp: plain_cp_def)
  have "text_ok (?h @ [nl])" "hd (?h @ [nl]) \<noteq> nl" using text_ok_line [OF h(1,2), of "[]"] h hd_in_set by force+
  then have "text_ok (?n @ nl # ?h @ [nl])" using n(1) by (intro text_ok_line) simp_all
  then have "text_ok (tl_CheckpointString tlib cp)" using o' n(2) unfolding s by (intro text_ok_line) simp_all
  then show "note_text (tl_CheckpointString tlib cp @ nl # sigs) = Some (tl_CheckpointString tlib cp)" by (rule note_text_append)
  show "ex_ParseCheckpoint ex (tl_CheckpointString tlib cp) = Some cp" using assms(2,3) unfolding log_notes_ok_def by blast
  have "nat (cp_N cp) < 10 ^ Suc 18" using assms(3) by (auto simp: plain_cp_def nat_less_iff)
  from length_format_nat [OF this] have "length ?n \<le> 19" using assms(3) by (simp add: format_int_def plain_cp_def)
  then show "length (tl_CheckpointString tlib cp) \<le> length (cp_Origin cp) + 100" using h(3) by (simp add: s)
qed

text \<open>Requests of this size fit.\<close>

lemma encoded_fits:
  assumes "log_notes_ok ex tlib" "proof_ok prf" "0 \<le> old" "old < 2 ^ 63" "length cpNote \<le> 2000"
  shows "length (EncodeAddCheckpoint ex old prf cpNote) \<le> MaxRequestSize"
proof -
  have "length (concat (map (\<lambda>h. ex_HashString ex h @ [nl]) hs)) \<le> 65 * length hs" if "\<forall>h \<in> set hs. length h = 32" for hs
    using that
  proof (induction hs)
    case (Cons h hs)
    moreover have "length (ex_HashString ex h) \<le> 64" using Cons.prems assms(1) by (simp add: log_notes_ok_def)
    ultimately show ?case by simp
  qed simp
  then have "length (concat (map (\<lambda>h. ex_HashString ex h @ [nl]) prf)) \<le> 65 * 63"
    using assms(2) unfolding proof_ok_def maxProofLines_def by (meson le_trans mult_le_mono2)
  moreover have "length (format_nat (nat old)) \<le> Suc 18" by (rule length_format_nat) (use assms(3,4) in simp)
  ultimately show ?thesis using assms(3,5) by (simp add: EncodeAddCheckpoint_def MaxRequestSize_def format_int_def)
qed

lemma cosigner_cosignable:
  assumes "hash_codec_ok ex" "log_notes_ok ex tlib" "cosigner_ok ex tlib lib sg vkey vname"
    "plain_cp cp" "length (cp_Origin cp) \<le> 500" "tl_Sign tlib skey txt = Some (txt @ nl # sigs)"
  shows "cosignable ex lib sg tk vkey vname (tl_CheckpointString tlib cp @ nl # sigs) cp"
proof -
  let ?t = "tl_CheckpointString tlib cp"
  from assms(3,4,6) obtain cosig sig ts where c: "ex_Sign ex sg (tk_now tk (cp_Origin cp)) ?t = Some (?t @ nl # cosig)"
    "length cosig \<le> 1000" "nt_OpenCosig lib vkey (?t @ nl # sigs @ cosig) = Some [(vname, sig)]" "nt_Timestamp lib sig = Some ts"
    unfolding cosigner_ok_def by metis
  have "length (?t @ nl # cosig) \<le> maxWitnessResponse"
    using checkpoint_text(3) [OF assms(1,2,4)] c(2) assms(5) by (simp add: maxWitnessResponse_def)
  moreover have "verifyCosignature lib vkey vname (?t @ nl # sigs) (drop (length ?t + 1) (?t @ nl # cosig)) = Inr ts"
    using c(3,4) by (simp add: verifyCosignature_def)
  ultimately show ?thesis
    unfolding cosignable_def using checkpoint_text(1,2) [OF assms(1,2,4)] c(1) by blast
qed

section \<open>The synthetic log\<close>

lemma tg_Append_append:
  "tg_Append tlib a l = (True, l1) \<Longrightarrow> tg_Append tlib (a @ b) l = tg_Append tlib b l1"
  by (induction tlib a l rule: tg_Append.induct) (auto split: option.splits)

lemma holds_records_append:
  assumes "merkle_ok ex tlib mth" "holds_records tlib recs l" "length recs + length recs' < 2 ^ 32"
  shows "\<exists>l'. tg_Append tlib recs' l = (True, l') \<and> holds_records tlib (recs @ recs') l'"
  using assms(2,3)
proof (induction recs' arbitrary: recs l)
  case (Cons r recs')
  from Cons.prems assms(1) obtain hs where hs: "tl_StoredHashes tlib (tg_n l) r (tg_ReadHashes l) = Some hs"
    unfolding merkle_ok_def by fastforce
  let ?l = "l\<lparr>tg_hashes := tg_hashes l @ hs, tg_n := tg_n l + 1\<rparr>"
  have one: "tg_Append tlib [r] l = (True, ?l)" using hs by simp
  then have "holds_records tlib (recs @ [r]) ?l"
    using Cons.prems(1) tg_Append_append by (fastforce simp: holds_records_def)
  from Cons.IH [OF this] Cons.prems(2) show ?case using hs by simp
qed auto

lemma holds_records_size: "holds_records tlib recs l \<Longrightarrow> tg_n l = int (length recs)"
  by (auto simp: holds_records_def dest!: tg_Append_grows)

text \<open>The checkpoint of a log with some records, whoever's key signs it.\<close>

definition log_cp :: "(bytes list \<Rightarrow> bytes) \<Rightarrow> bytes \<Rightarrow> bytes list \<Rightarrow> checkpoint" where
  "log_cp mth origin recs = \<lparr>cp_Origin = origin, cp_N = int (length recs), cp_Hash = mth recs\<rparr>"

definition test_key :: "external \<Rightarrow> tlog_lib \<Rightarrow> bytes \<Rightarrow> bool" where
  "test_key ex tlib skey \<longleftrightarrow> (\<forall>cp. plain_cp cp \<longrightarrow> (\<exists>sigs. length sigs \<le> 1000 \<and>
     tl_Sign tlib skey (tl_CheckpointString tlib cp) = Some (tl_CheckpointString tlib cp @ nl # sigs)))"

lemma plain_log_cp:
  assumes "merkle_ok ex tlib mth" "list_all graphic origin" "origin \<noteq> []" "length recs < 2 ^ 32"
  shows "plain_cp (log_cp mth origin recs)"
proof -
  have "int (length recs) < 2 ^ 32" using assms(4) by (metis of_nat_less_iff of_nat_numeral of_nat_power)
  then show ?thesis using assms(1-3) by (simp add: plain_cp_def log_cp_def merkle_ok_def)
qed

lemma newSelftestLog_ok:
  assumes "log_notes_ok ex tlib"
  shows "\<exists>l. newSelftestLog tlib seed SelftestOrigin = Some l \<and> holds_records tlib [] l \<and> tg_Origin l = SelftestOrigin
    \<and> test_key ex tlib (tg_Skey l)"
proof -
  from assms obtain skey vkey where "tl_GenerateKey tlib (NewSeedReader seed) SelftestOrigin = Some (skey, vkey)"
    "tl_NewSigner tlib skey" "test_key ex tlib skey" unfolding log_notes_ok_def test_key_def by metis
  then show ?thesis by (simp add: newSelftestLog_def tg_New_def holds_records_def)
qed

lemma test_log_checkpoint:
  assumes "merkle_ok ex tlib mth" "holds_records tlib recs l" "tg_Origin l = SelftestOrigin" "test_key ex tlib (tg_Skey l)"
    "recs \<noteq> []" "length recs < 2 ^ 32"
  shows "\<exists>sigs. length sigs \<le> 1000
    \<and> tl_Sign tlib (tg_Skey l) (tl_CheckpointString tlib (log_cp mth SelftestOrigin recs)) =
        Some (tl_CheckpointString tlib (log_cp mth SelftestOrigin recs) @ nl # sigs)
    \<and> tg_Checkpoint tlib l = Some (tl_CheckpointString tlib (log_cp mth SelftestOrigin recs) @ nl # sigs, log_cp mth SelftestOrigin recs)
    \<and> tg_TreeHash tlib l (int (length recs)) = Some (mth recs)"
proof -
  have n: "tg_n l = int (length recs)" using assms(2) by (rule holds_records_size)
  have root: "tg_TreeHash tlib l (int (length recs)) = Some (mth recs)"
    using assms(1,2,5,6) n unfolding merkle_ok_def tg_TreeHash_def by metis
  have "plain_cp (log_cp mth SelftestOrigin recs)"
    by (rule plain_log_cp [OF assms(1)]) (use assms(6) in \<open>simp_all add: SelftestOrigin_def graphic_def\<close>)
  with assms(4) obtain sigs where "length sigs \<le> 1000"
    "tl_Sign tlib (tg_Skey l) (tl_CheckpointString tlib (log_cp mth SelftestOrigin recs)) =
        Some (tl_CheckpointString tlib (log_cp mth SelftestOrigin recs) @ nl # sigs)" unfolding test_key_def by blast
  with root n assms(3) show ?thesis
    by (intro exI [of _ sigs]) (simp add: tg_Checkpoint_def tg_CheckpointWithHash_def log_cp_def Let_def)
qed

lemma test_log_proof:
  assumes "merkle_ok ex tlib mth" "holds_records tlib recs l" "0 < old" "old < length recs" "length recs < 2 ^ 32"
  shows "\<exists>prf. tg_ProveTree tlib l (int (length recs)) (int old) = Some prf \<and> proof_ok prf
    \<and> ex_CheckTree ex prf (int (length recs)) (mth recs) (int old) (mth (take old recs))"
  using assms holds_records_size [OF assms(2)] unfolding merkle_ok_def tg_ProveTree_def by metis

lemma tg_Append_fields:
  "tg_Append tlib recs l = (True, l') \<Longrightarrow> tg_Origin l' = tg_Origin l \<and> tg_Skey l' = tg_Skey l"
  by (drule tg_Append_grows) simp

text \<open>The checkpoint of the other origin: replacing the first occurrence of the origin replaces the first line.\<close>

lemma fresh_text:
  assumes "log_notes_ok ex tlib"
  shows "replace_first (tl_CheckpointString tlib (log_cp mth SelftestOrigin recs) @ t) SelftestOrigin unknown_origin =
    tl_CheckpointString tlib (log_cp mth unknown_origin recs) @ t"
proof -
  have "index_of SelftestOrigin (SelftestOrigin @ u) = Some 0" for u
    by (rule index_of_eqI) simp_all
  then show ?thesis using assms by (simp add: replace_first_def log_notes_ok_def log_cp_def)
qed

text \<open>What the fork of the log delivers: the tree of other records, signed with the key of the first log.\<close>

lemma selftest_fork_ok:
  assumes m: "merkle_ok ex tlib mth" and nt: "log_notes_ok ex tlib" and k: "test_key ex tlib (tg_Skey l)" "tg_Origin l = SelftestOrigin"
    and cp2: "cp_N cp2 = 5"
  shows "\<exists>prf sigs. let fork = log_cp mth SelftestOrigin [''a'', ''b'', ''X'', ''d'', ''e'', ''f'', ''g''] in
    selftest_fork tlib seed l cp2 = Some (prf, tl_CheckpointString tlib fork @ nl # sigs) \<and> proof_ok prf \<and> length sigs \<le> 1000"
proof -
  let ?recs = "[''a'', ''b'', ''X'', ''d'', ''e'', ''f'', ''g'']"
  obtain f0 where f0: "newSelftestLog tlib (seed @ ''-fork'') SelftestOrigin = Some f0" "holds_records tlib [] f0"
    "tg_Origin f0 = SelftestOrigin" "test_key ex tlib (tg_Skey f0)"
    using newSelftestLog_ok [OF nt] by blast
  obtain f where "tg_Append tlib ?recs f0 = (True, f)" and "holds_records tlib ([] @ ?recs) f"
    using holds_records_append [OF m f0(2), of ?recs] by auto
  then have f: "tg_Append tlib ?recs f0 = (True, f)" "holds_records tlib ?recs f" by (simp_all del: tg_Append.simps)
  have ff: "tg_Origin f = SelftestOrigin" "test_key ex tlib (tg_Skey f)"
    using tg_Append_fields [OF f(1)] f0 by simp_all
  obtain cpNote where c: "tg_Checkpoint tlib f = Some (cpNote, log_cp mth SelftestOrigin ?recs)" "tg_TreeHash tlib f 7 = Some (mth ?recs)"
    using test_log_checkpoint [OF m f(2) ff] by auto
  obtain pf where p: "tg_ProveTree tlib f 7 5 = Some pf" "proof_ok pf"
    using test_log_proof [OF m f(2), of 5] by auto
  have "plain_cp (log_cp mth SelftestOrigin ?recs)"
    by (rule plain_log_cp [OF m]) (simp_all add: SelftestOrigin_def graphic_def)
  then obtain sigs where s: "length sigs \<le> 1000"
    "tl_Sign tlib (tg_Skey l) (tl_CheckpointString tlib (log_cp mth SelftestOrigin ?recs)) =
        Some (tl_CheckpointString tlib (log_cp mth SelftestOrigin ?recs) @ nl # sigs)" using k(1) unfolding test_key_def by blast
  have "signAs tlib l 7 (mth ?recs) = Some (tl_CheckpointString tlib (log_cp mth SelftestOrigin ?recs) @ nl # sigs, log_cp mth SelftestOrigin ?recs)"
    using s(2) k(2) by (simp add: signAs_def log_cp_def Let_def)
  then show ?thesis
    using f0(1) f(1) c p cp2 s(1) unfolding selftest_fork_def Let_def by (simp add: log_cp_def del: tg_Append.simps)
qed

text \<open>All values of a run, from the laws of the libraries.\<close>

lemma selftest_run_exists:
  assumes codec: "hash_codec_ok ex" and m: "merkle_ok ex tlib mth" and nt: "log_notes_ok ex tlib"
    and sound: "prefix_sound ex mth [''a'', ''b'', ''c'', ''d'', ''e''] [''a'', ''b'', ''X'', ''d'', ''e'', ''f'', ''g'']"
    and cos: "cosigner_ok ex tlib lib sg vkey vname"
  shows "\<exists>d. log_built tlib seed d \<and> run_ok ex lib sg tk vkey vname d
    \<and> sn_cp1 d = log_cp mth SelftestOrigin [''a'', ''b'', ''c''] \<and> sn_cp2 d = log_cp mth SelftestOrigin [''a'', ''b'', ''c'', ''d'', ''e'']
    \<and> sn_freshCP d = log_cp mth unknown_origin [''a'', ''b'', ''c'']"
proof -
  let ?r1 = "[''a'', ''b'', ''c'']" and ?r2 = "[''a'', ''b'', ''c'', ''d'', ''e'']"
    and ?rf = "[''a'', ''b'', ''X'', ''d'', ''e'', ''f'', ''g'']"
  let ?cp1 = "log_cp mth SelftestOrigin ?r1" and ?cp2 = "log_cp mth SelftestOrigin ?r2"
    and ?fork = "log_cp mth SelftestOrigin ?rf" and ?fresh = "log_cp mth unknown_origin ?r1"
  let ?t = "tl_CheckpointString tlib"
  obtain l0 where l0: "newSelftestLog tlib seed SelftestOrigin = Some l0" "holds_records tlib [] l0"
    "tg_Origin l0 = SelftestOrigin" "test_key ex tlib (tg_Skey l0)" using newSelftestLog_ok [OF nt] by blast
  obtain l1 where l1: "tg_Append tlib ?r1 l0 = (True, l1)" "holds_records tlib ?r1 l1"
    using holds_records_append [OF m l0(2), of ?r1] by (auto simp del: tg_Append.simps)
  obtain l2 where l2: "tg_Append tlib [''d'', ''e''] l1 = (True, l2)" "holds_records tlib ?r2 l2"
    using holds_records_append [OF m l1(2), of "[''d'', ''e'']"] by (auto simp del: tg_Append.simps)
  have f: "tg_Origin l1 = SelftestOrigin" "test_key ex tlib (tg_Skey l1)" "tg_Origin l2 = SelftestOrigin" "test_key ex tlib (tg_Skey l2)"
    using l0(3,4) tg_Append_fields [OF l1(1)] tg_Append_fields [OF l2(1)] by simp_all
  obtain s1 where s1: "length s1 \<le> 1000" "tl_Sign tlib (tg_Skey l1) (?t ?cp1) = Some (?t ?cp1 @ nl # s1)"
    "tg_Checkpoint tlib l1 = Some (?t ?cp1 @ nl # s1, ?cp1)" using test_log_checkpoint [OF m l1(2) f(1,2)] by auto
  obtain s2 where s2: "length s2 \<le> 1000" "tl_Sign tlib (tg_Skey l2) (?t ?cp2) = Some (?t ?cp2 @ nl # s2)"
    "tg_Checkpoint tlib l2 = Some (?t ?cp2 @ nl # s2, ?cp2)" using test_log_checkpoint [OF m l2(2) f(3,4)] by auto
  obtain p where p: "tg_ProveTree tlib l2 5 3 = Some p" "proof_ok p" "ex_CheckTree ex p 5 (mth ?r2) 3 (mth ?r1)"
    using test_log_proof [OF m l2(2), of 3] by auto
  obtain pf sf where fk: "selftest_fork tlib seed l2 ?cp2 = Some (pf, ?t ?fork @ nl # sf)" "proof_ok pf" "length sf \<le> 1000"
    using selftest_fork_ok [OF m nt f(4,3), of ?cp2 seed] by (auto simp: log_cp_def Let_def)
  have refused: "\<not> ex_CheckTree ex pf 7 (mth ?rf) 5 (mth ?r2)"
    using sound by (auto simp: prefix_sound_def)
  have gr: "list_all graphic SelftestOrigin" "SelftestOrigin \<noteq> []" "list_all graphic unknown_origin" "unknown_origin \<noteq> []"
    "SelftestOrigin \<noteq> unknown_origin" "length SelftestOrigin \<le> 500" "length unknown_origin \<le> 500"
    by (simp_all add: SelftestOrigin_def unknown_origin_def graphic_def)
  have pl: "plain_cp ?cp1" "plain_cp ?cp2" "plain_cp ?fork" "plain_cp ?fresh"
    using gr by (auto intro!: plain_log_cp [OF m])
  have og: "cp_Origin ?cp1 = SelftestOrigin" "cp_Origin ?cp2 = SelftestOrigin" "cp_Origin ?fork = SelftestOrigin"
    "cp_Origin ?fresh = unknown_origin" by (simp_all add: log_cp_def)
  have fr: "replace_first (?t ?cp1 @ nl # s1) SelftestOrigin unknown_origin = ?t ?fresh @ nl # s1" by (rule fresh_text [OF nt])
  define d where "d = \<lparr>sn_l0 = l0, sn_l1 = l1, sn_l2 = l2, sn_note1 = ?t ?cp1 @ nl # s1, sn_cp1 = ?cp1, sn_note2 = ?t ?cp2 @ nl # s2,
    sn_cp2 = ?cp2, sn_proof = p, sn_forkProof = pf, sn_forkNote = ?t ?fork @ nl # sf, sn_forkCP = ?fork, sn_freshCP = ?fresh\<rparr>"
  have built: "log_built tlib seed d"
    unfolding log_built_def d_def selftest_run.select_convs using l0(1) l1(1) l2(1) s1(3) s2(3) p(1) fk(1)
    by (simp add: log_cp_def del: tg_Append.simps)
  note ct = checkpoint_text [OF codec nt]
  have len: "length (?t cp @ nl # s) \<le> 2000" if "plain_cp cp" "length (cp_Origin cp) \<le> 500" "length s \<le> 1000" for cp s
    using ct(3) [OF that(1)] that(2,3) by simp
  have "run_ok ex lib sg tk vkey vname d"
    unfolding run_ok_def d_def sn_freshNote_def selftest_run.select_convs fr
  proof (intro conjI)
    show "cosignable ex lib sg tk vkey vname (?t ?cp1 @ nl # s1) ?cp1" "cosignable ex lib sg tk vkey vname (?t ?fresh @ nl # s1) ?fresh"
      by (rule cosigner_cosignable [OF codec nt cos _ _ s1(2)]; use pl og gr in simp)+
    show "cosignable ex lib sg tk vkey vname (?t ?cp2 @ nl # s2) ?cp2"
      by (rule cosigner_cosignable [OF codec nt cos _ _ s2(2)]) (use pl og gr in simp_all)
    show "\<exists>txt. note_text (?t ?fork @ nl # sf) = Some txt \<and> ex_ParseCheckpoint ex txt = Some ?fork"
      using ct(1,2) [OF pl(3)] by blast
    show "length (EncodeAddCheckpoint ex 0 [] (?t ?cp1 @ nl # s1)) \<le> MaxRequestSize"
      "length (EncodeAddCheckpoint ex 0 [] (?t ?fresh @ nl # s1)) \<le> MaxRequestSize"
      "length (EncodeAddCheckpoint ex (cp_N ?cp1) p (?t ?cp2 @ nl # s2)) \<le> MaxRequestSize"
      "length (EncodeAddCheckpoint ex (cp_N ?cp2) pf (?t ?fork @ nl # sf)) \<le> MaxRequestSize"
      by (rule encoded_fits [OF nt _ _ _ len]; use p fk s1 s2 pl og gr in \<open>simp add: log_cp_def\<close>)+
  qed (use p fk refused gr in \<open>simp_all add: log_cp_def\<close>)
  with built show ?thesis by (intro exI [of _ d]) (simp add: d_def)
qed

text \<open>The page \<open>/healthz\<close> names the key of the witness.\<close>

lemma selftest_verifier_ok:
  assumes "hn_Get net (wc @ ''/healthz'') w = (Some (StatusOK, page), w)" "nt_Json lib (take maxWitnessResponse page) = Some j"
    "j ''witness_key'' = Some vkey" "vkey \<noteq> []" "nt_NewCosigVerifier lib vkey = Some vname"
  shows "selftest_verifier lib net wc w = (Inr (vkey, vname), w)"
  using assms by (simp add: selftest_verifier_def wc_healthz_def io_bind_def io_call_def)

end
