(* ===== verification/Provision_Server.thy ===== *)
theory Provision_Server
  imports Witness_Theorems Go_Spaces "HOL-Library.Multiset"
begin

text \<open>
  The provisioning channel of \<^verbatim>\<open>internal/provision/server.go\<close>: connections, session requests, the command
  parser and the commands that install and destroy the witness key. The private key is a slice that the signer
  aliases, so key slices live in a store (\<open>sv_keys\<close>) and a signer is identified with the address of the
  slice it closes over; \<open>zero\<close> overwrites a slice in place. Of the SSH handshake the model has its outcome and the time
  it takes against the deadline. A command writes text on standard output or, when it fails, the text of its
  \<open>exec_error\<close> on standard error. The device log is left out. The clock stands still during a command.

  The invariant \<open>key_inv\<close> says that the witness signs with the one live key and that every other key
  slice ever created is zeroed.
\<close>

section \<open>State\<close>

definition SeedSize :: nat where "SeedSize = 32"
definition maxSeedInput :: nat where "maxSeedInput = 128"

type_synonym key_ref = nat

text \<open>
  Times are nanoseconds since the epoch. The configured \<open>SetTime\<close> is the reading of the device clock that it
  establishes for a number of seconds; the clock itself belongs to the platform.
\<close>

definition time_Second :: int where "time_Second = 1000000000"

record config =
  cfg_HostSeed :: bytes
  cfg_Witness :: bool
  cfg_SetTime :: "(int \<Rightarrow> int) option"
  cfg_Start :: "int option"

record server =
  sv_cfg :: config
  sv_start :: int
  sv_hostKey :: bytes
  sv_priv :: "key_ref option"
  sv_keys :: "bytes list"
  sv_clock :: int

text \<open>
  What the server uses of \<open>crypto/ed25519\<close>, torchwood, the SSH library and \<open>time\<close>: the key of a seed, whether a key
  name is accepted and the error text when it is not, the verifier string of a name and key, the public key of a host
  seed, the texts of a time (given in seconds) and of a duration (given in whole seconds), and what \<open>strconv.Quote\<close> makes
  of a run of bytes beyond ASCII.
\<close>

record signer_lib =
  sl_newKey :: "bytes \<Rightarrow> bytes"
  sl_nameOk :: "bytes \<Rightarrow> bool"
  sl_nameError :: "bytes \<Rightarrow> bytes"
  sl_verifier :: "bytes \<Rightarrow> bytes \<Rightarrow> bytes"
  sl_hostKey :: "bytes \<Rightarrow> bytes option"
  sl_rfc3339 :: "int \<Rightarrow> bytes"
  sl_duration :: "int \<Rightarrow> bytes"
  sl_quoteHigh :: "bytes \<Rightarrow> bytes"

datatype config_error = BadHostSeed nat | NilWitness | HostSignerError

definition NewServer :: "signer_lib \<Rightarrow> config \<Rightarrow> int \<Rightarrow> config_error + server" where
  "NewServer lib cfg now =
     (if length (cfg_HostSeed cfg) \<noteq> SeedSize then Inl (BadHostSeed (length (cfg_HostSeed cfg)))
      else if \<not> cfg_Witness cfg then Inl NilWitness
      else
        let start = (case cfg_Start cfg of None \<Rightarrow> now | Some t \<Rightarrow> t)
        in case sl_hostKey lib (cfg_HostSeed cfg) of
             None \<Rightarrow> Inl HostSignerError
           | Some pub \<Rightarrow> Inr \<lparr>sv_cfg = cfg, sv_start = start, sv_hostKey = pub, sv_priv = None, sv_keys = [], sv_clock = now\<rparr>)"

definition HostPublicKey :: "server \<Rightarrow> bytes" where
  "HostPublicKey s = sv_hostKey s"

datatype exec_error =
    EmptyCommand
  | UsageProvision
  | UsageSettime
  | BadUnixSeconds
  | NoSettableClock
  | UnknownCommand bytes
  | SeedTooLarge
  | SeedLength nat
  | BadHexSeed
  | SignerError bytes

text \<open>The verb \<open>%q\<close>: ASCII bytes as \<open>strconv.Quote\<close> prints them, other runs by the library.\<close>

definition quote_ascii :: "byte \<Rightarrow> bytes" where
  "quote_ascii b =
     (if b = CHR 0x22 \<or> b = CHR 0x5C then [CHR 0x5C, b]
      else if 32 \<le> (of_char b :: nat) \<and> (of_char b :: nat) < 127 then [b]
      else case map_of [(CHR 0x07, CHR ''a''), (CHR 0x08, CHR ''b''), (CHR 0x0C, CHR ''f''), (CHR 0x0A, CHR ''n''),
                        (CHR 0x0D, CHR ''r''), (CHR 0x09, CHR ''t''), (CHR 0x0B, CHR ''v'')] b of
             Some c \<Rightarrow> [CHR 0x5C, c]
           | None \<Rightarrow> [CHR 0x5C, CHR ''x''] @ hex_encode [b])"

definition is_ascii :: "byte \<Rightarrow> bool" where
  "is_ascii b \<longleftrightarrow> (of_char b :: nat) < 128"

function quote_body :: "signer_lib \<Rightarrow> bytes \<Rightarrow> bytes" where
  "quote_body lib [] = []"
| "quote_body lib (b # bs) =
     (if is_ascii b then quote_ascii b @ quote_body lib bs
      else sl_quoteHigh lib (b # takeWhile (Not \<circ> is_ascii) bs) @ quote_body lib (dropWhile (Not \<circ> is_ascii) bs))"
  by pat_completeness auto
termination
  by (relation "measure (length \<circ> snd)") (auto simp: le_imp_less_Suc length_dropWhile_le)

definition quote :: "signer_lib \<Rightarrow> bytes \<Rightarrow> bytes" where
  "quote lib s = [CHR 0x22] @ quote_body lib s @ [CHR 0x22]"

text \<open>What \<open>fail\<close> writes on standard error.\<close>

definition fail_text :: "signer_lib \<Rightarrow> exec_error \<Rightarrow> bytes" where
  "fail_text lib e =
     (case e of
        EmptyCommand \<Rightarrow> ''empty command''
      | UsageProvision \<Rightarrow> ''usage: provision <key-name> (32-byte seed, hex, on stdin)''
      | UsageSettime \<Rightarrow> ''usage: settime <unix-seconds>''
      | BadUnixSeconds \<Rightarrow> ''settime: bad unix-seconds value''
      | NoSettableClock \<Rightarrow> ''settime: no settable clock on this platform''
      | UnknownCommand c \<Rightarrow> ''unknown command '' @ quote lib c @ '' (provision, deprovision, settime, status)''
      | SeedTooLarge \<Rightarrow> ''provision: seed input too large''
      | SeedLength n \<Rightarrow>
          ''provision: want '' @ format_int (2 * int SeedSize) @ '' hex chars on stdin, got '' @ format_int (int n)
      | BadHexSeed \<Rightarrow> ''provision: bad hex seed''
      | SignerError name \<Rightarrow> ''provision: '' @ sl_nameError lib name) @ [nl]"

text \<open>Failed commands print nothing on standard output; the others print these lines.\<close>

type_synonym exec_result = "exec_error + bytes"

definition exit_status :: "exec_result \<Rightarrow> nat" where
  "exit_status r = (case r of Inl _ \<Rightarrow> 1 | Inr _ \<Rightarrow> 0)"

definition zero :: "bytes \<Rightarrow> bytes" where
  "zero b = make_bytes (length b)"

text \<open>\<open>zero(s.priv)\<close>: a nil slice has nothing to overwrite.\<close>

definition zero_priv :: "server \<Rightarrow> server" where
  "zero_priv s =
     (case sv_priv s of None \<Rightarrow> s | Some r \<Rightarrow> s\<lparr>sv_keys := (sv_keys s)[r := zero (sv_keys s ! r)]\<rparr>)"

section \<open>Commands\<close>

text \<open>The read loop of \<open>provision\<close>: chunks arrive until the buffer is full or the stream ends.\<close>

fun read_input :: "bytes list \<Rightarrow> bytes \<Rightarrow> bytes" where
  "read_input [] buf = buf"
| "read_input (c # cs) buf =
     (let room = maxSeedInput + 1 - length buf
      in if room = 0 then buf
         else if length c \<le> room then read_input cs (buf @ c)
         else buf @ take room c)"

definition provision :: "signer_lib \<Rightarrow> bytes list \<Rightarrow> bytes \<Rightarrow> server \<Rightarrow> 's witness \<Rightarrow>
    exec_result \<times> server \<times> 's witness" where
  "provision lib stdin name s w =
     (let buf = read_input stdin []
      in if maxSeedInput < length buf then (Inl SeedTooLarge, s, w)
         else
           let hexSeed = TrimSpace buf
           in if length hexSeed \<noteq> 2 * SeedSize then (Inl (SeedLength (length hexSeed)), s, w)
              else case hex_decode hexSeed of
                     None \<Rightarrow> (Inl BadHexSeed, s, w)
                   | Some seed \<Rightarrow>
                       let priv = sl_newKey lib seed; r = length (sv_keys s)
                       in if \<not> sl_nameOk lib name
                          then (Inl (SignerError name), s\<lparr>sv_keys := sv_keys s @ [zero priv]\<rparr>, w)
                          else
                            let s = s\<lparr>sv_keys := sv_keys s @ [priv]\<rparr>;
                                w = SetSigner r w;
                                s = zero_priv s
                            in (Inr (sl_verifier lib name priv @ [nl]), s\<lparr>sv_priv := Some r\<rparr>, w))"

definition deprovision :: "server \<Rightarrow> 's witness \<Rightarrow> server \<times> 's witness" where
  "deprovision s w = ((zero_priv s)\<lparr>sv_priv := None\<rparr>, ClearSigner w)"

text \<open>\<open>time.Now().UTC().Format(time.RFC3339)\<close> drops the fraction; \<open>Round\<close> rounds half away from zero.\<close>

definition now_text :: "signer_lib \<Rightarrow> server \<Rightarrow> bytes" where
  "now_text lib s = sl_rfc3339 lib (sv_clock s div time_Second)"

definition uptime :: "server \<Rightarrow> int" where
  "uptime s =
     (let d = sv_clock s - sv_start s
      in if d < 0 then - ((- d + time_Second div 2) div time_Second) else (d + time_Second div 2) div time_Second)"

definition status_text :: "signer_lib \<Rightarrow> (signer_ref \<Rightarrow> bytes) \<Rightarrow> server \<Rightarrow> 's witness \<Rightarrow> bytes" where
  "status_text lib verifier_string s w =
     (let v = Verifier verifier_string w
      in ''provisioned='' @ (if Provisioned w then ''true'' else ''false'') @ [nl]
         @ (if v \<noteq> [] then ''verifier='' @ v @ [nl] else [])
         @ ''time='' @ now_text lib s @ [nl]
         @ ''uptime='' @ sl_duration lib (uptime s) @ [nl])"

definition settime :: "signer_lib \<Rightarrow> bytes list \<Rightarrow> server \<Rightarrow> exec_result \<times> server" where
  "settime lib args s =
     (case args of
        [arg] \<Rightarrow>
          (case parse_int64 arg of
             None \<Rightarrow> (Inl BadUnixSeconds, s)
           | Some sec \<Rightarrow>
               if sec < 0 then (Inl BadUnixSeconds, s)
               else case cfg_SetTime (sv_cfg s) of
                      None \<Rightarrow> (Inl NoSettableClock, s)
                    | Some f \<Rightarrow>
                        let s = s\<lparr>sv_clock := f sec\<rparr> in (Inr (''time '' @ now_text lib s @ [nl]), s))
      | _ \<Rightarrow> (Inl UsageSettime, s))"

definition server_exec :: "signer_lib \<Rightarrow> (signer_ref \<Rightarrow> bytes) \<Rightarrow> bytes list \<Rightarrow> bytes \<Rightarrow> server \<Rightarrow> 's witness \<Rightarrow>
    exec_result \<times> server \<times> 's witness" where
  "server_exec lib verifier_string stdin command s w =
     (case Fields command of
        [] \<Rightarrow> (Inl EmptyCommand, s, w)
      | cmd # args \<Rightarrow>
          if cmd = ''provision'' then
            (case args of [name] \<Rightarrow> provision lib stdin name s w | _ \<Rightarrow> (Inl UsageProvision, s, w))
          else if cmd = ''deprovision'' then
            (case deprovision s w of (s', w') \<Rightarrow> (Inr (''deprovisioned'' @ [nl]), s', w'))
          else if cmd = ''settime'' then
            (case settime lib args s of (r, s') \<Rightarrow> (r, s', w))
          else if cmd = ''status'' then
            (Inr (status_text lib verifier_string s w), s, w)
          else (Inl (UnknownCommand cmd), s, w))"

section \<open>Sessions and connections\<close>

text \<open>A request of a session channel: an exec request with its payload, if that unmarshals, or another.\<close>

datatype ssh_request = ReqExec "bytes option" | ReqOther

record session =
  se_replies :: "bool list"
  se_out :: bytes
  se_err :: bytes
  se_exit :: "nat option"

definition new_session :: session where
  "new_session = \<lparr>se_replies = [], se_out = [], se_err = [], se_exit = None\<rparr>"

fun handleSession :: "signer_lib \<Rightarrow> (signer_ref \<Rightarrow> bytes) \<Rightarrow> bytes list \<Rightarrow> ssh_request list \<Rightarrow> session \<Rightarrow>
    server \<Rightarrow> 's witness \<Rightarrow> session \<times> server \<times> 's witness" where
  "handleSession lib vs stdin [] se s w = (se, s, w)"
| "handleSession lib vs stdin (ReqOther # reqs) se s w =
     handleSession lib vs stdin reqs (se\<lparr>se_replies := se_replies se @ [False]\<rparr>) s w"
| "handleSession lib vs stdin (ReqExec None # reqs) se s w = (se\<lparr>se_replies := se_replies se @ [False]\<rparr>, s, w)"
| "handleSession lib vs stdin (ReqExec (Some command) # reqs) se s w =
     (case server_exec lib vs stdin command s w of (r, s', w') \<Rightarrow>
        (se\<lparr>se_replies := se_replies se @ [True],
            se_out := (case r of Inl _ \<Rightarrow> se_out se | Inr out \<Rightarrow> se_out se @ out),
            se_err := (case r of Inl e \<Rightarrow> se_err se @ fail_text lib e | Inr _ \<Rightarrow> se_err se),
            se_exit := Some (exit_status r)\<rparr>, s', w'))"

text \<open>
  A connection: how its handshake goes when nothing cuts it short (it finishes or fails after some nanoseconds, or the client
  stalls), and the channels it offers afterwards. The deadline bounds the handshake only; it is lifted before the
  channels are served. Channels that are not sessions are rejected, those whose acceptance fails are skipped, and every other
  one is served by a goroutine of its own.
\<close>

definition handshakeTimeout :: int where "handshakeTimeout = 30 * time_Second"

datatype handshake = Hs_Done int | Hs_Fails int | Hs_Stalls

record new_channel =
  nc_type :: bytes
  nc_accept :: bool
  nc_stdin :: "bytes list"
  nc_reqs :: "ssh_request list"

record conn =
  co_handshake :: handshake
  co_chans :: "new_channel list"

type_synonym job = "bytes list \<times> ssh_request list"

datatype channel_outcome = Ch_Rejected bytes | Ch_Skipped | Ch_Served job

text \<open>A connection is closed before authentication, or ready, after the given time.\<close>

datatype conn_outcome = Conn_Closed int | Conn_Ready int "channel_outcome list"

definition handle_channel :: "new_channel \<Rightarrow> channel_outcome" where
  "handle_channel c =
     (if nc_type c \<noteq> ''session'' then Ch_Rejected ''session channels only''
      else if \<not> nc_accept c then Ch_Skipped
      else Ch_Served (nc_stdin c, nc_reqs c))"

definition handleConn :: "conn \<Rightarrow> conn_outcome" where
  "handleConn c =
     (case co_handshake c of
        Hs_Done d \<Rightarrow>
          if handshakeTimeout < d then Conn_Closed handshakeTimeout
          else Conn_Ready d (map handle_channel (co_chans c))
      | Hs_Fails d \<Rightarrow> Conn_Closed (min d handshakeTimeout)
      | Hs_Stalls \<Rightarrow> Conn_Closed handshakeTimeout)"

text \<open>The outcome of one \<open>Accept\<close> is an error, which ends \<open>Serve\<close>, or a connection.\<close>

fun Serve :: "conn option list \<Rightarrow> conn_outcome list" where
  "Serve [] = []"
| "Serve (None # rest) = []"
| "Serve (Some c # rest) = handleConn c # Serve rest"

fun channel_jobs :: "channel_outcome list \<Rightarrow> job list" where
  "channel_jobs [] = []"
| "channel_jobs (Ch_Served j # rest) = j # channel_jobs rest"
| "channel_jobs (Ch_Rejected msg # rest) = channel_jobs rest"
| "channel_jobs (Ch_Skipped # rest) = channel_jobs rest"

fun served_jobs :: "conn_outcome list \<Rightarrow> job list" where
  "served_jobs [] = []"
| "served_jobs (Conn_Closed t # rest) = served_jobs rest"
| "served_jobs (Conn_Ready t chans # rest) = channel_jobs chans @ served_jobs rest"

text \<open>
  The goroutines touch the server and the witness only inside \<open>server_exec\<close>, in one critical section each, so an
  execution of the server is the jobs in some order.
\<close>

fun run_jobs :: "signer_lib \<Rightarrow> (signer_ref \<Rightarrow> bytes) \<Rightarrow> job list \<Rightarrow> server \<Rightarrow> 's witness \<Rightarrow> server \<times> 's witness" where
  "run_jobs lib vs [] s w = (s, w)"
| "run_jobs lib vs ((stdin, reqs) # jobs) s w =
     (case handleSession lib vs stdin reqs new_session s w of (_, s', w') \<Rightarrow> run_jobs lib vs jobs s' w')"

section \<open>Key lifecycle\<close>

definition key_inv :: "signer_lib \<Rightarrow> server \<Rightarrow> 's witness \<Rightarrow> bool" where
  "key_inv lib s w \<longleftrightarrow>
     w_signer w = sv_priv s \<and>
     (\<forall>r. sv_priv s = Some r \<longrightarrow> r < length (sv_keys s)
        \<and> (\<exists>seed. length seed = SeedSize \<and> sv_keys s ! r = sl_newKey lib seed)) \<and>
     (\<forall>r < length (sv_keys s). sv_priv s \<noteq> Some r \<longrightarrow> zero (sv_keys s ! r) = sv_keys s ! r)"

lemma zero_zero [simp]: "zero (zero b) = zero b"
  by (simp add: zero_def)

lemma length_zero [simp]: "length (zero b) = length b"
  by (simp add: zero_def)

lemma key_inv_provision:
  assumes "key_inv lib s w" "provision lib stdin name s w = (r, s', w')"
  shows "key_inv lib s' w'"
proof (cases "\<exists>v. r = Inr v")
  case False
  with assms show ?thesis
    by (auto simp: provision_def key_inv_def Let_def nth_append less_Suc_eq split: if_splits option.splits)
next
  case True
  with assms(2) obtain hexSeed seed where h: "length hexSeed = 2 * SeedSize" "hex_decode hexSeed = Some seed"
    and s': "s' = (zero_priv (s\<lparr>sv_keys := sv_keys s @ [sl_newKey lib seed]\<rparr>))\<lparr>sv_priv := Some (length (sv_keys s))\<rparr>"
    and w': "w' = SetSigner (length (sv_keys s)) w"
    by (auto simp: provision_def Let_def split: if_splits option.splits)
  have "length seed = SeedSize" using length_hex_decode [OF h(2)] h(1) by simp
  then show ?thesis using assms(1) unfolding s' w' key_inv_def
    by (auto simp: zero_priv_def SetSigner_def nth_append nth_list_update less_Suc_eq split: option.split)
qed

lemma key_inv_deprovision: "key_inv lib s w \<Longrightarrow> deprovision s w = (s', w') \<Longrightarrow> key_inv lib s' w'"
  by (auto simp: deprovision_def key_inv_def zero_priv_def ClearSigner_def nth_list_update split: option.splits)

text \<open>What a command can do to the server and the witness.\<close>

lemma server_exec_cases [consumes 1, case_names same clock install destroy]:
  assumes "server_exec lib vs stdin command s w = (r, s', w')"
  obtains "s' = s" "w' = w"
  | t where "s' = s\<lparr>sv_clock := t\<rparr>" "w' = w"
  | name where "provision lib stdin name s w = (r, s', w')"
  | "deprovision s w = (s', w')"
  using assms by (auto simp: server_exec_def settime_def Let_def split: list.splits if_splits prod.splits option.splits)

lemma key_inv_clock: "key_inv lib s w \<Longrightarrow> key_inv lib (s\<lparr>sv_clock := t\<rparr>) w"
  by (simp add: key_inv_def)

lemma key_inv_exec: "server_exec lib vs stdin command s w = (r, s', w') \<Longrightarrow> key_inv lib s w \<Longrightarrow> key_inv lib s' w'"
  by (erule server_exec_cases) (auto intro: key_inv_provision key_inv_deprovision key_inv_clock)

lemma key_inv_session:
  "handleSession lib vs stdin reqs se s w = (se', s', w') \<Longrightarrow> key_inv lib s w \<Longrightarrow> key_inv lib s' w'"
  by (induction lib vs stdin reqs se s w rule: handleSession.induct)
    (auto split: prod.splits dest: key_inv_exec)

lemma key_inv_jobs: "run_jobs lib vs jobs s w = (s', w') \<Longrightarrow> key_inv lib s w \<Longrightarrow> key_inv lib s' w'"
  by (induction lib vs jobs s w rule: run_jobs.induct) (auto split: prod.splits dest: key_inv_session)

section \<open>Lemmas on input and output\<close>

text \<open>A stalled client holds its goroutine for at most 30 seconds.\<close>

lemma handleConn_bounded:
  "case handleConn c of Conn_Closed t \<Rightarrow> t \<le> handshakeTimeout | Conn_Ready t chans \<Rightarrow> t \<le> handshakeTimeout"
  by (simp add: handleConn_def split: handshake.split)

text \<open>What \<open>%q\<close> prints of ASCII input is printable, so a command name cannot smuggle control bytes to a terminal.\<close>

definition printable :: "byte \<Rightarrow> bool" where
  "printable c \<longleftrightarrow> 32 \<le> (of_char c :: nat) \<and> (of_char c :: nat) < 127"

lemma printable_graphic: "graphic c \<Longrightarrow> printable c"
  by (auto simp: graphic_def printable_def Let_def)

lemma quote_ascii_printable: "list_all printable (quote_ascii b)"
proof -
  have "list_all printable (hex_encode [b])"
    using list_all_graphic_hex_encode [of "[b]"] printable_graphic by (auto simp: list_all_iff)
  then show ?thesis by (auto simp: quote_ascii_def printable_def)
qed

lemma quote_body_printable: "(\<And>h. list_all printable (sl_quoteHigh lib h)) \<Longrightarrow> list_all printable (quote_body lib s)"
  by (induction lib s rule: quote_body.induct) (simp_all add: quote_ascii_printable)

lemma read_input_take:
  "length buf \<le> maxSeedInput + 1 \<Longrightarrow> read_input chunks buf = take (maxSeedInput + 1) (buf @ concat chunks)"
  by (induction chunks buf rule: read_input.induct) (auto simp: Let_def)

section \<open>Properties\<close>

definition example_lib :: signer_lib where
  "example_lib = \<lparr>sl_newKey = (\<lambda>seed. seed @ seed), sl_nameOk = valid_key_name, sl_nameError = (\<lambda>_. ''bad name''), sl_verifier = (\<lambda>n k. n @ ''+'' @ hex_encode k),
     sl_hostKey = Some, sl_rfc3339 = format_int, sl_duration = format_int, sl_quoteHigh = hex_encode\<rparr>"

definition example_config :: config where
  "example_config = \<lparr>cfg_HostSeed = make_bytes 32, cfg_Witness = True, cfg_SetTime = Some (\<lambda>sec. sec * time_Second),
     cfg_Start = None\<rparr>"

definition example_server :: server where
  "example_server = \<lparr>sv_cfg = example_config, sv_start = 0, sv_hostKey = make_bytes 32, sv_priv = None, sv_keys = [],
     sv_clock = 0\<rparr>"

text \<open>
  C32: Key lifecycle. A fresh server over an unprovisioned witness serves any connections, with their sessions run in
  any order: at the end the witness signs with exactly the key the server owns, that key is the one derived from an
  uploaded 32-byte seed, and every other key slice the server ever created is zeroed.
\<close>

theorem session_key_lifecycle:
  assumes "NewServer lib cfg now = Inr s" "w_signer w = None" "mset jobs = mset (served_jobs (Serve conns))"
    "run_jobs lib vs jobs s w = (s', w')"
  shows "w_signer w' = sv_priv s'
    \<and> (\<forall>r. sv_priv s' = Some r \<longrightarrow> (\<exists>seed. length seed = SeedSize \<and> sv_keys s' ! r = sl_newKey lib seed))
    \<and> (\<forall>r < length (sv_keys s'). sv_priv s' \<noteq> Some r \<longrightarrow> sv_keys s' ! r = make_bytes (length (sv_keys s' ! r)))"
proof -
  have "key_inv lib s w"
    using assms(1,2) by (auto simp: NewServer_def key_inv_def Let_def split: if_splits option.splits)
  with assms(4) have "key_inv lib s' w'" by (rule key_inv_jobs)
  then show ?thesis by (simp add: key_inv_def zero_def)
qed

theorem session_key_lifecycle_witness:
  "\<exists>s' w'. run_jobs example_lib (\<lambda>_. []) [([], [ReqExec (Some ''deprovision'')]), ([hex_encode (make_bytes 32)], [ReqExec (Some ''provision k'')])]
      example_server (New (NewMemStore :: log_states)) = (s', w') \<and> w_signer w' = sv_priv s'"
proof -
  let ?j1 = "([], [ReqExec (Some ''deprovision'')]) :: job"
  let ?j2 = "([hex_encode (make_bytes 32)], [ReqExec (Some ''provision k'')]) :: job"
  let ?c = "\<lambda>t (i, r). \<lparr>nc_type = t, nc_accept = True, nc_stdin = i, nc_reqs = r\<rparr> :: new_channel"
  obtain s' w' where "run_jobs example_lib (\<lambda>_. []) [?j1, ?j2] example_server (New (NewMemStore :: log_states)) = (s', w')"
    by fastforce
  moreover have "NewServer example_lib example_config 0 = Inr example_server"
    by (simp add: NewServer_def example_lib_def example_config_def example_server_def SeedSize_def)
  moreover have "mset [?j1, ?j2] = mset (served_jobs (Serve [Some \<lparr>co_handshake = Hs_Stalls, co_chans = [?c ''session'' ?j1]\<rparr>,
      Some \<lparr>co_handshake = Hs_Done 0, co_chans = [?c ''x11'' ?j1, ?c ''session'' ?j2]\<rparr>,
      Some \<lparr>co_handshake = Hs_Done 5, co_chans = [?c ''session'' ?j1]\<rparr>, None]))"
    by (simp add: handleConn_def handle_channel_def handshakeTimeout_def time_Second_def)
  moreover have "w_signer (New (NewMemStore :: log_states)) = None" by (simp add: New_def)
  ultimately show ?thesis using session_key_lifecycle by blast
qed

text \<open>
  Deprovisioning destroys the key: the witness has no signer, every key slice is zeroed, the next submission
  is refused with 503 whatever it is, and a pending submission is not signed any more.
\<close>

lemma deprovision_destroys_key:
  assumes "key_inv lib s w" "deprovision s w = (s', w')"
  shows "\<not> Provisioned w' \<and> sv_priv s' = None
    \<and> (\<forall>k \<in> set (sv_keys s'). k = make_bytes (length k))
    \<and> AddCheckpoint ex sops w' body = (Inl (StatusServiceUnavailable, not_provisioned), w')
    \<and> pool_batch ex sops now p w' = None"
proof -
  have inv: "key_inv lib s' w'" using assms by (rule key_inv_deprovision)
  have none: "sv_priv s' = None" "w_signer w' = None"
    using assms(2) by (auto simp: deprovision_def ClearSigner_def)
  have "k = make_bytes (length k)" if "k \<in> set (sv_keys s')" for k
    using that inv none by (auto simp: key_inv_def zero_def in_set_conv_nth)
  with none show ?thesis by (simp add: Provisioned_def AddCheckpoint_def pool_batch_def)
qed

text \<open>
  Provisioning installs exactly the uploaded seed: a 32-byte seed in hex on standard input, however the
  transport cuts it into chunks and with or without a final newline, becomes the witness key under a new epoch, and the
  verifier that is echoed is the one of this key.
\<close>

lemma provision_installs_seed:
  assumes "length seed = SeedSize" "sl_nameOk lib name" "key_inv lib s w"
    "concat stdin = hex_encode seed @ trail" "trail = [] \<or> trail = [nl]"
  shows "\<exists>s' w'. provision lib stdin name s w = (Inr (sl_verifier lib name (sl_newKey lib seed) @ [nl]), s', w')
    \<and> w' = SetSigner (length (sv_keys s)) w \<and> sv_keys s' ! length (sv_keys s) = sl_newKey lib seed \<and> key_inv lib s' w'"
proof -
  let ?p = "provision lib stdin name s w"
  have buf: "read_input stdin [] = hex_encode seed @ trail"
    using assms(1,4,5) read_input_take [of "[]" stdin] by (auto simp: maxSeedInput_def SeedSize_def)
  have "hex_encode seed \<noteq> []" using assms(1) by (metis SeedSize_def length_hex_encode list.size(3) mult_is_0 zero_neq_numeral)
  then have trim: "TrimSpace (hex_encode seed @ trail) = hex_encode seed"
    using TrimSpace_graphic [OF list_all_graphic_hex_encode] assms(5) by auto
  have len: "length (hex_encode seed @ trail) \<le> maxSeedInput"
    using assms(1,5) by (auto simp: maxSeedInput_def SeedSize_def)
  obtain s' w' where p: "?p = (Inr (sl_verifier lib name (sl_newKey lib seed) @ [nl]), s', w')"
    and s': "s' = (zero_priv (s\<lparr>sv_keys := sv_keys s @ [sl_newKey lib seed]\<rparr>))\<lparr>sv_priv := Some (length (sv_keys s))\<rparr>"
    and w': "w' = SetSigner (length (sv_keys s)) w"
    using assms(1,2) len by (simp add: provision_def buf trim SeedSize_def Let_def)
  have "sv_keys s' ! length (sv_keys s) = sl_newKey lib seed"
    using assms(3) by (auto simp: s' zero_priv_def key_inv_def nth_list_update split: option.split)
  then show ?thesis using p key_inv_provision [OF assms(3) p] by (simp add: w')
qed

text \<open>
  A command that fails changes nothing: the witness, the owned key and the clock stay as they were, and no new live
  key slice is left behind.
\<close>

lemma exec_failure_is_harmless:
  assumes "server_exec lib vs stdin command s w = (Inl e, s', w')"
  shows "w' = w \<and> sv_priv s' = sv_priv s \<and> sv_clock s' = sv_clock s \<and> exit_status (Inl e) = 1
    \<and> (sv_keys s' = sv_keys s \<or> (\<exists>k. sv_keys s' = sv_keys s @ [zero k]))"
  using assms
  by (auto simp: server_exec_def provision_def settime_def exit_status_def Let_def split: list.splits if_splits prod.splits option.splits)

end
