(* ===== verification/Provision_Client.thy ===== *)
theory Provision_Client
  imports Provision_Server Host_Clients Go_Paths
begin

text \<open>
  \<open>vitrum provision\<close> and \<open>vitrum deprovision\<close> (\<^verbatim>\<open>cmd/vitrum/provision.go\<close>): the connection with a pinned host key or
  trust on first use, the clock, the upload of the witness seed and the cross-check of the verifier key that the
  device echoes. The world of a command is the network and the file system; a reply carries the time it took, so
  the time-out of \<open>settime\<close> is a comparison.
\<close>

section \<open>The SSH library\<close>

record ssh_client =
  cl_addr :: bytes
  cl_key :: bytes

text \<open>A command that fails leaves what it wrote on standard error.\<close>

datatype ssh_reply = SessionError | RunError bytes | RunOutput bytes

text \<open>
  \<open>sn_hostKey\<close> is the key the peer proves to own during the handshake, or a failure to connect; \<open>sn_finish\<close> is the rest
  of the handshake. \<open>sn_run\<close> is one command in a new session: no answer at all, or an answer after some
  nanoseconds. \<open>sn_now\<close> is the host's clock.
\<close>

record 'n ssh_net =
  sn_hostKey :: "bytes \<Rightarrow> 'n \<Rightarrow> bytes option \<times> 'n"
  sn_finish :: "bytes \<Rightarrow> 'n \<Rightarrow> bool \<times> 'n"
  sn_run :: "ssh_client \<Rightarrow> bytes \<Rightarrow> bytes \<Rightarrow> 'n \<Rightarrow> (int \<times> ssh_reply) option \<times> 'n"
  sn_now :: "'n \<Rightarrow> int \<times> 'n"

record ssh_lib =
  al_Parse :: "bytes \<Rightarrow> bytes option"
  al_Marshal :: "bytes \<Rightarrow> bytes"
  tm_Parse :: "bytes \<Rightarrow> int option"

record sshFlags =
  sf_addr :: bytes
  sf_hostKey :: bytes
  sf_tofu :: bool

datatype dial_error =
    SshDial
  | HostKeyRefused
  | ReadingPin read_error
  | ParsingPin
  | MakingPinDir
  | PinningHostKey

type_synonym ('n, 'e, 'a) cmd = "('n \<times> file_system, 'e, 'a) io"

definition from_net :: "('n, 'e, 'a) io \<Rightarrow> ('n, 'e, 'a) cmd" where
  "from_net m = (\<lambda>(n, fs). case m n of (r, n') \<Rightarrow> (r, n', fs))"

definition from_fs :: "(file_system, 'e, 'a) io \<Rightarrow> ('n, 'e, 'a) cmd" where
  "from_fs m = (\<lambda>(n, fs). case m fs of (r, fs') \<Rightarrow> (r, n, fs'))"

lemma from_net_run [io_simps]: "from_net m w = (r, w') \<longleftrightarrow> m (fst w) = (r, fst w') \<and> snd w' = snd w"
  by (cases w; cases w') (auto simp: from_net_def split: prod.splits)

lemma from_fs_run [io_simps]: "from_fs m w = (r, w') \<longleftrightarrow> m (snd w) = (r, snd w') \<and> fst w' = fst w"
  by (cases w; cases w') (auto simp: from_fs_def split: prod.splits)

section \<open>Connecting\<close>

definition dialCallback :: "'n ssh_net \<Rightarrow> bytes \<Rightarrow> (bytes \<Rightarrow> bool) \<Rightarrow> ('n, dial_error, ssh_client) io" where
  "dialCallback net addr cb n =
     (case sn_hostKey net addr n of
        (None, n') \<Rightarrow> (Inl SshDial, n')
      | (Some key, n') \<Rightarrow>
          if \<not> cb key then (Inl HostKeyRefused, n')
          else case sn_finish net addr n' of
                 (False, n') \<Rightarrow> (Inl SshDial, n')
               | (True, n') \<Rightarrow> (Inr \<lparr>cl_addr = addr, cl_key = key\<rparr>, n'))"

text \<open>The part of \<open>dialTOFU\<close> after the connection: create the pin file, write it, and take it back on a failure.\<close>

definition pin_key :: "ssh_lib \<Rightarrow> bytes \<Rightarrow> bytes \<Rightarrow> (file_system, dial_error, unit) io" where
  "pin_key sl path key fs =
     (case os_MkdirAll (Dir path) fs of (False, fs) \<Rightarrow> (Inl MakingPinDir, fs) | (True, fs) \<Rightarrow>
      case os_OpenExcl path fs of (False, fs) \<Rightarrow> (Inl PinningHostKey, fs) | (True, fs) \<Rightarrow>
      case os_Write path (al_Marshal sl key) fs of
        (False, fs) \<Rightarrow> (Inl PinningHostKey, snd (os_Remove path (snd (os_Close fs))))
      | (True, fs) \<Rightarrow>
          case os_Close fs of
            (False, fs) \<Rightarrow> (Inl PinningHostKey, snd (os_Remove path fs))
          | (True, fs) \<Rightarrow> (Inr (), fs))"

definition dialTOFU :: "ssh_lib \<Rightarrow> 'n ssh_net \<Rightarrow> sshFlags \<Rightarrow> ('n, dial_error, ssh_client) cmd" where
  "dialTOFU sl net f =
     io_bind (from_net (dialCallback net (sf_addr f) (\<lambda>_. True))) (\<lambda>client.
     io_bind (from_fs (pin_key sl (sf_hostKey f) (cl_key client))) (\<lambda>_.
     io_return client))"

definition dialPinned :: "ssh_lib \<Rightarrow> 'n ssh_net \<Rightarrow> sshFlags \<Rightarrow> ('n, dial_error, ssh_client) cmd" where
  "dialPinned sl net f = (\<lambda>(n, fs).
     case os_ReadFile (sf_hostKey f) fs of
       (Inl err, fs') \<Rightarrow>
         if err = NotExist \<and> sf_tofu f then dialTOFU sl net f (n, fs') else (Inl (ReadingPin err), n, fs')
     | (Inr pinned, fs') \<Rightarrow>
         case al_Parse sl pinned of
           None \<Rightarrow> (Inl ParsingPin, n, fs')
         | Some hostKey \<Rightarrow> from_net (dialCallback net (sf_addr f) (\<lambda>key. key = hostKey)) (n, fs'))"

section \<open>Commands on the device\<close>

datatype run_error = NoAnswer | NewSession | CommandFailed bytes bytes

definition sshRun :: "'n ssh_net \<Rightarrow> ssh_client \<Rightarrow> bytes \<Rightarrow> bytes \<Rightarrow> ('n, run_error, bytes) io" where
  "sshRun net client cmd stdin n =
     (case sn_run net client cmd stdin n of
        (None, n') \<Rightarrow> (Inl NoAnswer, n')
      | (Some (_, SessionError), n') \<Rightarrow> (Inl NewSession, n')
      | (Some (_, RunError errOut), n') \<Rightarrow> (Inl (CommandFailed cmd (TrimSpace errOut)), n')
      | (Some (_, RunOutput out), n') \<Rightarrow> (Inr out, n'))"

definition settimeReplyTimeout :: int where "settimeReplyTimeout = 3 * time_Second"
definition clockTolerance :: int where "clockTolerance = 5 * 60 * time_Second"

datatype provision_error =
    ReadingSeed read_error
  | SeedFileLength nat
  | BadKeyName
  | Dial dial_error
  | Command run_error
  | UnparseableTime bytes
  | ClockOff bytes
  | NoTime
  | WrongVerifier bytes bytes

text \<open>
  The goroutine runs the command; \<open>select\<close> takes its reply or the time-out. The printed reply is the
  result, nothing when it was lost.
\<close>

definition cmd_settime :: "ssh_lib \<Rightarrow> 'n ssh_net \<Rightarrow> sshFlags \<Rightarrow> int \<Rightarrow> ('n, provision_error, bytes option) cmd" where
  "cmd_settime sl net f timeout =
     io_bind (io_map_error Dial (dialPinned sl net f)) (\<lambda>client. from_net (\<lambda>n.
       case sn_now net n of (now, n1) \<Rightarrow>
       case sn_run net client (''settime '' @ format_int (now div time_Second)) [] n1 of
         (None, n2) \<Rightarrow> (Inr None, n2)
       | (Some (delay, reply), n2) \<Rightarrow>
           if timeout < delay then (Inr None, n2)
           else case reply of
                  SessionError \<Rightarrow> (Inl (Command NewSession), n2)
                | RunError errOut \<Rightarrow>
                    (Inl (Command (CommandFailed (''settime '' @ format_int (now div time_Second)) (TrimSpace errOut))), n2)
                | RunOutput out \<Rightarrow> (Inr (Some out), n2)))"

fun check_time_lines :: "ssh_lib \<Rightarrow> int \<Rightarrow> int \<Rightarrow> bytes list \<Rightarrow> provision_error + unit" where
  "check_time_lines sl now tol [] = Inl NoTime"
| "check_time_lines sl now tol (line # lines) =
     (case cut_prefix ''time='' (TrimSpace line) of
        None \<Rightarrow> check_time_lines sl now tol lines
      | Some ts \<Rightarrow>
          case tm_Parse sl ts of
            None \<Rightarrow> Inl (UnparseableTime ts)
          | Some devTime \<Rightarrow> if tol < \<bar>devTime - now\<bar> then Inl (ClockOff ts) else Inr ())"

definition verifyClock :: "ssh_lib \<Rightarrow> 'n ssh_net \<Rightarrow> ssh_client \<Rightarrow> int \<Rightarrow> int \<Rightarrow> ('n, provision_error, unit) io" where
  "verifyClock sl net client now tol =
     io_bind (io_map_error Command (sshRun net client ''status'' [])) (\<lambda>out.
     io_of (check_time_lines sl now tol (split_on nl out)))"

section \<open>The commands\<close>

record provision_flags =
  pf_ssh :: sshFlags
  pf_seed :: bytes
  pf_name :: bytes
  pf_settime :: bool

definition read_seed :: "signer_lib \<Rightarrow> bytes \<Rightarrow> bytes \<Rightarrow> ('n, provision_error, bytes) cmd" where
  "read_seed lib path name =
     io_bind (io_map_error ReadingSeed (from_fs (os_ReadFile path))) (\<lambda>seed.
       if length seed \<noteq> SeedSize then io_fail (SeedFileLength (length seed))
       else if \<not> sl_nameOk lib name then io_fail BadKeyName
       else io_return seed)"

definition cmdProvision :: "signer_lib \<Rightarrow> ssh_lib \<Rightarrow> 'n ssh_net \<Rightarrow> provision_flags \<Rightarrow> ('n, provision_error, bytes) cmd" where
  "cmdProvision lib sl net fl =
     io_bind (read_seed lib (pf_seed fl) (pf_name fl)) (\<lambda>seed.
     let want = sl_verifier lib (pf_name fl) (sl_newKey lib seed) in
     io_bind (if pf_settime fl then cmd_settime sl net (pf_ssh fl) settimeReplyTimeout else io_return None) (\<lambda>_.
     io_bind (io_map_error Dial (dialPinned sl net (pf_ssh fl))) (\<lambda>client.
     io_bind (if pf_settime fl
              then from_net (\<lambda>n. case sn_now net n of (now, n') \<Rightarrow> verifyClock sl net client now clockTolerance n')
              else io_return ()) (\<lambda>_.
     io_bind (io_map_error Command (from_net (sshRun net client (''provision '' @ pf_name fl) (hex_encode seed @ [nl])))) (\<lambda>out.
     let got = TrimSpace out in
     if got \<noteq> want then io_fail (WrongVerifier got want) else io_return got)))))"

definition cmdDeprovision :: "ssh_lib \<Rightarrow> 'n ssh_net \<Rightarrow> sshFlags \<Rightarrow> ('n, provision_error, unit) cmd" where
  "cmdDeprovision sl net f =
     io_bind (io_map_error Dial (dialPinned sl net f)) (\<lambda>client.
     io_bind (io_map_error Command (from_net (sshRun net client ''deprovision'' []))) (\<lambda>_.
     io_return ()))"

section \<open>The pin\<close>

lemmas os_simps = os_MkdirAll_def os_OpenExcl_def os_Write_def os_Close_def os_Remove_def Let_def

lemma dialCallback_Inr: "dialCallback net addr cb n = (Inr c, n') \<Longrightarrow> cb (cl_key c) \<and> cl_addr c = addr"
  by (auto simp: dialCallback_def split: prod.splits option.splits bool.splits if_splits)

definition pinned :: "ssh_lib \<Rightarrow> bytes \<Rightarrow> bytes \<Rightarrow> file_system \<Rightarrow> bool" where
  "pinned sl path key fs \<longleftrightarrow> (\<exists>pin. map_of (fs_files fs) path = Some pin \<and> al_Parse sl pin = Some key)"

lemma pin_key_Inr:
  assumes "pin_key sl path key fs = (Inr u, fs')"
  shows "map_of (fs_files fs) path = None \<and> map_of (fs_files fs') = (map_of (fs_files fs))(path \<mapsto> al_Marshal sl key)"
  using assms
  by (auto simp: pin_key_def os_simps update_conv' split: prod.splits bool.splits if_splits fault.splits option.splits)

lemma os_Remove_frame: "map_of (fs_files (snd (os_Remove path fs))) |` (- {path}) = map_of (fs_files fs) |` (- {path})"
  by (auto simp: os_Remove_def delete_conv' restrict_map_def fun_eq_iff split: prod.splits)

lemma os_Close_files [simp]: "fs_files (snd (os_Close fs)) = fs_files fs"
  by (auto simp: os_Close_def split: prod.splits)

lemma pin_key_Inl:
  assumes "pin_key sl path key fs = (Inl e, fs')"
  shows "map_of (fs_files fs') |` (- {path}) = map_of (fs_files fs) |` (- {path})
    \<and> (map_of (fs_files fs) path \<noteq> None \<longrightarrow> fs_files fs' = fs_files fs)"
  using assms os_Remove_frame [of path]
  by (auto simp: pin_key_def os_simps update_conv' delete_conv' restrict_map_def fun_eq_iff
      split: prod.splits bool.splits if_splits fault.splits option.splits)

lemma dialPinned_pinned:
  assumes "dialPinned sl net f (n, fs) = (r, n', fs')" "map_of (fs_files fs) (sf_hostKey f) = Some pin"
  shows "fs_files fs' = fs_files fs" "r = Inr c \<Longrightarrow> al_Parse sl pin = Some (cl_key c)"
  using assms
  by (auto simp: dialPinned_def os_ReadFile_def from_net_def split: prod.splits sum.splits option.splits if_splits
      dest!: dialCallback_Inr)

lemma dialPinned_unpinned:
  assumes "dialPinned sl net f (n, fs) = (r, n', fs')" "map_of (fs_files fs) (sf_hostKey f) = None"
  shows "map_of (fs_files fs') |` (- {sf_hostKey f}) = map_of (fs_files fs) |` (- {sf_hostKey f})"
    and "r = Inr c \<Longrightarrow> sf_tofu f \<and> map_of (fs_files fs') = (map_of (fs_files fs))(sf_hostKey f \<mapsto> al_Marshal sl (cl_key c))"
  using assms
  by (auto simp: dialPinned_def os_ReadFile_def dialTOFU_def io_bind_def from_net_def from_fs_def
      split: prod.splits sum.splits option.splits if_splits dest!: dialCallback_Inr pin_key_Inr pin_key_Inl)

text \<open>A history of connection attempts with one pin file, each over a network of its own.\<close>

fun dials :: "ssh_lib \<Rightarrow> bytes \<Rightarrow> ('n ssh_net \<times> bytes \<times> bool \<times> 'n) list \<Rightarrow> file_system \<Rightarrow>
    (dial_error + ssh_client) list \<times> file_system" where
  "dials sl path [] fs = ([], fs)"
| "dials sl path ((net, addr, tofu, n) # rest) fs =
     (case dialPinned sl net \<lparr>sf_addr = addr, sf_hostKey = path, sf_tofu = tofu\<rparr> (n, fs) of
        (r, _, fs') \<Rightarrow> (case dials sl path rest fs' of (rs, fs'') \<Rightarrow> (r # rs, fs'')))"

lemma dialPinned_keeps_pin:
  assumes "dialPinned sl net f (n, fs) = (r, n', fs')" "pinned sl (sf_hostKey f) key fs"
  shows "pinned sl (sf_hostKey f) key fs'" "r = Inr c \<Longrightarrow> cl_key c = key"
  using dialPinned_pinned [OF assms(1)] assms(2) by (auto simp: pinned_def)

lemma dialPinned_pins:
  assumes "dialPinned sl net f (n, fs) = (Inr c, n', fs')" "\<And>k. al_Parse sl (al_Marshal sl k) = Some k"
  shows "pinned sl (sf_hostKey f) (cl_key c) fs'"
  using dialPinned_pinned [OF assms(1)] dialPinned_unpinned(2) [OF assms(1)] assms(2)
  by (cases "map_of (fs_files fs) (sf_hostKey f)") (auto simp: pinned_def)

lemma dials_pinned:
  assumes "dials sl path ds fs = (rs, fs')" "pinned sl path key fs" "Inr c \<in> set rs"
  shows "cl_key c = key"
  using assms
proof (induction sl path ds fs arbitrary: rs fs' rule: dials.induct)
  case (2 sl path net addr tofu n rest fs)
  let ?f = "\<lparr>sf_addr = addr, sf_hostKey = path, sf_tofu = tofu\<rparr>"
  obtain r n' fs1 rs' where d: "dialPinned sl net ?f (n, fs) = (r, n', fs1)" "dials sl path rest fs1 = (rs', fs')"
    "rs = r # rs'"
    using "2.prems"(1) by (auto split: prod.splits)
  have "pinned sl path key fs1" using dialPinned_keeps_pin(1) [OF d(1)] "2.prems"(2) by simp
  then show ?case using "2.IH" [OF d(1)[symmetric] refl d(2)] dialPinned_keeps_pin(2) [OF d(1)] "2.prems"(2,3) d(3) by auto
qed simp

lemma dials_agree:
  assumes law: "\<And>k. al_Parse sl (al_Marshal sl k) = Some k"
    and "dials sl path ds fs = (rs, fs')" "Inr c \<in> set rs" "Inr c' \<in> set rs"
  shows "cl_key c = cl_key c'"
  using assms(2-)
proof (induction ds arbitrary: fs rs)
  case (Cons d rest)
  obtain net addr tofu n where "d = (net, addr, tofu, n)" by (cases d)
  let ?f = "\<lparr>sf_addr = addr, sf_hostKey = path, sf_tofu = tofu\<rparr>"
  obtain r n' fs1 rs' where d: "dialPinned sl net ?f (n, fs) = (r, n', fs1)" "dials sl path rest fs1 = (rs', fs')"
    "rs = r # rs'"
    using Cons.prems(1) \<open>d = _\<close> by (auto split: prod.splits)
  have "cl_key y = cl_key x" if "r = Inr x" "Inr y \<in> set rs'" for x y
    using dials_pinned [OF d(2) _ that(2)] dialPinned_pins [OF _ law] d(1) that(1) by fastforce
  then show ?case using Cons.IH [OF d(2)] Cons.prems(2,3) d(3) by (metis set_ConsD sum.inject(2))
qed simp

section \<open>The device behind the network\<close>

text \<open>
  The network of an honest device: the host key is the server's, a command is one session of the server of
  \<^verbatim>\<open>internal/provision\<close>, its standard input may arrive in any chunks and its answer may be late or get lost.
\<close>

record 's device =
  dn_server :: server
  dn_witness :: "'s witness"
  dn_host_clock :: int

record delivery =
  dl_chunks :: "bytes \<Rightarrow> bytes list"
  dl_delay :: "bytes \<Rightarrow> int option"

definition device_run :: "signer_lib \<Rightarrow> (signer_ref \<Rightarrow> bytes) \<Rightarrow> delivery \<Rightarrow> ssh_client \<Rightarrow> bytes \<Rightarrow> bytes \<Rightarrow> 's device \<Rightarrow>
    (int \<times> ssh_reply) option \<times> 's device" where
  "device_run lib vs dl client cmd stdin n =
     (case handleSession lib vs (dl_chunks dl stdin) [ReqExec (Some cmd)] new_session (dn_server n) (dn_witness n) of
        (se, s', w') \<Rightarrow>
          (map_option (\<lambda>delay. (delay, if se_exit se = Some 0 then RunOutput (se_out se) else RunError (se_err se))) (dl_delay dl cmd),
           n\<lparr>dn_server := s', dn_witness := w'\<rparr>))"

definition device_net :: "signer_lib \<Rightarrow> (signer_ref \<Rightarrow> bytes) \<Rightarrow> delivery \<Rightarrow> 's device ssh_net" where
  "device_net lib vs dl =
     \<lparr>sn_hostKey = (\<lambda>_ n. (Some (HostPublicKey (dn_server n)), n)),
      sn_finish = (\<lambda>_ n. (True, n)),
      sn_run = device_run lib vs dl,
      sn_now = (\<lambda>n. (dn_host_clock n, n))\<rparr>"

lemma device_net_simps [simp]:
  "sn_hostKey (device_net lib vs dl) addr n = (Some (HostPublicKey (dn_server n)), n)"
  "sn_finish (device_net lib vs dl) addr n = (True, n)"
  "sn_run (device_net lib vs dl) = device_run lib vs dl"
  "sn_now (device_net lib vs dl) n = (dn_host_clock n, n)"
  by (simp_all add: device_net_def)

lemma device_run_exec:
  "device_run lib vs dl client cmd stdin n =
     (case server_exec lib vs (dl_chunks dl stdin) cmd (dn_server n) (dn_witness n) of (r, s', w') \<Rightarrow>
        (map_option (\<lambda>delay. (delay, case r of Inl e \<Rightarrow> RunError (fail_text lib e) | Inr out \<Rightarrow> RunOutput out)) (dl_delay dl cmd),
         n\<lparr>dn_server := s', dn_witness := w'\<rparr>))"
  by (auto simp: device_run_def new_session_def exit_status_def split: prod.splits sum.splits)

lemma sshRun_device:
  assumes "dl_delay dl cmd = Some delay"
  shows "sshRun (device_net lib vs dl) client cmd stdin n =
     (case server_exec lib vs (dl_chunks dl stdin) cmd (dn_server n) (dn_witness n) of (r, s', w') \<Rightarrow>
        (case r of Inl e \<Rightarrow> Inl (CommandFailed cmd (TrimSpace (fail_text lib e))) | Inr out \<Rightarrow> Inr out, n\<lparr>dn_server := s', dn_witness := w'\<rparr>))"
  using assms by (auto simp: sshRun_def device_run_exec split: prod.splits sum.splits)

text \<open>
  What the host relies on of the texts the device prints, as the libraries document them: the name of a key is valid UTF-8
  without white space and \<open>+\<close>, a verifier key is a word (the name with a hash and a base64 text), a time is printable ASCII,
  and parsing a formatted time of the years 0 to 9999 gives the time back, in nanoseconds.
\<close>

definition year_ok :: "int \<Rightarrow> bool" where
  "year_ok t \<longleftrightarrow> -62167219200 \<le> t \<and> t < 253402300800"

definition texts_ok :: "signer_lib \<Rightarrow> (signer_ref \<Rightarrow> bytes) \<Rightarrow> ssh_lib \<Rightarrow> bool" where
  "texts_ok lib vs sl \<longleftrightarrow>
     (\<forall>t. year_ok t \<longrightarrow> list_all graphic (sl_rfc3339 lib t) \<and> tm_Parse sl (sl_rfc3339 lib t) = Some (t * time_Second)) \<and>
     (\<forall>r. word_text (vs r)) \<and>
     (\<forall>n k. sl_nameOk lib n \<longrightarrow> valid_key_name n \<and> word_text (sl_verifier lib n k) \<and> sl_verifier lib n k \<noteq> [])"

lemma split_on_line: "word_text a \<Longrightarrow> split_on nl (a @ nl # b) = a # split_on nl b"
  using split_on_append [of nl a b] split_on_plain [OF word_text_newline] by simp

lemma check_time_skip:
  assumes "word_text l" "\<not> has_prefix ''time='' l" "l \<noteq> []"
  shows "check_time_lines sl now tol (split_on nl (l @ nl # rest)) = check_time_lines sl now tol (split_on nl rest)"
  using assms by (simp add: split_on_line TrimSpace_word(2) cut_prefix_def)

lemma check_time_hit:
  assumes "list_all graphic ts" "tm_Parse sl ts = Some t"
  shows "check_time_lines sl now tol (split_on nl ((''time='' @ ts) @ nl # rest)) =
    (if tol < \<bar>t - now\<bar> then Inl (ClockOff ts) else Inr ())"
proof -
  have g: "word_text (''time='' @ ts)" using assms(1) by (intro word_text_graphic) (simp add: graphic_def)
  have "TrimSpace (''time='' @ ts) = ''time='' @ ts" by (rule TrimSpace_word(2) [OF g]) simp
  moreover have "cut_prefix ''time='' (''time='' @ ts) = Some ts" by (simp add: cut_prefix_def has_prefix_def)
  ultimately show ?thesis using assms(2) by (simp only: split_on_line [OF g] check_time_lines.simps option.case)
qed

lemma check_time_status:
  assumes "texts_ok lib vs sl" "year_ok (sv_clock s div time_Second)"
  shows "check_time_lines sl now tol (split_on nl (status_text lib vs s w)) =
    (if tol < \<bar>sv_clock s div time_Second * time_Second - now\<bar> then Inl (ClockOff (now_text lib s)) else Inr ())"
proof -
  let ?p = "''provisioned='' @ (if Provisioned w then ''true'' else ''false'')" and ?v = "''verifier='' @ Verifier vs w"
  let ?t = "(''time='' @ now_text lib s) @ nl # ''uptime='' @ sl_duration lib (uptime s) @ [nl]"
  have "word_text ''verifier=''" by (rule word_text_graphic) (simp add: graphic_def)
  moreover have "word_text (Verifier vs w)" using assms(1) by (auto simp: texts_ok_def Verifier_def split: option.split)
  ultimately have g: "word_text ?p" "word_text ?v"
    using word_text_append [of "''verifier=''" "Verifier vs w"] by (auto simp: graphic_def intro!: word_text_graphic)
  have t: "list_all graphic (now_text lib s)" "tm_Parse sl (now_text lib s) = Some (sv_clock s div time_Second * time_Second)"
    using assms by (simp_all add: texts_ok_def now_text_def)
  have "status_text lib vs s w = ?p @ nl # (if Verifier vs w \<noteq> [] then ?v @ nl # ?t else ?t)"
    by (simp add: status_text_def Let_def)
  then have "check_time_lines sl now tol (split_on nl (status_text lib vs s w)) = check_time_lines sl now tol (split_on nl ?t)"
    using check_time_skip [OF g(1)] check_time_skip [OF g(2), of sl now tol ?t] by (simp add: has_prefix_def)
  then show ?thesis using check_time_hit [OF t] by simp
qed

lemma dialPinned_device:
  assumes "fs_faults fs = []" "pinned sl (sf_hostKey f) (HostPublicKey (dn_server n)) fs"
  shows "dialPinned sl (device_net lib vs dl) f (n, fs) = (Inr \<lparr>cl_addr = sf_addr f, cl_key = HostPublicKey (dn_server n)\<rparr>, n, fs)"
  using assms by (auto simp: dialPinned_def os_ReadFile_def pinned_def from_net_def dialCallback_def)

text \<open>\<open>settime\<close> with the host's clock, seen by the device.\<close>

lemma exec_settime:
  assumes "cfg_SetTime (sv_cfg s) = Some f" "0 \<le> sec" "sec < 2 ^ 63"
  shows "\<exists>out. server_exec lib vs stdin (''settime '' @ format_int sec) s w = (Inr out, s\<lparr>sv_clock := f sec\<rparr>, w)"
proof -
  have "Fields (''settime'' @ CHR 0x20 # format_int sec) = [''settime'', format_int sec]"
    by (rule Fields_two) (simp_all add: graphic_def list_all_graphic_format_int word_text_graphic)
  moreover have "parse_int64 (format_int sec) = Some sec" using assms by (intro parse_int64_format_int) auto
  ultimately show ?thesis using assms by (simp add: server_exec_def settime_def Let_def)
qed

lemma cmd_settime_device:
  assumes "fs_faults fs = []" "pinned sl (sf_hostKey f) (HostPublicKey (dn_server n)) fs"
    "cfg_SetTime (sv_cfg (dn_server n)) = Some g" "0 \<le> dn_host_clock n" "dn_host_clock n < 2 ^ 63"
  shows "\<exists>x. cmd_settime sl (device_net lib vs dl) f timeout (n, fs) =
    (Inr x, n\<lparr>dn_server := (dn_server n)\<lparr>sv_clock := g (dn_host_clock n div time_Second)\<rparr>\<rparr>, fs)"
proof -
  let ?sec = "dn_host_clock n div time_Second"
  have "0 \<le> ?sec" using assms(4) by (simp add: time_Second_def)
  moreover have "?sec < 2 ^ 63"
    using assms(4,5) unfolding time_Second_def by linarith
  ultimately obtain out where
    "server_exec lib vs (dl_chunks dl []) (''settime '' @ format_int ?sec) (dn_server n) (dn_witness n) =
      (Inr out, (dn_server n)\<lparr>sv_clock := g ?sec\<rparr>, dn_witness n)"
    using exec_settime [OF assms(3)] by blast
  then show ?thesis
    using dialPinned_device [OF assms(1,2)]
    by (auto simp: cmd_settime_def io_bind_def io_map_error_def from_net_def device_run_exec
        split: option.split)
qed

lemma verifyClock_device:
  assumes "texts_ok lib vs sl" "dl_delay dl ''status'' \<noteq> None" "year_ok (sv_clock (dn_server n) div time_Second)"
  shows "verifyClock sl (device_net lib vs dl) client now tol n =
    (if tol < \<bar>sv_clock (dn_server n) div time_Second * time_Second - now\<bar>
     then Inl (ClockOff (now_text lib (dn_server n))) else Inr (), n)"
proof -
  have "Fields ''status'' = [''status'']" by (rule Fields_one) (simp_all add: graphic_def word_text_graphic)
  moreover obtain d where "dl_delay dl ''status'' = Some d" using assms(2) by blast
  ultimately show ?thesis
    by (simp add: verifyClock_def io_bind_def io_map_error_def sshRun_device server_exec_def check_time_status [OF assms(1,3)])
qed

lemma exec_provision:
  assumes "valid_key_name name" "length seed = SeedSize" "sl_nameOk lib name" "key_inv lib s w"
    "concat stdin = hex_encode seed @ [nl]"
  shows "\<exists>s' w'. server_exec lib vs stdin (''provision '' @ name) s w = (Inr (sl_verifier lib name (sl_newKey lib seed) @ [nl]), s', w')
    \<and> w' = SetSigner (length (sv_keys s)) w \<and> sv_keys s' ! length (sv_keys s) = sl_newKey lib seed \<and> key_inv lib s' w'"
proof -
  have "Fields (''provision'' @ CHR 0x20 # name) = [''provision'', name]"
    using assms by (intro Fields_two) (simp_all add: graphic_def word_text_graphic valid_key_name_def)
  then have "server_exec lib vs stdin (''provision '' @ name) s w = provision lib stdin name s w" by (simp add: server_exec_def)
  then show ?thesis using provision_installs_seed [OF assms(2-5)] by simp
qed

text \<open>The whole command against an honest device.\<close>

lemma cmdProvision_device:
  fixes n :: "'s device"
  assumes ok: "texts_ok lib vs sl" and fs: "fs_faults fs = []" "map_of (fs_files fs) (pf_seed fl) = Some seed" "length seed = SeedSize"
    and name: "sl_nameOk lib (pf_name fl)"
    and pin: "pinned sl (sf_hostKey (pf_ssh fl)) (HostPublicKey (dn_server n)) fs"
    and inv: "key_inv lib (dn_server n) (dn_witness n)"
    and clock: "pf_settime fl" "cfg_SetTime (sv_cfg (dn_server n)) = Some g" "0 \<le> dn_host_clock n" "dn_host_clock n < 2 ^ 63"
      "\<bar>g (dn_host_clock n div time_Second) div time_Second * time_Second - dn_host_clock n\<bar> \<le> clockTolerance"
    and dl: "\<And>b. concat (dl_chunks dl b) = b" "dl_delay dl ''status'' \<noteq> None" "dl_delay dl (''provision '' @ pf_name fl) \<noteq> None"
  shows "\<exists>n' r. cmdProvision lib sl (device_net lib vs dl) fl (n, fs) =
      (Inr (sl_verifier lib (pf_name fl) (sl_newKey lib seed)), n', fs)
    \<and> r = length (sv_keys (dn_server n)) \<and> dn_witness n' = SetSigner r (dn_witness n)
    \<and> sv_keys (dn_server n') ! r = sl_newKey lib seed \<and> key_inv lib (dn_server n') (dn_witness n')"
proof -
  let ?net = "device_net lib vs dl :: 's device ssh_net" and ?v = "sl_verifier lib (pf_name fl) (sl_newKey lib seed)"
  let ?s1 = "(dn_server n)\<lparr>sv_clock := g (dn_host_clock n div time_Second)\<rparr>"
  let ?n1 = "n\<lparr>dn_server := ?s1\<rparr>"
  have key: "HostPublicKey (dn_server ?n1) = HostPublicKey (dn_server n)" by (simp add: HostPublicKey_def)
  have rs: "read_seed lib (pf_seed fl) (pf_name fl) (n, fs) = (Inr seed, n, fs)"
    using fs name by (simp add: read_seed_def io_bind_def io_map_error_def from_fs_def os_ReadFile_def)
  obtain x where st: "cmd_settime sl ?net (pf_ssh fl) settimeReplyTimeout (n, fs) = (Inr x, ?n1, fs)"
    using cmd_settime_device [OF fs(1) pin clock(2-4)] by blast
  have dp: "dialPinned sl ?net (pf_ssh fl) (?n1, fs) =
      (Inr \<lparr>cl_addr = sf_addr (pf_ssh fl), cl_key = HostPublicKey (dn_server n)\<rparr>, ?n1, fs)"
    using dialPinned_device [OF fs(1), of sl "pf_ssh fl" ?n1 lib vs dl] pin unfolding key .
  have "year_ok (sv_clock (dn_server ?n1) div time_Second)"
    using clock(3-5) by (simp add: year_ok_def clockTolerance_def time_Second_def) linarith
  then have vc: "verifyClock sl ?net client (dn_host_clock n) clockTolerance ?n1 = (Inr (), ?n1)" for client
    using verifyClock_device [OF ok dl(2), of ?n1 client] clock(5) by simp
  have word: "valid_key_name (pf_name fl)" using ok name by (simp add: texts_ok_def)
  have inv1: "key_inv lib ?s1 (dn_witness n)" using inv by (simp add: key_inv_def)
  obtain s' w' where pr: "server_exec lib vs (dl_chunks dl (hex_encode seed @ [nl])) (''provision '' @ pf_name fl) ?s1 (dn_witness n) =
      (Inr (?v @ [nl]), s', w')" "w' = SetSigner (length (sv_keys ?s1)) (dn_witness n)"
      "sv_keys s' ! length (sv_keys ?s1) = sl_newKey lib seed" "key_inv lib s' w'"
    using exec_provision [OF word fs(3) name inv1 dl(1)] by blast
  obtain d where d: "dl_delay dl (''provision '' @ pf_name fl) = Some d" using dl(3) by blast
  have run: "sshRun ?net client (''provision '' @ pf_name fl) (hex_encode seed @ [nl]) ?n1 =
      (Inr (?v @ [nl]), ?n1\<lparr>dn_server := s', dn_witness := w'\<rparr>)" for client
    unfolding sshRun_device [OF d] using pr(1) by simp
  have trim: "TrimSpace (?v @ [nl]) = ?v" using ok name by (intro TrimSpace_word) (auto simp: texts_ok_def)
  have "cmdProvision lib sl ?net fl (n, fs) = (Inr ?v, ?n1\<lparr>dn_server := s', dn_witness := w'\<rparr>, fs)"
    using clock(1) run
    by (simp add: cmdProvision_def io_bind_def io_map_error_def rs st dp from_net_def vc trim Let_def)
  with pr(2-4) show ?thesis by auto
qed

lemma cmdDeprovision_device:
  fixes n :: "'s device"
  assumes "fs_faults fs = []" "pinned sl (sf_hostKey f) (HostPublicKey (dn_server n)) fs" "dl_delay dl ''deprovision'' \<noteq> None"
  shows "cmdDeprovision sl (device_net lib vs dl) f (n, fs) =
    (Inr (), n\<lparr>dn_server := (zero_priv (dn_server n))\<lparr>sv_priv := None\<rparr>, dn_witness := ClearSigner (dn_witness n)\<rparr>, fs)"
proof -
  have "Fields ''deprovision'' = [''deprovision'']" by (rule Fields_one) (simp_all add: graphic_def word_text_graphic)
  then have "server_exec lib vs stdin ''deprovision'' s w = (Inr (''deprovisioned'' @ [nl]), (zero_priv s)\<lparr>sv_priv := None\<rparr>, ClearSigner w)"
    for stdin s and w :: "'s witness" by (simp add: server_exec_def deprovision_def)
  moreover obtain d where "dl_delay dl ''deprovision'' = Some d" using assms(3) by blast
  ultimately show ?thesis
    by (simp add: cmdDeprovision_def io_bind_def io_map_error_def dialPinned_device [OF assms(1,2)] from_net_def sshRun_device)
qed

section \<open>Where the seed goes\<close>

text \<open>A network that writes down every command it carries, with the peer that receives it.\<close>

definition traced :: "'n ssh_net \<Rightarrow> ('n \<times> (ssh_client \<times> bytes \<times> bytes) list) ssh_net" where
  "traced net =
     \<lparr>sn_hostKey = (\<lambda>addr (n, tr). case sn_hostKey net addr n of (k, n') \<Rightarrow> (k, n', tr)),
      sn_finish = (\<lambda>addr (n, tr). case sn_finish net addr n of (b, n') \<Rightarrow> (b, n', tr)),
      sn_run = (\<lambda>client cmd stdin (n, tr). case sn_run net client cmd stdin n of (r, n') \<Rightarrow> (r, n', tr @ [(client, cmd, stdin)])),
      sn_now = (\<lambda>(n, tr). case sn_now net n of (t, n') \<Rightarrow> (t, n', tr))\<rparr>"

definition trace_to :: "ssh_lib \<Rightarrow> bytes \<Rightarrow> bytes \<Rightarrow> ('n \<times> (ssh_client \<times> bytes \<times> bytes) list) \<times> file_system \<Rightarrow> bool" where
  "trace_to sl path key = (\<lambda>((n, tr), fs). pinned sl path key fs \<and> (\<forall>e \<in> set tr. cl_key (fst e) = key))"

lemma dialCallback_traced:
  "dialCallback (traced net) addr cb (n, tr) = (r, n', tr') \<Longrightarrow> tr' = tr"
  by (auto simp: dialCallback_def traced_def split: prod.splits option.splits if_splits bool.splits)

lemma dialPinned_traced:
  "dialPinned sl (traced net) f ((n, tr), fs) = (r, (n', tr'), fs') \<Longrightarrow> tr' = tr"
  by (auto simp: dialPinned_def dialTOFU_def io_bind_def from_net_def from_fs_def
      split: prod.splits sum.splits option.splits if_splits dest: dialCallback_traced)

lemma keeps_dialPinned [io_keeps_intros]:
  "io_keeps (trace_to sl (sf_hostKey f) key) (dialPinned sl (traced net) f) (\<lambda>c. cl_key c = key)"
  by (rule io_keepsI) (auto simp: trace_to_def dest: dialPinned_traced dialPinned_keeps_pin)

lemma keeps_sshRun [io_keeps_intros]:
  "cl_key c = key \<Longrightarrow> io_keeps (trace_to sl path key) (from_net (sshRun (traced net) c cmd stdin)) (\<lambda>_. True)"
  by (rule io_keepsI) (auto simp: trace_to_def from_net_def sshRun_def traced_def split: prod.splits option.splits ssh_reply.splits)

lemma keeps_read_seed [io_keeps_intros]:
  "io_keeps (trace_to sl path key) (read_seed lib seedPath name) (\<lambda>_. True)"
  by (rule io_keepsI) (auto simp: trace_to_def read_seed_def io_bind_def io_map_error_def from_fs_def os_ReadFile_def pinned_def
      split: prod.splits sum.splits option.splits if_splits)

lemma keeps_settime [io_keeps_intros]:
  "io_keeps (trace_to sl (sf_hostKey f) key) (cmd_settime sl (traced net) f timeout) (\<lambda>_. True)"
  unfolding cmd_settime_def
proof (rule io_keeps_bind [OF io_keeps_map_error [OF keeps_dialPinned]], rule io_keepsI, goal_cases)
  case (1 c n r n')
  then show ?case
    by (auto simp: trace_to_def from_net_def traced_def split: prod.splits option.splits if_splits ssh_reply.splits)
qed

lemma keeps_verifyClock [io_keeps_intros]:
  "cl_key c = key \<Longrightarrow> io_keeps (trace_to sl path key)
     (from_net (\<lambda>n. case sn_now (traced net) n of (now, n') \<Rightarrow> verifyClock sl (traced net) c now tol n')) (\<lambda>_. True)"
  by (rule io_keepsI) (auto simp: trace_to_def from_net_def verifyClock_def io_bind_def io_map_error_def sshRun_def traced_def
      split: prod.splits sum.splits option.splits ssh_reply.splits)

lemma keeps_cmdProvision:
  "io_keeps (trace_to sl (sf_hostKey (pf_ssh fl)) key) (cmdProvision lib sl (traced net) fl) (\<lambda>_. True)"
  unfolding cmdProvision_def Let_def
  apply (rule io_keeps_bind [OF keeps_read_seed])
  apply (rule io_keeps_bind [where Q = "\<lambda>_. True"])
   apply (intro io_keeps_intros TrueI)
  apply (rule io_keeps_bind [OF io_keeps_map_error [OF keeps_dialPinned]])
  apply (rule io_keeps_bind [where Q = "\<lambda>_. True"])
   apply (intro io_keeps_intros TrueI, assumption)
  apply (erule io_keeps_bind [OF io_keeps_map_error [OF keeps_sshRun]])
  apply (intro io_keeps_intros TrueI)
  done

section \<open>Properties\<close>

definition example_ssh_lib :: ssh_lib where
  "example_ssh_lib = \<lparr>al_Parse = hex_decode, al_Marshal = hex_encode,
     tm_Parse = (\<lambda>ts. map_option (\<lambda>t. t * time_Second) (parse_int64 ts))\<rparr>"

lemma example_texts_ok: "texts_ok example_lib (\<lambda>_. ''v'') example_ssh_lib"
proof -
  have "parse_int64 (format_int t) = Some t" if "year_ok t" for t
    using that by (intro parse_int64_format_int) (auto simp: year_ok_def)
  moreover have "word_text (n @ ''+'' @ hex_encode k)" if "valid_key_name n" for n k
    using that word_text_graphic [of "CHR ''+'' # hex_encode k"] list_all_graphic_hex_encode [of k]
      word_text_append [of n "CHR ''+'' # hex_encode k"]
    by (simp add: valid_key_name_def graphic_def)
  ultimately show ?thesis
    using list_all_graphic_format_int by (auto simp: texts_ok_def example_lib_def example_ssh_lib_def graphic_def intro!: word_text_graphic)
qed

text \<open>
  C24: One host key for ever. In any history of connection attempts with one pin file, with or without trust on first
  use, over networks and with file-system faults of any kind, all attempts that succeed reach a peer with the
  same host key.
\<close>

theorem pin_is_permanent:
  assumes "\<And>k. al_Parse sl (al_Marshal sl k) = Some k" "dials sl path ds fs = (rs, fs')"
    "Inr c \<in> set rs" "Inr c' \<in> set rs"
  shows "cl_key c = cl_key c'"
  using assms by (rule dials_agree)

definition peer_net :: "bytes \<Rightarrow> unit ssh_net" where
  "peer_net key = \<lparr>sn_hostKey = (\<lambda>_ n. (Some key, n)), sn_finish = (\<lambda>_ n. (True, n)), sn_run = (\<lambda>_ _ _ n. (None, n)),
     sn_now = (\<lambda>n. (0, n))\<rparr>"

theorem pin_is_permanent_witness:
  "fst (dials example_ssh_lib ''p'' [(peer_net ''K'', ''a'', True, ()), (peer_net ''M'', ''a'', True, ()), (peer_net ''K'', ''b'', False, ())]
     \<lparr>fs_files = [], fs_faults = []\<rparr>) =
   [Inr \<lparr>cl_addr = ''a'', cl_key = ''K''\<rparr>, Inl HostKeyRefused, Inr \<lparr>cl_addr = ''b'', cl_key = ''K''\<rparr>]
   \<and> cl_key \<lparr>cl_addr = ''a'', cl_key = ''K''\<rparr> = cl_key \<lparr>cl_addr = ''b'', cl_key = ''K''\<rparr>"
proof -
  let ?ds = "[(peer_net ''K'', ''a'', True, ()), (peer_net ''M'', ''a'', True, ()), (peer_net ''K'', ''b'', False, ())]"
  let ?fs = "\<lparr>fs_files = [], fs_faults = []\<rparr>"
  have law: "al_Parse example_ssh_lib (al_Marshal example_ssh_lib k) = Some k" for k by (simp add: example_ssh_lib_def)
  have run: "fst (dials example_ssh_lib ''p'' ?ds ?fs) =
      [Inr \<lparr>cl_addr = ''a'', cl_key = ''K''\<rparr>, Inl HostKeyRefused, Inr \<lparr>cl_addr = ''b'', cl_key = ''K''\<rparr>]"
    by code_simp
  then show ?thesis
    using pin_is_permanent [OF law, of "''p''" ?ds ?fs "fst (dials example_ssh_lib ''p'' ?ds ?fs)"] by fastforce
qed

text \<open>
  C25: The seed reaches only the pinned device. When the pin file holds a host key, every command that \<open>vitrum provision\<close>
  sends, the one that carries the seed included, goes to a peer that proved this key, whatever the network does and
  however the command ends.
\<close>

theorem seed_only_to_pinned_device:
  assumes "pinned sl (sf_hostKey (pf_ssh fl)) key fs"
    "cmdProvision lib sl (traced net) fl ((n, []), fs) = (r, (n', sent), fs')"
  shows "\<forall>(client, cmd, stdin) \<in> set sent. cl_key client = key"
proof -
  have "trace_to sl (sf_hostKey (pf_ssh fl)) key ((n, []), fs)" using assms(1) by (simp add: trace_to_def)
  from io_keepsD [OF keeps_cmdProvision this assms(2)] show ?thesis by (auto simp: trace_to_def)
qed

definition example_files :: file_system where
  "example_files = \<lparr>fs_files = [(''seed'', make_bytes 32), (''pin'', hex_encode (make_bytes 32))], fs_faults = []\<rparr>"

text \<open>The key has a name that is not ASCII, ending in e with an acute accent.\<close>

definition example_key_name :: bytes where
  "example_key_name = ''cl'' @ [CHR 0xC3, CHR 0xA9]"

lemma example_key_name_valid [simp]: "valid_key_name example_key_name"
  by code_simp

definition example_provision :: provision_flags where
  "example_provision = \<lparr>pf_ssh = \<lparr>sf_addr = ''a'', sf_hostKey = ''pin'', sf_tofu = False\<rparr>, pf_seed = ''seed'', pf_name = example_key_name,
     pf_settime = True\<rparr>"

definition example_delivery :: delivery where
  "example_delivery = \<lparr>dl_chunks = (\<lambda>b. [take 7 b, drop 7 b]), dl_delay = (\<lambda>cmd. if has_prefix ''settime'' cmd then None else Some 1)\<rparr>"

definition example_device :: "log_states device" where
  "example_device = \<lparr>dn_server = example_server, dn_witness = New NewMemStore, dn_host_clock = 1752537600 * time_Second + 5\<rparr>"

lemma example_pinned: "pinned example_ssh_lib (sf_hostKey (pf_ssh example_provision)) (make_bytes 32) example_files"
  by (simp add: pinned_def example_files_def example_provision_def example_ssh_lib_def)

theorem seed_only_to_pinned_device_witness:
  "\<exists>r n' sent fs'. cmdProvision example_lib example_ssh_lib (traced (device_net example_lib (\<lambda>_. ''v'') example_delivery))
      example_provision ((example_device, []), example_files) = (r, (n', sent), fs')
    \<and> (\<forall>(client, cmd, stdin) \<in> set sent. cl_key client = make_bytes 32)"
proof -
  obtain r n' sent fs' where run: "cmdProvision example_lib example_ssh_lib (traced (device_net example_lib (\<lambda>_. ''v'') example_delivery))
      example_provision ((example_device, []), example_files) = (r, (n', sent), fs')"
    by (metis prod.exhaust)
  from seed_only_to_pinned_device [OF example_pinned run] run show ?thesis by blast
qed

text \<open>
  C23: Provisioning end to end. Against an honest device whose host key is pinned and whose clock can be set, with the
  seed file in place and no file-system fault, \<open>vitrum provision\<close> succeeds, even when the reply to \<open>settime\<close> is lost:
  it reports the verifier key of the seed, and the witness of the device then signs with the key of the seed
  under a new epoch, every earlier key being destroyed.
\<close>

theorem provision_end_to_end:
  assumes "texts_ok lib vs sl" "fs_faults fs = []" "map_of (fs_files fs) (pf_seed fl) = Some seed" "length seed = SeedSize"
    "sl_nameOk lib (pf_name fl)" "pinned sl (sf_hostKey (pf_ssh fl)) (HostPublicKey (dn_server n)) fs"
    "key_inv lib (dn_server n) (dn_witness n)"
    "pf_settime fl" "cfg_SetTime (sv_cfg (dn_server n)) = Some g" "0 \<le> dn_host_clock n" "dn_host_clock n < 2 ^ 63"
    "\<bar>g (dn_host_clock n div time_Second) div time_Second * time_Second - dn_host_clock n\<bar> \<le> clockTolerance"
    "\<And>b. concat (dl_chunks dl b) = b" "dl_delay dl ''status'' \<noteq> None" "dl_delay dl (''provision '' @ pf_name fl) \<noteq> None"
  shows "\<exists>n' r. cmdProvision lib sl (device_net lib vs dl) fl (n, fs) =
      (Inr (sl_verifier lib (pf_name fl) (sl_newKey lib seed)), n', fs)
    \<and> w_signer (dn_witness n') = Some r \<and> sv_keys (dn_server n') ! r = sl_newKey lib seed
    \<and> w_epoch (dn_witness n') = w_epoch (dn_witness n) + 1
    \<and> (\<forall>i < length (sv_keys (dn_server n')). i \<noteq> r \<longrightarrow> sv_keys (dn_server n') ! i = make_bytes (length (sv_keys (dn_server n') ! i)))"
proof -
  obtain n' r where "cmdProvision lib sl (device_net lib vs dl) fl (n, fs) =
      (Inr (sl_verifier lib (pf_name fl) (sl_newKey lib seed)), n', fs)"
    "w_signer (dn_witness n') = Some r" "sv_keys (dn_server n') ! r = sl_newKey lib seed"
    "w_epoch (dn_witness n') = w_epoch (dn_witness n) + 1" and inv: "key_inv lib (dn_server n') (dn_witness n')"
    using cmdProvision_device [OF assms] by (auto simp: SetSigner_def)
  moreover have "\<forall>i < length (sv_keys (dn_server n')). i \<noteq> r \<longrightarrow>
      sv_keys (dn_server n') ! i = make_bytes (length (sv_keys (dn_server n') ! i))"
    using inv \<open>w_signer (dn_witness n') = Some r\<close> by (auto simp: key_inv_def zero_def)
  ultimately show ?thesis by blast
qed

theorem provision_end_to_end_witness:
  "\<exists>n' r. cmdProvision example_lib example_ssh_lib (device_net example_lib (\<lambda>_. ''v'') example_delivery) example_provision
      (example_device, example_files) = (Inr (example_key_name @ ''+'' @ hex_encode (make_bytes 64)), n', example_files)
    \<and> w_signer (dn_witness n') = Some r"
proof -
  have "make_bytes 32 @ make_bytes 32 = make_bytes 64" by (simp add: make_bytes_def replicate_add [symmetric])
  moreover have "\<exists>n' r. cmdProvision example_lib example_ssh_lib (device_net example_lib (\<lambda>_. ''v'') example_delivery) example_provision
      (example_device, example_files) =
        (Inr (sl_verifier example_lib (pf_name example_provision) (sl_newKey example_lib (make_bytes 32))), n', example_files)
    \<and> w_signer (dn_witness n') = Some r \<and> sv_keys (dn_server n') ! r = sl_newKey example_lib (make_bytes 32)
    \<and> w_epoch (dn_witness n') = w_epoch (dn_witness example_device) + 1
    \<and> (\<forall>i < length (sv_keys (dn_server n')). i \<noteq> r \<longrightarrow> sv_keys (dn_server n') ! i = make_bytes (length (sv_keys (dn_server n') ! i)))"
    by (rule provision_end_to_end [OF example_texts_ok, where g = "\<lambda>sec. sec * time_Second"])
      (use example_pinned in \<open>simp_all add: example_files_def example_provision_def example_lib_def example_device_def
         example_server_def example_config_def example_delivery_def SeedSize_def key_inv_def New_def has_prefix_def
         HostPublicKey_def graphic_def time_Second_def clockTolerance_def\<close>)
  ultimately show ?thesis by (auto simp: example_lib_def example_provision_def)
qed

end
