(* ===== verification/Keygen.thy ===== *)
theory Keygen
  imports Provision_Client
begin

text \<open>
  \<open>vitrum keygen\<close>, \<open>vitrum hostkey\<close> and the command dispatch (\<^verbatim>\<open>cmd/vitrum/keygen.go\<close>, \<^verbatim>\<open>hostkey.go\<close>, \<^verbatim>\<open>main.go\<close>).
  Randomness is an argument (\<open>None\<close> for a failing source). The two output files are a Go map from paths to data: with
  equal paths the later entry of the literal wins, and the files are written in an order of Go's choosing.
\<close>

record keygen_flags =
  kg_seed :: bytes
  kg_public :: bytes
  kg_name :: bytes
  kg_force :: bool

datatype keygen_error =
    SeedExists
  | RandFailed
  | KeyRefused
  | MakingDir bytes
  | WritingFile bytes

text \<open>\<open>os.Stat\<close> succeeded and the flag is not set; any other outcome of \<open>Stat\<close> lets the command go on.\<close>

definition refuse_existing :: "keygen_flags \<Rightarrow> (file_system, keygen_error, unit) io" where
  "refuse_existing fl fs =
     (case os_Stat (kg_seed fl) fs of (found, fs') \<Rightarrow>
        if found \<and> \<not> kg_force fl then (Inl SeedExists, fs') else (Inr (), fs'))"

definition gen_seed :: "bytes option \<Rightarrow> (file_system, keygen_error, bytes) io" where
  "gen_seed rand = (case rand of None \<Rightarrow> io_fail RandFailed | Some seed \<Rightarrow> io_return seed)"

fun write_files :: "(bytes \<times> bytes) list \<Rightarrow> (file_system, keygen_error, unit) io" where
  "write_files [] fs = (Inr (), fs)"
| "write_files ((path, data) # rest) fs =
     (case os_MkdirAll (Dir path) fs of
        (False, fs') \<Rightarrow> (Inl (MakingDir path), fs')
      | (True, fs') \<Rightarrow>
          case os_WriteFile path data fs' of
            (False, fs') \<Rightarrow> (Inl (WritingFile path), fs')
          | (True, fs') \<Rightarrow> write_files rest fs')"

text \<open>The map literal, as an association list.\<close>

definition two_files :: "bytes \<Rightarrow> bytes \<Rightarrow> bytes \<Rightarrow> bytes \<Rightarrow> (bytes, bytes) gomap" where
  "two_files p1 d1 p2 d2 = AList.update p2 d2 (AList.update p1 d1 [])"

text \<open>\<open>order\<close> is the iteration order of the map: a function that permutes the entries.\<close>

definition cmdKeygen :: "signer_lib \<Rightarrow> bytes option \<Rightarrow> ((bytes \<times> bytes) list \<Rightarrow> (bytes \<times> bytes) list) \<Rightarrow> keygen_flags \<Rightarrow>
    (file_system, keygen_error, bytes) io" where
  "cmdKeygen lib rand order fl =
     io_bind (refuse_existing fl) (\<lambda>_.
     io_bind (gen_seed rand) (\<lambda>seed.
     if \<not> sl_nameOk lib (kg_name fl) then io_fail KeyRefused
     else
       let vkey = sl_verifier lib (kg_name fl) (sl_newKey lib seed) in
       io_bind (write_files (order (two_files (kg_seed fl) seed (kg_public fl) (vkey @ [nl])))) (\<lambda>_.
       io_return vkey)))"

definition cmdHostkey :: "signer_lib \<Rightarrow> ssh_lib \<Rightarrow> bytes option \<Rightarrow> ((bytes \<times> bytes) list \<Rightarrow> (bytes \<times> bytes) list) \<Rightarrow> keygen_flags \<Rightarrow>
    (file_system, keygen_error, bytes) io" where
  "cmdHostkey lib sl rand order fl =
     io_bind (refuse_existing fl) (\<lambda>_.
     io_bind (gen_seed rand) (\<lambda>seed.
     case sl_hostKey lib seed of
       None \<Rightarrow> io_fail KeyRefused
     | Some pub \<Rightarrow>
         io_bind (write_files (order (two_files (kg_seed fl) seed (kg_public fl) (al_Marshal sl pub)))) (\<lambda>_.
         io_return pub)))"

datatype command = CmdKeygen | CmdHostkey | CmdProvision | CmdDeprovision | CmdFeed | CmdRecord | CmdSelftest

text \<open>\<open>main\<close>: the command of the argument vector and its arguments, or the usage message.\<close>

definition dispatch :: "bytes list \<Rightarrow> (command \<times> bytes list) option" where
  "dispatch argv =
     (if length argv < 2 then None
      else map_option (\<lambda>c. (c, drop 2 argv))
        (let name = argv ! 1 in
         if name = ''keygen'' then Some CmdKeygen
         else if name = ''hostkey'' then Some CmdHostkey
         else if name = ''provision'' then Some CmdProvision
         else if name = ''deprovision'' then Some CmdDeprovision
         else if name = ''feed'' then Some CmdFeed
         else if name = ''record'' then Some CmdRecord
         else if name = ''selftest'' then Some CmdSelftest
         else None))"

section \<open>What the commands write\<close>

lemma write_files_Inr:
  "write_files es fs = (Inr (), fs') \<Longrightarrow> distinct (map fst es) \<Longrightarrow> map_of (fs_files fs') = map_of (fs_files fs) ++ map_of es"
proof (induction es fs rule: write_files.induct)
  case (2 path data rest fs)
  then obtain fs1 fs2 where "os_MkdirAll (Dir path) fs = (True, fs1)" "os_WriteFile path data fs1 = (True, fs2)"
    "write_files rest fs2 = (Inr (), fs')" "fs_files fs2 = AList.update path data (fs_files fs)"
    by (auto simp: os_MkdirAll_def split: prod.splits bool.splits if_splits dest: os_WriteFile_ok)
  moreover have "map_of rest path = None" using "2.prems"(2) by (simp add: map_of_eq_None_iff)
  ultimately show ?case using 2 by (auto simp: update_conv' fun_eq_iff map_add_def split: option.splits)
qed simp

lemma write_two_files:
  assumes "write_files (order (two_files p1 d1 p2 d2)) fs = (Inr (), fs')" "\<And>es. mset (order es) = mset es"
  shows "map_of (fs_files fs') = (map_of (fs_files fs))(p1 \<mapsto> d1, p2 \<mapsto> d2)"
proof -
  let ?es = "two_files p1 d1 p2 d2"
  have "mset (map fst (order ?es)) = mset (map fst ?es)" using assms(2) by (metis mset_map)
  moreover have d: "distinct (map fst ?es)" by (simp add: two_files_def distinct_update)
  ultimately have "distinct (map fst (order ?es))" using mset_eq_imp_distinct_iff by blast
  moreover from this d have "map_of (order ?es) = map_of ?es"
    using assms(2) by (intro map_of_inject_set [THEN iffD2]) (auto dest: mset_eq_setD)
  ultimately show ?thesis using write_files_Inr [OF assms(1)] by (simp add: two_files_def update_conv' fun_eq_iff map_add_def)
qed

lemma refuse_existing_Inr:
  assumes "refuse_existing fl fs = (Inr (), fs')"
  shows "fs_files fs' = fs_files fs \<and> (fs_faults fs = [] \<longrightarrow> kg_force fl \<or> map_of (fs_files fs) (kg_seed fl) = None)"
  using assms by (auto simp: refuse_existing_def os_Stat_def split: prod.splits if_splits)

lemma refuse_existing_Inl: "refuse_existing fl fs = (Inl e, fs') \<Longrightarrow> e = SeedExists \<and> fs_files fs' = fs_files fs"
  by (auto simp: refuse_existing_def os_Stat_def split: prod.splits if_splits)

lemma refuse_existing_seed:
  "fs_faults fs = [] \<Longrightarrow> map_of (fs_files fs) (kg_seed fl) \<noteq> None \<Longrightarrow> \<not> kg_force fl \<Longrightarrow>
    refuse_existing fl fs = (Inl SeedExists, fs)"
  by (auto simp: refuse_existing_def os_Stat_def)

lemma cmdKeygen_Inr:
  assumes "cmdKeygen lib rand order fl fs = (Inr v, fs')" "\<And>es. mset (order es) = mset es"
  shows "\<exists>seed. rand = Some seed \<and> v = sl_verifier lib (kg_name fl) (sl_newKey lib seed)
    \<and> map_of (fs_files fs') = (map_of (fs_files fs))(kg_seed fl \<mapsto> seed, kg_public fl \<mapsto> v @ [nl])
    \<and> (fs_faults fs = [] \<longrightarrow> kg_force fl \<or> map_of (fs_files fs) (kg_seed fl) = None)"
proof -
  from assms(1) obtain seed fs1 where "refuse_existing fl fs = (Inr (), fs1)" "rand = Some seed"
    "v = sl_verifier lib (kg_name fl) (sl_newKey lib seed)"
    "write_files (order (two_files (kg_seed fl) seed (kg_public fl) (v @ [nl]))) fs1 = (Inr (), fs')"
    by (auto simp: cmdKeygen_def gen_seed_def Let_def io_simps split: if_splits option.splits)
  with write_two_files [OF _ assms(2)] refuse_existing_Inr show ?thesis by metis
qed

lemma cmdHostkey_Inr:
  assumes "cmdHostkey lib sl rand order fl fs = (Inr pub, fs')" "\<And>es. mset (order es) = mset es"
  shows "\<exists>seed. rand = Some seed \<and> sl_hostKey lib seed = Some pub
    \<and> map_of (fs_files fs') = (map_of (fs_files fs))(kg_seed fl \<mapsto> seed, kg_public fl \<mapsto> al_Marshal sl pub)"
proof -
  from assms(1) obtain seed fs1 where "refuse_existing fl fs = (Inr (), fs1)" "rand = Some seed" "sl_hostKey lib seed = Some pub"
    "write_files (order (two_files (kg_seed fl) seed (kg_public fl) (al_Marshal sl pub))) fs1 = (Inr (), fs')"
    by (auto simp: cmdHostkey_def gen_seed_def io_simps split: option.splits)
  with write_two_files [OF _ assms(2)] refuse_existing_Inr show ?thesis by metis
qed

text \<open>The finding: with one path for both outputs the generated seed is written nowhere, or overwritten.\<close>

lemma keygen_same_path_loses_seed:
  assumes "cmdKeygen lib rand order fl fs = (Inr v, fs')" "\<And>es. mset (order es) = mset es" "kg_seed fl = kg_public fl"
  shows "map_of (fs_files fs') = (map_of (fs_files fs))(kg_seed fl \<mapsto> v @ [nl])"
  using cmdKeygen_Inr [OF assms(1,2)] assms(3) by auto

text \<open>
  Key generation. A successful \<open>vitrum keygen\<close> leaves, next to the files that were there, the seed and
  the verifier key that belongs to it, and on a healthy file system it never replaced an existing seed unless forced.
\<close>

lemma keygen_writes_pair:
  assumes "cmdKeygen lib rand order fl fs = (Inr v, fs')" "\<And>es. mset (order es) = mset es" "kg_seed fl \<noteq> kg_public fl"
  shows "\<exists>seed. rand = Some seed \<and> v = sl_verifier lib (kg_name fl) (sl_newKey lib seed)
    \<and> map_of (fs_files fs') (kg_seed fl) = Some seed \<and> map_of (fs_files fs') (kg_public fl) = Some (v @ [nl])
    \<and> (\<forall>path. path \<noteq> kg_seed fl \<longrightarrow> path \<noteq> kg_public fl \<longrightarrow> map_of (fs_files fs') path = map_of (fs_files fs) path)
    \<and> (fs_faults fs = [] \<longrightarrow> kg_force fl \<or> map_of (fs_files fs) (kg_seed fl) = None)"
  using cmdKeygen_Inr [OF assms(1,2)] assms(3) by auto

definition example_keygen :: keygen_flags where
  "example_keygen = \<lparr>kg_seed = ''k/s'', kg_public = ''k/v'', kg_name = ''k'', kg_force = False\<rparr>"

lemma example_keygen_run:
  "\<exists>fs'. cmdKeygen example_lib (Some ''S'') rev example_keygen \<lparr>fs_files = [], fs_faults = []\<rparr> = (Inr ''k+5353'', fs')"
  by (rule exI [of _ "\<lparr>fs_files = [(''k/v'', ''k+5353'' @ [nl]), (''k/s'', ''S'')], fs_faults = []\<rparr>"]) code_simp

text \<open>
  C31: The emulated device is the one that \<open>vitrum hostkey\<close> pins: after a successful run, a server whose host seed is the
  written seed file presents exactly the host key of the written pin file, so every later connection that
  succeeds reaches a peer with the key of this server.
\<close>

theorem hostkey_pins_device:
  assumes "\<And>k. al_Parse sl (al_Marshal sl k) = Some k" "\<And>es. mset (order es) = mset es"
    "cmdHostkey lib sl rand order fl fs = (Inr pub, fs')" "kg_seed fl \<noteq> kg_public fl"
    "map_of (fs_files fs') (kg_seed fl) = Some (cfg_HostSeed cfg)" "NewServer lib cfg now = Inr s"
    "dials sl (kg_public fl) ds fs' = (rs, fs'')" "Inr c \<in> set rs"
  shows "cl_key c = HostPublicKey s"
proof -
  from cmdHostkey_Inr [OF assms(3,2)] assms(4,5) obtain seed where
    "seed = cfg_HostSeed cfg" "sl_hostKey lib seed = Some pub" "map_of (fs_files fs') (kg_public fl) = Some (al_Marshal sl pub)"
    by auto
  moreover from this assms(6) have "HostPublicKey s = pub"
    by (auto simp: NewServer_def HostPublicKey_def Let_def split: if_splits)
  ultimately have "pinned sl (kg_public fl) (HostPublicKey s) fs'" using assms(1) by (auto simp: pinned_def)
  from dials_pinned [OF assms(7) this assms(8)] show ?thesis .
qed

lemma example_hostkey_run:
  "\<exists>fs'. cmdHostkey example_lib example_ssh_lib (Some (make_bytes 32)) id example_keygen \<lparr>fs_files = [], fs_faults = []\<rparr> =
      (Inr (make_bytes 32), fs') \<and> map_of (fs_files fs') ''k/s'' = Some (make_bytes 32) \<and>
     fst (dials example_ssh_lib ''k/v'' [(peer_net ''M'', ''a'', True, ()), (peer_net (make_bytes 32), ''a'', True, ())] fs') =
       [Inl HostKeyRefused, Inr \<lparr>cl_addr = ''a'', cl_key = make_bytes 32\<rparr>]"
  by (rule exI [of _ "\<lparr>fs_files = [(''k/s'', make_bytes 32), (''k/v'', hex_encode (make_bytes 32))], fs_faults = []\<rparr>"]) code_simp

theorem hostkey_pins_device_witness:
  "\<exists>s. NewServer example_lib example_config 0 = Inr s \<and> make_bytes 32 = HostPublicKey s"
proof -
  let ?ds = "[(peer_net ''M'', ''a'', True, ()), (peer_net (make_bytes 32), ''a'', True, ())]"
  obtain fs' where r: "cmdHostkey example_lib example_ssh_lib (Some (make_bytes 32)) id example_keygen \<lparr>fs_files = [], fs_faults = []\<rparr> =
      (Inr (make_bytes 32), fs')" "map_of (fs_files fs') ''k/s'' = Some (make_bytes 32)"
     "fst (dials example_ssh_lib ''k/v'' ?ds fs') = [Inl HostKeyRefused, Inr \<lparr>cl_addr = ''a'', cl_key = make_bytes 32\<rparr>]"
    using example_hostkey_run by blast
  obtain fs'' where d: "dials example_ssh_lib ''k/v'' ?ds fs' = ([Inl HostKeyRefused, Inr \<lparr>cl_addr = ''a'', cl_key = make_bytes 32\<rparr>], fs'')"
    using r(3) by (metis prod.collapse)
  have law: "al_Parse example_ssh_lib (al_Marshal example_ssh_lib k) = Some k" for k by (simp add: example_ssh_lib_def)
  have new: "NewServer example_lib example_config 0 = Inr example_server"
    by (simp add: NewServer_def example_lib_def example_config_def example_server_def SeedSize_def)
  have "cl_key \<lparr>cl_addr = ''a'', cl_key = make_bytes 32\<rparr> = HostPublicKey example_server"
    by (rule hostkey_pins_device [OF law _ r(1) _ _ new, of ?ds "[Inl HostKeyRefused, Inr \<lparr>cl_addr = ''a'', cl_key = make_bytes 32\<rparr>]" fs''])
      (use d r(2) in \<open>simp_all add: example_keygen_def example_config_def\<close>)
  with new show ?thesis by auto
qed

end
