(* ===== verification/Anchor.thy ===== *)
theory Anchor
  imports Vitrum_Prelude
begin

text \<open>
  The rollback anchor: the interface of \<^verbatim>\<open>internal/state/anchor.go\<close>, its in-memory implementation
  (\<^verbatim>\<open>anchor_mem.go\<close>), the failure-injecting anchor of the store tests, and the implementation over
  an RPMB sector (\<^verbatim>\<open>anchor_rpmb.go\<close>).

  The locale \<open>anchor\<close> states the contract: reads are authentic, a successful \<open>SetAnchor\<close> installs
  exactly the given state and only ever with a larger generation, and a failed one either changed
  nothing or installed the given state. The RPMB implementation keeps it for every driver that
  satisfies \<open>rpmb_driver_ok\<close>, what the code relies on of the driver's \<open>Read\<close> and \<open>Write\<close>.
\<close>

section \<open>The interface\<close>

record anchor_state =
  as_gen :: u32
  as_hash :: bytes
  as_bound :: bool

datatype anchor_error =
    NotBound
  | NotMonotonic u32 u32
  | RpmbReadError
  | RpmbUnknownFormat
  | RpmbWriteError
  | InjectedFailure

record 'a anchor_ops =
  an_get :: "'a \<Rightarrow> (anchor_error + anchor_state) \<times> 'a"
  an_set :: "'a \<Rightarrow> anchor_state \<Rightarrow> anchor_error option \<times> 'a"

definition fresh_anchor :: anchor_state where
  "fresh_anchor = \<lparr>as_gen = 0, as_hash = make_bytes 32, as_bound = False\<rparr>"

section \<open>MemAnchor\<close>

definition NewMemAnchor :: anchor_state where
  "NewMemAnchor = fresh_anchor"

definition mem_Anchor :: "anchor_state \<Rightarrow> (anchor_error + anchor_state) \<times> anchor_state" where
  "mem_Anchor a = (Inr a, a)"

definition mem_SetAnchor :: "anchor_state \<Rightarrow> anchor_state \<Rightarrow> anchor_error option \<times> anchor_state" where
  "mem_SetAnchor a next =
     (if \<not> as_bound next then (Some NotBound, a)
      else if as_gen next \<le> as_gen a then (Some (NotMonotonic (as_gen next) (as_gen a)), a)
      else (None, next))"

definition mem_anchor_ops :: "anchor_state anchor_ops" where
  "mem_anchor_ops = \<lparr>an_get = mem_Anchor, an_set = mem_SetAnchor\<rparr>"

section \<open>The failure-injecting anchor of the tests\<close>

record fail_anchor =
  fa_mem :: anchor_state
  fa_failAfter :: nat
  fa_sets :: nat

definition fail_Anchor :: "fail_anchor \<Rightarrow> (anchor_error + anchor_state) \<times> fail_anchor" where
  "fail_Anchor a = (Inr (fa_mem a), a)"

definition fail_SetAnchor :: "fail_anchor \<Rightarrow> anchor_state \<Rightarrow> anchor_error option \<times> fail_anchor" where
  "fail_SetAnchor a next =
     (let a = a\<lparr>fa_sets := fa_sets a + 1\<rparr>
      in if fa_failAfter a < fa_sets a then (Some InjectedFailure, a)
         else case mem_SetAnchor (fa_mem a) next of (e, m) \<Rightarrow> (e, a\<lparr>fa_mem := m\<rparr>))"

definition fail_anchor_ops :: "fail_anchor anchor_ops" where
  "fail_anchor_ops = \<lparr>an_get = fail_Anchor, an_set = fail_SetAnchor\<rparr>"

section \<open>RPMBAnchor\<close>

record 'r rpmb_ops =
  rp_read :: "'r \<Rightarrow> nat \<Rightarrow> nat \<Rightarrow> bytes option \<times> 'r"
  rp_write :: "'r \<Rightarrow> nat \<Rightarrow> bytes \<Rightarrow> bool \<times> 'r"

definition rpmbAnchorSector :: nat where "rpmbAnchorSector = 1"
definition anchorGenerationLen :: nat where "anchorGenerationLen = 4"
definition anchorMagic :: bytes where "anchorMagic = ''VITRUMA2''"
definition anchorRecordLen :: nat where
  "anchorRecordLen = anchorGenerationLen + length anchorMagic + 32"

text \<open>The bytes of the record, after the read and before the write.\<close>

definition decode_record :: "bytes \<Rightarrow> anchor_error + anchor_state" where
  "decode_record buf =
     (if buf = make_bytes anchorRecordLen then Inr fresh_anchor
      else if subslice anchorGenerationLen (anchorGenerationLen + length anchorMagic) buf \<noteq> anchorMagic
        then Inl RpmbUnknownFormat
      else Inr \<lparr>as_gen = get_u32_be buf,
                as_hash = copy_at 0 (drop (anchorGenerationLen + length anchorMagic) buf) (make_bytes 32),
                as_bound = True\<rparr>)"

definition encode_record :: "anchor_state \<Rightarrow> bytes" where
  "encode_record next =
     (let buf = make_bytes anchorRecordLen;
          buf = copy_at 0 (put_u32_be (as_gen next)) buf;
          buf = copy_at anchorGenerationLen anchorMagic buf
      in copy_at (anchorGenerationLen + length anchorMagic) (as_hash next) buf)"

definition rpmb_Anchor :: "'r rpmb_ops \<Rightarrow> 'r \<Rightarrow> (anchor_error + anchor_state) \<times> 'r" where
  "rpmb_Anchor ops r =
     (case rp_read ops r rpmbAnchorSector anchorRecordLen of
        (None, r') \<Rightarrow> (Inl RpmbReadError, r')
      | (Some buf, r') \<Rightarrow> (decode_record buf, r'))"

definition rpmb_SetAnchor :: "'r rpmb_ops \<Rightarrow> 'r \<Rightarrow> anchor_state \<Rightarrow> anchor_error option \<times> 'r" where
  "rpmb_SetAnchor ops r next =
     (case rpmb_Anchor ops r of
        (Inl e, r') \<Rightarrow> (Some e, r')
      | (Inr cur, r') \<Rightarrow>
          if \<not> as_bound next then (Some NotBound, r')
          else if as_gen next \<le> as_gen cur then (Some (NotMonotonic (as_gen next) (as_gen cur)), r')
          else case rp_write ops r' rpmbAnchorSector (encode_record next) of
                 (False, r'') \<Rightarrow> (Some RpmbWriteError, r'')
               | (True, r'') \<Rightarrow> (None, r''))"

definition rpmb_anchor_ops :: "'r rpmb_ops \<Rightarrow> 'r anchor_ops" where
  "rpmb_anchor_ops ops = \<lparr>an_get = rpmb_Anchor ops, an_set = rpmb_SetAnchor ops\<rparr>"

section \<open>The record codec\<close>

lemma length_anchorMagic [simp]: "length anchorMagic = 8"
  by (simp add: anchorMagic_def)

lemmas anchor_layout = anchorGenerationLen_def anchorRecordLen_def rpmbAnchorSector_def

lemma length_encode_record [simp]: "length (encode_record next) = anchorRecordLen"
  by (simp add: encode_record_def Let_def)

lemma encode_record_eq:
  assumes "length (as_hash next) = 32"
  shows "encode_record next = put_u32_be (as_gen next) @ anchorMagic @ as_hash next"
proof -
  have *: "put_u32_be (as_gen next) @ anchorMagic @ as_hash next
    = (put_u32_be (as_gen next) @ anchorMagic) @ as_hash next"
    by simp
  show ?thesis using assms unfolding encode_record_def * Let_def
    by (simp add: copy_at_0 copy_at_append anchor_layout del: append_assoc) (simp add: make_bytes_def)
qed

lemma decode_encode_record:
  assumes "length (as_hash next) = 32" "as_bound next"
  shows "decode_record (encode_record next) = Inr next"
proof -
  let ?b = "encode_record next"
  have m: "subslice anchorGenerationLen (anchorGenerationLen + length anchorMagic) ?b = anchorMagic"
    using assms by (simp add: encode_record_eq subslice_append anchor_layout)
  have "anchorMagic \<noteq> make_bytes 8" by (simp add: anchorMagic_def make_bytes_def numeral_eq_Suc)
  moreover have "subslice 4 12 (make_bytes anchorRecordLen) = make_bytes 8"
    by (simp add: subslice_def make_bytes_def anchor_layout)
  ultimately have "?b \<noteq> make_bytes anchorRecordLen"
    using m by (auto simp: anchor_layout)
  moreover have "copy_at 0 (as_hash next) (make_bytes 32) = as_hash next"
    using assms(1) by (simp add: copy_at_def make_bytes_def)
  moreover have "get_u32_be ?b = as_gen next"
    using assms(1) by (simp add: encode_record_eq)
  moreover have "drop (anchorGenerationLen + length anchorMagic) ?b = as_hash next"
    using assms(1) by (simp add: encode_record_eq anchor_layout)
  ultimately show ?thesis
    using m assms(2) by (simp add: decode_record_def)
qed

lemma decode_record_InrD:
  "decode_record buf = Inr s \<Longrightarrow> s = fresh_anchor \<or> as_bound s \<and> length (as_hash s) = 32"
  by (auto simp: decode_record_def split: if_splits)

section \<open>The contract\<close>

locale anchor =
  fixes aops :: "'a anchor_ops"
    and view :: "'a \<Rightarrow> anchor_state"
  assumes get_ok: "an_get aops a = (Inr s, a') \<Longrightarrow> s = view a"
    and get_frame: "view (snd (an_get aops a)) = view a"
    and set_ok: "an_set aops a next = (None, a') \<Longrightarrow> length (as_hash next) = 32 \<Longrightarrow>
      as_bound next \<and> as_gen (view a) < as_gen next \<and> view a' = next"
    and set_err: "an_set aops a next = (Some e, a') \<Longrightarrow> length (as_hash next) = 32 \<Longrightarrow>
      view a' = view a \<or> as_bound next \<and> as_gen (view a) < as_gen next \<and> view a' = next"
begin

lemma set_cases:
  assumes "an_set aops a next = (r, a')" "length (as_hash next) = 32"
  shows "view a' = view a \<or> as_bound next \<and> as_gen (view a) < as_gen next \<and> view a' = next"
  using assms set_ok set_err by (cases r) blast+

lemma set_monotonic:
  assumes "an_set aops a next = (r, a')" "length (as_hash next) = 32"
  shows "as_gen (view a) \<le> as_gen (view a')"
  using set_cases [OF assms] by auto

end

interpretation memanchor: anchor mem_anchor_ops "\<lambda>a. a"
  by unfold_locales
    (auto simp: mem_anchor_ops_def mem_Anchor_def mem_SetAnchor_def split: if_splits)

interpretation failanchor: anchor fail_anchor_ops fa_mem
  by unfold_locales
    (auto simp: fail_anchor_ops_def fail_Anchor_def fail_SetAnchor_def mem_SetAnchor_def Let_def
      split: if_splits)

section \<open>The RPMB anchor keeps the contract\<close>

text \<open>
  What the RPMB anchor relies on of the driver, which is not part of the repository: \<open>content r s\<close> is
  the authenticated content of a sector; a read returns a prefix of it, a write replaces a prefix, and a
  failed write may have reached the card or not.
\<close>

definition rpmb_driver_ok :: "'r rpmb_ops \<Rightarrow> ('r \<Rightarrow> nat \<Rightarrow> bytes) \<Rightarrow> bool" where
  "rpmb_driver_ok rops content \<longleftrightarrow>
     (\<forall>r s n. content (snd (rp_read rops r s n)) = content r) \<and>
     (\<forall>r s n b. n \<le> 256 \<longrightarrow> fst (rp_read rops r s n) = Some b \<longrightarrow> b = take n (content r s)) \<and>
     (\<forall>r s buf. length buf \<le> 256 \<longrightarrow>
        take (length buf) (content (snd (rp_write rops r s buf)) s) = buf
        \<or> \<not> fst (rp_write rops r s buf) \<and> content (snd (rp_write rops r s buf)) s = content r s)"

text \<open>The anchor a card holds; a record of unknown format is not a state.\<close>

definition rpmb_view :: "('r \<Rightarrow> nat \<Rightarrow> bytes) \<Rightarrow> 'r \<Rightarrow> anchor_state" where
  "rpmb_view content r =
     (case decode_record (take anchorRecordLen (content r rpmbAnchorSector)) of
        Inl _ \<Rightarrow> fresh_anchor | Inr s \<Rightarrow> s)"

lemma rpmb_view_cong: "content r' rpmbAnchorSector = content r rpmbAnchorSector \<Longrightarrow>
    rpmb_view content r' = rpmb_view content r"
  by (simp add: rpmb_view_def)

lemma rpmb_Anchor_ok:
  assumes "rpmb_driver_ok rops content" "rpmb_Anchor rops r = (Inr s, r')"
  shows "s = rpmb_view content r"
proof -
  from assms(2) obtain buf where b: "fst (rp_read rops r rpmbAnchorSector anchorRecordLen) = Some buf"
    and d: "decode_record buf = Inr s"
    by (auto simp: rpmb_Anchor_def split: prod.splits option.splits)
  have "buf = take anchorRecordLen (content r rpmbAnchorSector)"
    using assms(1) b by (simp add: rpmb_driver_ok_def anchor_layout)
  with d show ?thesis by (simp add: rpmb_view_def)
qed

lemma rpmb_Anchor_frame:
  assumes "rpmb_driver_ok rops content"
  shows "rpmb_view content (snd (rpmb_Anchor rops r)) = rpmb_view content r"
proof -
  have "content (snd (rp_read rops r rpmbAnchorSector anchorRecordLen)) = content r"
    using assms by (simp add: rpmb_driver_ok_def)
  then show ?thesis
    by (intro rpmb_view_cong) (auto simp: rpmb_Anchor_def split: prod.splits option.splits)
qed

lemma rpmb_view_write:
  assumes "rpmb_driver_ok rops content" "rp_write rops r rpmbAnchorSector (encode_record next) = (ok, r')"
    "length (as_hash next) = 32" "as_bound next"
  shows "rpmb_view content r' = next \<or> \<not> ok \<and> rpmb_view content r' = rpmb_view content r"
proof -
  have rec_le: "length (encode_record next) \<le> 256" by (simp add: anchor_layout)
  have "take anchorRecordLen (content r' rpmbAnchorSector) = encode_record next
      \<or> \<not> ok \<and> content r' rpmbAnchorSector = content r rpmbAnchorSector"
    using assms(1,2) rec_le unfolding rpmb_driver_ok_def
    by (metis fst_conv snd_conv length_encode_record)
  then show ?thesis using decode_encode_record [OF assms(3,4)]
    by (auto simp: rpmb_view_def)
qed

lemma rpmb_SetAnchor_cases:
  assumes ok: "rpmb_driver_ok rops content"
    and set: "rpmb_SetAnchor rops r next = (e, r')" and len: "length (as_hash next) = 32"
  shows "rpmb_view content r' = rpmb_view content r \<and> e \<noteq> None
    \<or> as_bound next \<and> as_gen (rpmb_view content r) < as_gen next \<and> rpmb_view content r' = next"
proof -
  obtain g r1 where g: "rpmb_Anchor rops r = (g, r1)" by fastforce
  have v1: "rpmb_view content r1 = rpmb_view content r" using rpmb_Anchor_frame [OF ok, of r] g by simp
  show ?thesis
  proof (cases "\<exists>cur. g = Inr cur \<and> as_bound next \<and> as_gen cur < as_gen next")
    case False
    with set g v1 show ?thesis by (auto simp: rpmb_SetAnchor_def split: sum.splits if_splits)
  next
    case True
    then obtain cur where cur: "g = Inr cur" "as_bound next" "as_gen cur < as_gen next" by blast
    with g have c: "cur = rpmb_view content r" by (simp add: rpmb_Anchor_ok [OF ok])
    obtain b r2 where w: "rp_write rops r1 rpmbAnchorSector (encode_record next) = (b, r2)" by fastforce
    from set g cur w have "r' = r2" "e = (if b then None else Some RpmbWriteError)"
      by (auto simp: rpmb_SetAnchor_def not_le [symmetric] split: bool.splits)
    with rpmb_view_write [OF ok w len cur(2)] cur c v1 show ?thesis by auto
  qed
qed

lemma rpmb_anchor_contract:
  assumes "rpmb_driver_ok rops content"
  shows "anchor (rpmb_anchor_ops rops) (rpmb_view content)"
proof
  fix a s a' assume "an_get (rpmb_anchor_ops rops) a = (Inr s, a')"
  then show "s = rpmb_view content a" by (simp add: rpmb_anchor_ops_def rpmb_Anchor_ok [OF assms])
next
  fix a show "rpmb_view content (snd (an_get (rpmb_anchor_ops rops) a)) = rpmb_view content a"
    by (simp add: rpmb_anchor_ops_def rpmb_Anchor_frame [OF assms])
next
  fix a "next" a' assume "an_set (rpmb_anchor_ops rops) a next = (None, a')" "length (as_hash next) = 32"
  then show "as_bound next \<and> as_gen (rpmb_view content a) < as_gen next \<and> rpmb_view content a' = next"
    using rpmb_SetAnchor_cases [OF assms] by (fastforce simp: rpmb_anchor_ops_def)
next
  fix a "next" e a' assume "an_set (rpmb_anchor_ops rops) a next = (Some e, a')" "length (as_hash next) = 32"
  then show "rpmb_view content a' = rpmb_view content a \<or>
      as_bound next \<and> as_gen (rpmb_view content a) < as_gen next \<and> rpmb_view content a' = next"
    using rpmb_SetAnchor_cases [OF assms] by (fastforce simp: rpmb_anchor_ops_def)
qed

end
