(* ===== verification/Rollback_Store.thy ===== *)
theory Rollback_Store
  imports Witness_Store Anchor
begin

text \<open>
  The persistent store of \<^verbatim>\<open>internal/state/store.go\<close>: the boot decision \<open>Open\<close>, the validation of
  persisted notes \<open>admit\<close>, and the commit sequence \<open>PutBatch\<close> (write the blob, advance the anchor,
  make the state visible). The device and the anchor are interface values, so their method tables are
  arguments and their states are fields of the store. \<open>log.Printf\<close> is not modelled.
\<close>

record ('d, 'a) rollback_store =
  rs_mem :: log_states
  rs_dev :: 'd
  rs_off :: int
  rs_key :: bytes
  rs_anchor :: 'a
  rs_gen :: u32
  rs_halted :: bool

datatype admit_error =
    AdmitRestore bytes restore_error
  | AdmitOrigin bytes bytes

text \<open>\<open>Open\<close> fails when the anchor cannot be read; a panic inside \<open>load\<close> is no result at all.\<close>

datatype open_error = ReadingAnchor anchor_error | OpenPanic

definition max_u32 :: u32 where
  "max_u32 = - 1"

definition rs_halt :: "('d, 'a) rollback_store \<Rightarrow> ('d, 'a) rollback_store" where
  "rs_halt s = s\<lparr>rs_halted := True\<rparr>"

definition anchorFor :: "loadedBlob \<Rightarrow> anchor_state" where
  "anchorFor blob = \<lparr>as_gen = lb_gen blob, as_hash = lb_hash blob, as_bound = True\<rparr>"

fun admit_loop :: "external \<Rightarrow> blob_states \<Rightarrow> log_states \<Rightarrow> admit_error + log_states" where
  "admit_loop ex [] restored = Inr restored"
| "admit_loop ex ((origin, noteBytes) # rest) restored =
     (case RestoreNote ex noteBytes of
        Inl e \<Rightarrow> Inl (AdmitRestore origin e)
      | Inr (o', st) \<Rightarrow>
          if o' \<noteq> origin then Inl (AdmitOrigin origin o')
          else admit_loop ex rest (AList.update o' st restored))"

definition admit :: "external \<Rightarrow> ('d, 'a) rollback_store \<Rightarrow> blob_states \<Rightarrow>
    admit_error option \<times> ('d, 'a) rollback_store" where
  "admit ex s states =
     (case admit_loop ex states [] of
        Inl e \<Rightarrow> (Some e, s)
      | Inr restored \<Rightarrow> (None, s\<lparr>rs_mem := map_put_all (rs_mem s) restored\<rparr>))"

text \<open>
  The boot decision, in the order of the source's switch. A store that is halted is a regular
  result; only a failing anchor read makes \<open>Open\<close> itself fail.
\<close>

definition Open :: "external \<Rightarrow> nat \<Rightarrow> 'd block_ops \<Rightarrow> 'a anchor_ops \<Rightarrow> 'd \<Rightarrow> int \<Rightarrow> bytes \<Rightarrow> 'a \<Rightarrow>
    open_error + ('d, 'a) rollback_store" where
  "Open ex w dops aops dev offset key anc =
     (case an_get aops anc of
        (Inl e, anc') \<Rightarrow> Inl (ReadingAnchor e)
      | (Inr anchored, anc') \<Rightarrow>
          let (r, dev') = load (ex_crypto ex) w dops dev offset key;
              s = \<lparr>rs_mem = NewMemStore, rs_dev = dev', rs_off = offset, rs_key = key,
                   rs_anchor = anc', rs_gen = 0, rs_halted = False\<rparr>
          in case r of
               Inl loadErr \<Rightarrow>
                 if loadErr = SliceBoundsPanic then Inl OpenPanic
                 else if as_gen anchored = 0 \<and> \<not> as_bound anchored then Inr s
                 else Inr (rs_halt s)
             | Inr blob \<Rightarrow>
                 if lb_gen blob = as_gen anchored then
                   if \<not> as_bound anchored then Inr (rs_halt s)
                   else if lb_hash blob \<noteq> as_hash anchored then Inr (rs_halt s)
                   else
                     (case admit ex (s\<lparr>rs_gen := lb_gen blob\<rparr>) (lb_states blob) of
                        (Some e, s') \<Rightarrow> Inr (rs_halt s')
                      | (None, s') \<Rightarrow> Inr s')
                 else if as_gen anchored \<noteq> max_u32 \<and> lb_gen blob = as_gen anchored + 1 then
                   (case admit ex (s\<lparr>rs_gen := lb_gen blob\<rparr>) (lb_states blob) of
                      (Some e, s') \<Rightarrow> Inr (rs_halt s')
                    | (None, s') \<Rightarrow>
                        (case an_set aops (rs_anchor s') (anchorFor blob) of
                           (Some e, anc'') \<Rightarrow> Inr (rs_halt (s'\<lparr>rs_anchor := anc''\<rparr>))
                         | (None, anc'') \<Rightarrow> Inr (s'\<lparr>rs_anchor := anc''\<rparr>)))
                 else if as_gen anchored \<noteq> max_u32 \<and> as_gen anchored + 1 < lb_gen blob then
                   Inr (rs_halt s)
                 else Inr (rs_halt s))"

definition rs_Halted :: "('d, 'a) rollback_store \<Rightarrow> bool" where
  "rs_Halted s = rs_halted s"

definition rs_Generation :: "('d, 'a) rollback_store \<Rightarrow> u32" where
  "rs_Generation s = rs_gen s"

definition rs_Get :: "('d, 'a) rollback_store \<Rightarrow> bytes \<Rightarrow> log_state option" where
  "rs_Get s = ms_Get (rs_mem s)"

definition rs_All :: "('d, 'a) rollback_store \<Rightarrow> log_states" where
  "rs_All s = ms_All (rs_mem s)"

text \<open>The notes of the next generation: the committed ones overlaid with the updates.\<close>

definition next_notes :: "log_states \<Rightarrow> log_states \<Rightarrow> blob_states" where
  "next_notes all_states updates =
     map_put_all (map_put_all [] (map (\<lambda>(origin, x). (origin, ls_Note x)) all_states))
       (map (\<lambda>(origin, st). (origin, ls_Note st)) updates)"

definition rs_PutBatch :: "crypto \<Rightarrow> 'd block_ops \<Rightarrow> 'a anchor_ops \<Rightarrow> bytes option \<Rightarrow>
    ('d, 'a) rollback_store \<Rightarrow> log_states \<Rightarrow> store_error option \<times> ('d, 'a) rollback_store" where
  "rs_PutBatch cr dops aops rnd s updates =
     (if rs_halted s then (Some ErrHalted, s)
      else if rs_gen s = max_u32 then (Some ErrHalted, rs_halt s)
      else
        let next = rs_gen s + 1;
            states = next_notes (rs_All s) updates
        in case save cr dops (rs_dev s) (rs_off s) (rs_key s) rnd next states of
             (Inl err, dev') \<Rightarrow>
               let s = s\<lparr>rs_dev := dev'\<rparr>
               in (Some (PersistFailed err), if err = ErrWriteFailed then rs_halt s else s)
           | (Inr blobHash, dev') \<Rightarrow>
               let s = s\<lparr>rs_dev := dev'\<rparr>
               in case an_set aops (rs_anchor s)
                         \<lparr>as_gen = next, as_hash = blobHash, as_bound = True\<rparr> of
                    (Some e, anc') \<Rightarrow>
                      (Some (AnchoringFailed next), rs_halt (s\<lparr>rs_anchor := anc'\<rparr>))
                  | (None, anc') \<Rightarrow>
                      (None, s\<lparr>rs_anchor := anc', rs_mem := ms_PutBatch (rs_mem s) updates,
                               rs_gen := next\<rparr>))"

definition rs_Put :: "crypto \<Rightarrow> 'd block_ops \<Rightarrow> 'a anchor_ops \<Rightarrow> bytes option \<Rightarrow>
    ('d, 'a) rollback_store \<Rightarrow> bytes \<Rightarrow> log_state \<Rightarrow> store_error option \<times> ('d, 'a) rollback_store" where
  "rs_Put cr dops aops rnd s origin st = rs_PutBatch cr dops aops rnd s [(origin, st)]"

definition rollback_store_ops :: "crypto \<Rightarrow> 'd block_ops \<Rightarrow> 'a anchor_ops \<Rightarrow>
    (('d, 'a) rollback_store, bytes option) store_ops" where
  "rollback_store_ops cr dops aops =
     \<lparr>st_Get = rs_Get, st_PutBatch = rs_PutBatch cr dops aops, st_All = rs_All,
      st_Halted = rs_Halted, st_Generation = (\<lambda>s. Some (rs_Generation s))\<rparr>"

section \<open>The store contract\<close>

lemmas rs_splits = sum.splits prod.splits option.splits if_splits

lemma rs_halt_simps [simp]:
  "rs_mem (rs_halt s) = rs_mem s" "rs_dev (rs_halt s) = rs_dev s" "rs_off (rs_halt s) = rs_off s"
  "rs_key (rs_halt s) = rs_key s" "rs_anchor (rs_halt s) = rs_anchor s" "rs_gen (rs_halt s) = rs_gen s"
  "rs_halted (rs_halt s)"
  by (simp_all add: rs_halt_def)

text \<open>What a commit does to the visible state: all of the batch, or nothing.\<close>

lemma rs_PutBatch_mem:
  "rs_PutBatch cr dops aops rnd s ups = (r, s') \<Longrightarrow>
     rs_mem s' = (if r = None then ms_PutBatch (rs_mem s) ups else rs_mem s)"
  by (auto simp: rs_PutBatch_def Let_def split: rs_splits)

lemma rs_PutBatch_halted:
  "rs_halted s \<Longrightarrow> rs_PutBatch cr dops aops rnd s ups = (Some ErrHalted, s)"
  by (simp add: rs_PutBatch_def)

text \<open>The anchor after a commit: untouched, or the one \<open>SetAnchor\<close> leaves for the digest of the new blob.\<close>

lemma rs_PutBatch_anchor:
  assumes "rs_PutBatch cr dops aops rnd s ups = (r, s')"
  shows "rs_anchor s' = rs_anchor s \<or> (\<exists>h d' e.
    save cr dops (rs_dev s) (rs_off s) (rs_key s) rnd (rs_gen s + 1) (next_notes (rs_All s) ups) = (Inr h, d')
    \<and> an_set aops (rs_anchor s) \<lparr>as_gen = rs_gen s + 1, as_hash = h, as_bound = True\<rparr> = (e, rs_anchor s'))"
proof (cases "rs_halted s \<or> rs_gen s = max_u32")
  case True
  with assms show ?thesis by (auto simp: rs_PutBatch_def split: if_splits)
next
  case False
  obtain v d' where sv: "save cr dops (rs_dev s) (rs_off s) (rs_key s) rnd (rs_gen s + 1)
      (next_notes (rs_All s) ups) = (v, d')" by fastforce
  show ?thesis
  proof (cases v)
    case (Inl e)
    with assms False sv show ?thesis by (auto simp: rs_PutBatch_def Let_def split: if_splits)
  next
    case (Inr h)
    obtain e a' where set: "an_set aops (rs_anchor s) \<lparr>as_gen = rs_gen s + 1, as_hash = h, as_bound = True\<rparr> = (e, a')"
      by fastforce
    have "rs_anchor s' = a'" using assms False sv Inr set
      by (cases e) (auto simp: rs_PutBatch_def Let_def)
    with sv Inr set show ?thesis by auto
  qed
qed

text \<open>\<open>Open\<close> keeps the key and the offset it was given.\<close>

lemma Open_key:
  assumes "Open ex w dops aops dev offset key anc = Inr s"
  shows "rs_key s = key" and "rs_off s = offset"
  using assms by (auto simp: Open_def admit_def Let_def split: rs_splits)

interpretation rollbackstore: store
  "rollback_store_ops cr dops aops :: (('d, 'a) rollback_store, bytes option) store_ops"
  "\<lambda>s. wf_map (rs_mem s)"
proof unfold_locales
  fix s :: "('d, 'a) rollback_store"
  assume "wf_map (rs_mem s)"
  then show "map_of (st_All (rollback_store_ops cr dops aops) s) =
      st_Get (rollback_store_ops cr dops aops) s"
    by (simp add: rollback_store_ops_def rs_All_def rs_Get_def ms_All_map_of ms_Get_def)
next
  fix s s' :: "('d, 'a) rollback_store" and ups e
  assume "wf_map (rs_mem s)" "wf_map ups" "st_PutBatch (rollback_store_ops cr dops aops) e s ups = (None, s')"
  then show "st_Get (rollback_store_ops cr dops aops) s' =
      st_Get (rollback_store_ops cr dops aops) s ++ map_of ups"
    by (simp add: rollback_store_ops_def rs_Get_def ms_Get_def ms_PutBatch_def rs_PutBatch_mem gomap_simps)
next
  fix s s' :: "('d, 'a) rollback_store" and ups e err
  assume "st_PutBatch (rollback_store_ops cr dops aops) e s ups = (Some err, s')"
  then show "st_Get (rollback_store_ops cr dops aops) s' = st_Get (rollback_store_ops cr dops aops) s"
    by (simp add: rollback_store_ops_def rs_Get_def rs_PutBatch_mem)
next
  fix s :: "('d, 'a) rollback_store" and ups e
  assume "wf_map (rs_mem s)"
  then show "wf_map (rs_mem (snd (st_PutBatch (rollback_store_ops cr dops aops) e s ups)))"
    by (cases "rs_PutBatch cr dops aops e s ups")
      (simp add: rollback_store_ops_def rs_PutBatch_mem ms_PutBatch_def)
next
  fix s :: "('d, 'a) rollback_store" and ups e
  assume "st_Halted (rollback_store_ops cr dops aops) s"
  then show "fst (st_PutBatch (rollback_store_ops cr dops aops) e s ups) \<noteq> None \<and>
      st_Halted (rollback_store_ops cr dops aops) (snd (st_PutBatch (rollback_store_ops cr dops aops) e s ups))"
    by (simp add: rollback_store_ops_def rs_Halted_def rs_PutBatch_halted)
qed

end
