(* ===== verification/Sealed_Storage.thy ===== *)
theory Sealed_Storage
  imports Rollback_Store Consistency
begin

text \<open>
  The rollback argument at the level of the store. The medium is entirely in the hands of an
  adversary; what the device has ever sealed is recorded in a ghost set \<open>sealed\<close>, and the anchor is
  trusted. \<open>anchor_rel\<close> relates sealed blobs, anchor and the committed view of all logs; a commit
  (\<open>rs_PutBatch\<close>, whatever its outcome, and also when power fails inside it) and a boot (\<open>Open\<close>) keep it.

  The two cryptographic hypotheses are about the medium that a boot reads: it presents no ciphertext
  that opens under the state key and was not sealed by the device (\<open>medium_ok\<close>, authenticity of the
  AEAD), and the digest has no collision among the sealed blobs (\<open>collision_free\<close>).
\<close>

section \<open>Platform\<close>

text \<open>The method tables and constants a store runs on, with the abstract views of device and anchor.\<close>

record ('d, 'a) platform =
  pf_dops :: "'d block_ops"
  pf_mem :: "'d \<Rightarrow> int \<Rightarrow> byte"
  pf_aops :: "'a anchor_ops"
  pf_view :: "'a \<Rightarrow> anchor_state"
  pf_off :: int
  pf_key :: bytes
  pf_width :: nat

definition crypto_ok :: "crypto \<Rightarrow> bool" where
  "crypto_ok cr \<longleftrightarrow> aead_ok cr \<and> (\<forall>x. length (cr_sha256 cr x) = 32)"

definition pf_sops :: "external \<Rightarrow> ('d, 'a) platform \<Rightarrow> (('d, 'a) rollback_store, bytes option) store_ops" where
  "pf_sops ex pf = rollback_store_ops (ex_crypto ex) (pf_dops pf) (pf_aops pf)"

definition pf_Open :: "external \<Rightarrow> ('d, 'a) platform \<Rightarrow> 'd \<Rightarrow> 'a \<Rightarrow> open_error + ('d, 'a) rollback_store" where
  "pf_Open ex pf d a = Open ex (pf_width pf) (pf_dops pf) (pf_aops pf) d (pf_off pf) (pf_key pf) a"

section \<open>Sealed blobs\<close>

text \<open>A sealed blob: generation, nonce and plaintext of a call of the AEAD.\<close>

type_synonym sealed = "u32 \<times> bytes \<times> bytes"

definition sealed_image :: "crypto \<Rightarrow> bytes \<Rightarrow> sealed \<Rightarrow> bytes" where
  "sealed_image cr key b =
     (case b of (gen, nonce, pt) \<Rightarrow> blob_image gen nonce (cr_seal cr key nonce pt (genAAD gen)))"

text \<open>What a commit seals and hands to the device.\<close>

definition sealed_by :: "crypto \<Rightarrow> ('d, 'a) rollback_store \<Rightarrow> bytes option \<Rightarrow> log_states \<Rightarrow> sealed set" where
  "sealed_by cr s rnd ups =
     {(gen, nonce, pt). \<not> rs_halted s \<and> rs_gen s \<noteq> max_u32 \<and> gen = rs_gen s + 1 \<and> rnd = Some nonce
        \<and> length nonce = nonceLen \<and> encode (next_notes (rs_All s) ups) = Inr pt
        \<and> headerLen + length (cr_seal cr (rs_key s) nonce pt (genAAD gen)) \<le> SlotSize}"

text \<open>The anchors that a commit interrupted by a power failure can leave: untouched, or already moved.\<close>

definition crash_anchors :: "crypto \<Rightarrow> 'a anchor_ops \<Rightarrow> ('d, 'a) rollback_store \<Rightarrow> bytes option \<Rightarrow>
    log_states \<Rightarrow> 'a set" where
  "crash_anchors cr aops s rnd ups =
     insert (rs_anchor s)
       ((\<lambda>b. snd (an_set aops (rs_anchor s)
          \<lparr>as_gen = fst b, as_hash = cr_sha256 cr (sealed_image cr (rs_key s) b), as_bound = True\<rparr>))
        ` sealed_by cr s rnd ups)"

definition forgery_free :: "crypto \<Rightarrow> bytes \<Rightarrow> sealed set \<Rightarrow> bytes \<Rightarrow> bool" where
  "forgery_free cr key sealed buf \<longleftrightarrow>
     (\<forall>gen nonce ct pt pad. buf = blob_image gen nonce ct @ pad \<longrightarrow> length nonce = nonceLen \<longrightarrow>
        cr_open cr key nonce ct (genAAD gen) = Some pt \<longrightarrow>
        (gen, nonce, pt) \<in> sealed \<and> ct = cr_seal cr key nonce pt (genAAD gen))"

definition medium_ok :: "external \<Rightarrow> ('d, 'a) platform \<Rightarrow> sealed set \<Rightarrow> 'd \<Rightarrow> bool" where
  "medium_ok ex pf sealed d \<longleftrightarrow>
     (\<forall>slot < 2. forgery_free (ex_crypto ex) (pf_key pf) sealed (slot_bytes (pf_mem pf d) (pf_off pf) slot))"

definition collision_free :: "external \<Rightarrow> ('d, 'a) platform \<Rightarrow> sealed set \<Rightarrow> bool" where
  "collision_free ex pf sealed \<longleftrightarrow>
     inj_on (cr_sha256 (ex_crypto ex)) (sealed_image (ex_crypto ex) (pf_key pf) ` sealed)"

section \<open>Views\<close>

text \<open>The view a plaintext restores to, by the code's own \<open>decode\<close> and \<open>admit\<close>.\<close>

definition blob_view :: "external \<Rightarrow> nat \<Rightarrow> bytes \<Rightarrow> (bytes \<Rightarrow> log_state option) \<Rightarrow> bool" where
  "blob_view ex w pt V \<longleftrightarrow>
     (\<exists>notes restored. decode w pt = Inr notes \<and> admit_loop ex notes [] = Inr restored \<and> map_of restored = V)"

text \<open>A view that can be persisted and restored, and whose states are valid.\<close>

definition good_view :: "external \<Rightarrow> (bytes \<Rightarrow> log_state option) \<Rightarrow> bool" where
  "good_view ex V \<longleftrightarrow> valid_view ex V \<and>
     (\<forall>origin st. V origin = Some st \<longrightarrow> RestoreNote ex (ls_Note st) = Inr (origin, st))"

definition extends :: "external \<Rightarrow> (bytes \<Rightarrow> log_state option) \<Rightarrow> (bytes \<Rightarrow> log_state option) \<Rightarrow> bool" where
  "extends ex V V' \<longleftrightarrow> (\<exists>ups. batch_ok ex V ups \<and> V' = V ++ map_of ups)"

definition anchor_rel :: "external \<Rightarrow> ('d, 'a) platform \<Rightarrow> sealed set \<Rightarrow> (bytes \<Rightarrow> log_state option) \<Rightarrow>
    anchor_state \<Rightarrow> bool" where
  "anchor_rel ex pf sealed V a \<longleftrightarrow>
     (if as_bound a
      then \<exists>nonce pt. (as_gen a, nonce, pt) \<in> sealed
             \<and> as_hash a = cr_sha256 (ex_crypto ex) (sealed_image (ex_crypto ex) (pf_key pf) (as_gen a, nonce, pt))
             \<and> blob_view ex (pf_width pf) pt V
      else as_gen a = 0 \<and> V = Map.empty) \<and>
     (\<forall>(gen, nonce, pt) \<in> sealed. 0 < unat gen \<and> unat gen \<le> unat (as_gen a) + 1 \<and> length nonce = nonceLen
        \<and> (unat gen = unat (as_gen a) + 1 \<longrightarrow> (\<exists>V'. blob_view ex (pf_width pf) pt V' \<and> extends ex V V')))"

definition store_rel :: "external \<Rightarrow> ('d, 'a) platform \<Rightarrow> sealed set \<Rightarrow> (bytes \<Rightarrow> log_state option) \<Rightarrow>
    ('d, 'a) rollback_store \<Rightarrow> bool" where
  "store_rel ex pf sealed V s \<longleftrightarrow>
     anchor_rel ex pf sealed V (pf_view pf (rs_anchor s)) \<and> good_view ex V
     \<and> rs_key s = pf_key pf \<and> rs_off s = pf_off pf
     \<and> (\<not> rs_halted s \<longrightarrow> rs_gen s = as_gen (pf_view pf (rs_anchor s)) \<and> rs_Get s = V)"

section \<open>Lemmas on views\<close>

lemma unat_plus_one_max: "g \<noteq> max_u32 \<Longrightarrow> unat (g + 1) = unat g + 1"
proof -
  assume "g \<noteq> max_u32"
  then have "1 + g \<noteq> 0" by (metis add.commute eq_neg_iff_add_eq_0 max_u32_def)
  from unatSuc [OF this] show ?thesis by (simp add: add.commute)
qed

lemma blob_view_unique: "blob_view ex w pt V \<Longrightarrow> blob_view ex w pt V' \<Longrightarrow> V = V'"
  by (auto simp: blob_view_def)

lemma extends_good: "extends ex V V' \<Longrightarrow> good_view ex V \<Longrightarrow> good_view ex V'"
  using batch_ok_valid_view batch_ok_lookup(2)
  by (fastforce simp: extends_def good_view_def map_add_def split: option.splits)

lemma extends_view_le: "extends ex V V' \<Longrightarrow> good_view ex V \<Longrightarrow> view_le ex V V'"
  by (auto simp: extends_def good_view_def intro: batch_ok_view_le)

text \<open>A list of notes whose every note restores under its own key is admitted whole.\<close>

lemma admit_loop_ok:
  assumes "\<And>origin n. (origin, n) \<in> set ns \<Longrightarrow> \<exists>st. V origin = Some st \<and> RestoreNote ex n = Inr (origin, st)"
  shows "\<exists>restored. admit_loop ex ns acc = Inr restored \<and>
    map_of restored = (\<lambda>k. if k \<in> fst ` set ns then V k else map_of acc k)"
  using assms
proof (induction ns arbitrary: acc)
  case (Cons a ns)
  obtain origin n where a: "a = (origin, n)" by (cases a)
  from Cons.prems [of origin n] obtain st where st: "V origin = Some st" "RestoreNote ex n = Inr (origin, st)"
    by (auto simp: a)
  from Cons.IH [of "AList.update origin st acc"] Cons.prems obtain restored where
    "admit_loop ex ns (AList.update origin st acc) = Inr restored"
    "map_of restored = (\<lambda>k. if k \<in> fst ` set ns then V k else map_of (AList.update origin st acc) k)"
    by auto
  with st show ?case by (auto simp: a gomap_simps fun_eq_iff)
qed simp

lemma map_of_next_notes:
  assumes "wf_map m" "wf_map ups"
  shows "map_of (next_notes (ms_All m) ups) = (\<lambda>k. map_option ls_Note ((map_of m ++ map_of ups) k))"
proof -
  have m: "map_of (map (\<lambda>(origin, x). (origin, ls_Note x)) xs) = (\<lambda>k. map_option ls_Note (map_of xs k))" for xs
    by (induction xs) auto
  have wf: "wf_map (map (\<lambda>(origin, x). (origin, ls_Note x)) xs)" if "wf_map xs" for xs :: log_states
    using that by (auto simp: wf_map_def comp_def case_prod_unfold)
  have all: "wf_map (ms_All m)" using assms(1) by (simp add: ms_All_def)
  show ?thesis
    using assms wf [OF all] wf [OF assms(2)]
    by (auto simp: next_notes_def gomap_simps m ms_All_map_of map_add_def fun_eq_iff split: option.split)
qed

lemma wf_next_notes [simp]: "wf_map (next_notes all_states ups)"
  by (simp add: next_notes_def)

text \<open>The notes of a commit are admitted whole, and restore the committed view overlaid with the batch.\<close>

lemma admit_next_notes:
  assumes "wf_map m" "wf_map ups" "good_view ex (map_of m ++ map_of ups)"
  shows "\<exists>restored. admit_loop ex (canonical (next_notes (ms_All m) ups)) [] = Inr restored
    \<and> map_of restored = map_of m ++ map_of ups"
proof -
  let ?V = "map_of m ++ map_of ups" and ?n = "next_notes (ms_All m) ups"
  have get: "map_of (canonical ?n) k = map_option ls_Note (?V k)" for k
    using map_of_next_notes [OF assms(1,2)] by simp
  have keys: "fst ` set (canonical ?n) = dom ?V"
    unfolding dom_map_of_conv_image_fst [symmetric] using get by (auto simp: dom_def)
  have "\<exists>st. ?V origin = Some st \<and> RestoreNote ex n = Inr (origin, st)"
    if "(origin, n) \<in> set (canonical ?n)" for origin n
  proof -
    have "map_of (canonical ?n) origin = Some n" using that by (simp add: map_of_wf_iff del: map_of_canonical)
    then obtain st where "?V origin = Some st" "ls_Note st = n"
      unfolding get map_option_eq_Some by metis
    with assms(3) show ?thesis unfolding good_view_def by metis
  qed
  from admit_loop_ok [of "canonical ?n" ?V ex "[]", OF this] obtain restored where
    r: "admit_loop ex (canonical ?n) [] = Inr restored"
    "map_of restored = (\<lambda>k. if k \<in> dom ?V then ?V k else map_of [] k)"
    by (auto simp only: keys)
  have "map_of restored = ?V" unfolding r(2) by (rule ext) (metis domIff map_of.simps(1))
  with r(1) show ?thesis by blast
qed

lemma next_notes_view:
  assumes "wf_map m" "wf_map ups" "good_view ex (map_of m ++ map_of ups)"
    "encode (next_notes (ms_All m) ups) = Inr pt" "length pt \<le> SlotSize" "int_width w"
  shows "blob_view ex w pt (map_of m ++ map_of ups)"
proof -
  have "length pt < 2 ^ (w - 1)" "0 < w" using assms(5,6) by (auto simp: int_width_def SlotSize_def)
  then have "decode w pt = Inr (canonical (next_notes (ms_All m) ups))"
    using assms(4) by (intro decode_encode_canonical) simp_all
  with admit_next_notes [OF assms(1-3)] show ?thesis by (auto simp: blob_view_def)
qed

section \<open>Commits and boots keep the relation\<close>

text \<open>Adding a blob of the next generation that extends the committed view.\<close>

lemma anchor_rel_seal:
  assumes "anchor_rel ex pf sealed V a"
    "\<And>gen nonce pt. (gen, nonce, pt) \<in> new \<Longrightarrow> unat gen = unat (as_gen a) + 1 \<and> length nonce = nonceLen
       \<and> (\<exists>V'. blob_view ex (pf_width pf) pt V' \<and> extends ex V V')"
  shows "anchor_rel ex pf (sealed \<union> new) V a"
  using assms by (fastforce simp: anchor_rel_def split: if_splits)

text \<open>Moving the anchor to a sealed blob of the next generation.\<close>

lemma anchor_rel_advance:
  assumes "anchor_rel ex pf sealed V a" "(gen, nonce, pt) \<in> sealed" "unat gen = unat (as_gen a) + 1"
    "blob_view ex (pf_width pf) pt V'"
    "a' = \<lparr>as_gen = gen,
       as_hash = cr_sha256 (ex_crypto ex) (sealed_image (ex_crypto ex) (pf_key pf) (gen, nonce, pt)),
       as_bound = True\<rparr>"
  shows "anchor_rel ex pf sealed V' a'"
  using assms by (fastforce simp: anchor_rel_def)

lemma anchor_rel_unique:
  assumes "anchor_rel ex pf sealed V a" "collision_free ex pf sealed" "aead_ok (ex_crypto ex)"
    "(gen, nonce, pt) \<in> sealed" "(gen', nonce', pt') \<in> sealed"
    "cr_sha256 (ex_crypto ex) (sealed_image (ex_crypto ex) (pf_key pf) (gen, nonce, pt)) =
     cr_sha256 (ex_crypto ex) (sealed_image (ex_crypto ex) (pf_key pf) (gen', nonce', pt'))"
  shows "pt = pt'"
proof -
  have "length nonce = nonceLen" "length nonce' = nonceLen"
    using assms(1,4,5) by (auto simp: anchor_rel_def)
  then have len: "length nonce = length nonce'" by simp
  have "sealed_image (ex_crypto ex) (pf_key pf) (gen, nonce, pt) =
      sealed_image (ex_crypto ex) (pf_key pf) (gen', nonce', pt')"
    using assms(2,4-6) by (auto simp: collision_free_def dest: inj_onD)
  then have "gen = gen' \<and> nonce = nonce' \<and> cr_seal (ex_crypto ex) (pf_key pf) nonce pt (genAAD gen) =
      cr_seal (ex_crypto ex) (pf_key pf) nonce' pt' (genAAD gen')"
    unfolding sealed_image_def using len by (auto dest: blob_image_inject)
  then show ?thesis using assms(3) unfolding aead_ok_def by (metis option.inject)
qed

lemma admit_loop_wf: "admit_loop ex ns acc = Inr restored \<Longrightarrow> wf_map acc \<Longrightarrow> wf_map restored"
  by (induction ns arbitrary: acc) (auto split: sum.splits prod.splits if_splits)

lemma admit_view:
  assumes "admit ex s ns = (None, s')" "rs_mem s = []" "decode w pt = Inr ns" "blob_view ex w pt V"
  shows "wf_map (rs_mem s') \<and> rs_Get s' = V"
proof -
  from assms(1) obtain restored where r: "admit_loop ex ns [] = Inr restored"
    and s': "s' = s\<lparr>rs_mem := map_put_all (rs_mem s) restored\<rparr>"
    by (auto simp: admit_def split: sum.splits)
  have "wf_map restored" using admit_loop_wf [OF r] by simp
  moreover have "map_of restored = V" using assms(3,4) r by (auto simp: blob_view_def)
  ultimately show ?thesis using assms(2) s' by (simp add: rs_Get_def ms_Get_def gomap_simps)
qed

lemma admit_frame:
  assumes "admit ex s ns = (r, s')"
  shows "rs_gen s' = rs_gen s" "rs_anchor s' = rs_anchor s" "rs_halted s' = rs_halted s"
  using assms by (auto simp: admit_def split: sum.splits)

locale rollback_platform =
  dev: block_device "pf_dops pf" "pf_mem pf" + anc: anchor "pf_aops pf" "pf_view pf"
  for pf :: "('d, 'a) platform" +
  assumes offset: "offset_ok (pf_off pf)"
    and width: "int_width (pf_width pf)"
begin

text \<open>What a commit seals restores to the view the commit is about to make visible.\<close>

lemma sealed_by_view:
  assumes "store_rel ex pf sealed V s" "wf_map (rs_mem s)" "batch_ok ex V ups" "aead_ok (ex_crypto ex)"
    "(gen, nonce, pt) \<in> sealed_by (ex_crypto ex) s rnd ups"
  shows "unat gen = unat (as_gen (pf_view pf (rs_anchor s))) + 1" "length nonce = nonceLen"
    "blob_view ex (pf_width pf) pt (V ++ map_of ups)" "extends ex V (V ++ map_of ups)"
proof -
  from assms(5) have s: "\<not> rs_halted s" "rs_gen s \<noteq> max_u32" "gen = rs_gen s + 1" "length nonce = nonceLen"
    "encode (next_notes (rs_All s) ups) = Inr pt"
    and fit: "headerLen + length (cr_seal (ex_crypto ex) (rs_key s) nonce pt (genAAD gen)) \<le> SlotSize"
    by (auto simp: sealed_by_def)
  have g: "rs_gen s = as_gen (pf_view pf (rs_anchor s))" and V: "V = map_of (rs_mem s)"
    and good: "good_view ex V"
    using assms(1) s(1) by (auto simp: store_rel_def rs_Get_def ms_Get_def)
  show "extends ex V (V ++ map_of ups)" using assms(3) by (auto simp: extends_def)
  then have "good_view ex (V ++ map_of ups)" using good by (rule extends_good)
  moreover have "length pt \<le> SlotSize" using fit assms(4) by (simp add: aead_ok_def)
  ultimately show "blob_view ex (pf_width pf) pt (V ++ map_of ups)"
    using next_notes_view [of "rs_mem s" ups] assms(2,3) s(5) width by (simp add: V rs_All_def batch_ok_def)
  show "length nonce = nonceLen" by (fact s(4))
  show "unat gen = unat (as_gen (pf_view pf (rs_anchor s))) + 1"
    using s(2,3) g by (simp add: unat_plus_one_max)
qed

lemma save_seals:
  assumes "\<not> rs_halted s" "rs_gen s \<noteq> max_u32"
    and sv: "save cr dops (rs_dev s) (rs_off s) (rs_key s) rnd (rs_gen s + 1) (next_notes (rs_All s) ups) = (Inr h, d')"
    and rnd: "\<And>nonce. rnd = Some nonce \<Longrightarrow> length nonce = nonceLen"
  shows "\<exists>nonce pt. (rs_gen s + 1, nonce, pt) \<in> sealed_by cr s rnd ups
    \<and> h = cr_sha256 cr (sealed_image cr (rs_key s) (rs_gen s + 1, nonce, pt))"
proof -
  from sv obtain pt nonce ct where pt: "encode (next_notes (rs_All s) ups) = Inr pt" "rnd = Some nonce"
    "ct = cr_seal cr (rs_key s) nonce pt (genAAD (rs_gen s + 1))" "headerLen + length ct \<le> SlotSize"
    "h = cr_sha256 cr (take (headerLen + length ct) (blob_buffer (rs_gen s + 1) nonce ct))"
    by (rule save_InrD)
  have "h = cr_sha256 cr (sealed_image cr (rs_key s) (rs_gen s + 1, nonce, pt))"
    using pt rnd [OF pt(2)] by (simp add: take_blob_buffer sealed_image_def)
  moreover have "(rs_gen s + 1, nonce, pt) \<in> sealed_by cr s rnd ups"
    using assms(1,2) pt rnd [OF pt(2)] by (simp add: sealed_by_def)
  ultimately show ?thesis by blast
qed

text \<open>
  A commit, whatever its outcome, keeps the relation; the committed view is unchanged or has the
  whole batch on top, the latter in every case where the commit reports success.
\<close>

text \<open>The second half of a commit, after the blob has been written.\<close>

lemma commit_after_save:
  assumes rel: "store_rel ex pf sealed V s" and wf: "wf_map (rs_mem s)" and batch: "batch_ok ex V ups"
    and cr: "crypto_ok (ex_crypto ex)" and rnd: "\<And>nonce. rnd = Some nonce \<Longrightarrow> length nonce = nonceLen"
    and nh: "\<not> rs_halted s" "rs_gen s \<noteq> max_u32"
    and sv: "save (ex_crypto ex) (pf_dops pf) (rs_dev s) (rs_off s) (rs_key s) rnd (rs_gen s + 1) (next_notes (rs_All s) ups) = (Inr h, d')"
    and rel': "anchor_rel ex pf (sealed \<union> sealed_by (ex_crypto ex) s rnd ups) V (pf_view pf (rs_anchor s))"
    and pb: "rs_PutBatch (ex_crypto ex) (pf_dops pf) (pf_aops pf) rnd s ups = (r, s')"
  shows "\<exists>V'. store_rel ex pf (sealed \<union> sealed_by (ex_crypto ex) s rnd ups) V' s'
    \<and> (V' = V \<or> extends ex V V') \<and> (r = None \<longrightarrow> V' = V ++ map_of ups)"
proof -
  let ?new = "sealed_by (ex_crypto ex) s rnd ups" and ?a = "pf_view pf (rs_anchor s)"
  let ?next = "\<lparr>as_gen = rs_gen s + 1, as_hash = h, as_bound = True\<rparr>"
  have aead: "aead_ok (ex_crypto ex)" using cr by (simp add: crypto_ok_def)
  obtain e anc' where set: "an_set (pf_aops pf) (rs_anchor s) ?next = (e, anc')" by fastforce
  from save_seals [OF nh sv rnd] obtain nonce pt where mem: "(rs_gen s + 1, nonce, pt) \<in> ?new"
    and hs: "h = cr_sha256 (ex_crypto ex) (sealed_image (ex_crypto ex) (rs_key s) (rs_gen s + 1, nonce, pt))"
    by blast
  have h: "h = cr_sha256 (ex_crypto ex) (sealed_image (ex_crypto ex) (pf_key pf) (rs_gen s + 1, nonce, pt))"
    using hs rel by (simp add: store_rel_def)
  note v = sealed_by_view(1,3,4) [OF rel wf batch aead mem]
  have adv: "anchor_rel ex pf (sealed \<union> ?new) (V ++ map_of ups) ?next"
    by (rule anchor_rel_advance [OF rel' UnI2 [OF mem] v(1,2)]) (simp add: h)
  have good: "good_view ex (V ++ map_of ups)" using v(3) rel by (auto simp: store_rel_def intro: extends_good)
  have len: "length (as_hash ?next) = 32" using cr by (simp add: h crypto_ok_def)
  show ?thesis
  proof (cases e)
    case None
    then have s': "r = None" "s' = s\<lparr>rs_dev := d', rs_anchor := anc', rs_mem := ms_PutBatch (rs_mem s) ups,
        rs_gen := rs_gen s + 1\<rparr>"
      using pb nh sv set by (auto simp: rs_PutBatch_def Let_def)
    have "pf_view pf anc' = ?next" using anc.set_ok [of _ ?next anc'] set None len by simp
    then show ?thesis using s' adv good v(3) rel wf batch nh
      by (intro exI [of _ "V ++ map_of ups"])
        (auto simp: store_rel_def rs_Get_def ms_Get_def ms_PutBatch_def gomap_simps batch_ok_def)
  next
    case (Some err)
    then have s': "r \<noteq> None" "s' = rs_halt (s\<lparr>rs_dev := d', rs_anchor := anc'\<rparr>)"
      using pb nh sv set by (auto simp: rs_PutBatch_def Let_def)
    from anc.set_cases [OF set len] consider "pf_view pf anc' = ?a" | "pf_view pf anc' = ?next" by blast
    then show ?thesis
    proof cases
      case 1
      with s' rel rel' show ?thesis by (intro exI [of _ V]) (auto simp: store_rel_def)
    next
      case 2
      with s' rel adv good v(3) show ?thesis
        by (intro exI [of _ "V ++ map_of ups"]) (auto simp: store_rel_def)
    qed
  qed
qed

lemma commit_rel:
  assumes rel: "store_rel ex pf sealed V s" and wf: "wf_map (rs_mem s)"
    and b: "\<not> rs_halted s \<Longrightarrow> batch_ok ex V ups" and cr: "crypto_ok (ex_crypto ex)"
    and rnd: "\<And>nonce. rnd = Some nonce \<Longrightarrow> length nonce = nonceLen"
    and pb: "rs_PutBatch (ex_crypto ex) (pf_dops pf) (pf_aops pf) rnd s ups = (r, s')"
  shows "\<exists>V'. store_rel ex pf (sealed \<union> sealed_by (ex_crypto ex) s rnd ups) V' s'
    \<and> (V' = V \<or> extends ex V V') \<and> (r = None \<longrightarrow> V' = V ++ map_of ups)"
proof (cases "rs_halted s \<or> rs_gen s = max_u32")
  case True
  then have "sealed_by (ex_crypto ex) s rnd ups = {}" by (auto simp: sealed_by_def)
  with True pb rel show ?thesis
    by (intro exI [of _ V]) (auto simp: rs_PutBatch_def store_rel_def split: if_splits)
next
  case False
  let ?new = "sealed_by (ex_crypto ex) s rnd ups" and ?a = "pf_view pf (rs_anchor s)"
  let ?states = "next_notes (rs_All s) ups"
  have aead: "aead_ok (ex_crypto ex)" using cr by (simp add: crypto_ok_def)
  have batch: "batch_ok ex V ups" using b False by blast
  note view = sealed_by_view [OF rel wf batch aead]
  have rel': "anchor_rel ex pf (sealed \<union> ?new) V ?a"
  proof (rule anchor_rel_seal)
    show "anchor_rel ex pf sealed V ?a" using rel by (simp add: store_rel_def)
  qed (use view in blast)
  obtain res d' where sv: "save (ex_crypto ex) (pf_dops pf) (rs_dev s) (rs_off s) (rs_key s) rnd
      (rs_gen s + 1) ?states = (res, d')" by fastforce
  show ?thesis
  proof (cases res)
    case (Inl err)
    then have "r \<noteq> None" "s' = (if err = ErrWriteFailed then rs_halt (s\<lparr>rs_dev := d'\<rparr>) else s\<lparr>rs_dev := d'\<rparr>)"
      using pb False sv by (auto simp: rs_PutBatch_def Let_def)
    with rel rel' show ?thesis by (intro exI [of _ V]) (auto simp: store_rel_def rs_Get_def)
  next
    case (Inr h)
    from False have nh: "\<not> rs_halted s" "rs_gen s \<noteq> max_u32" by simp_all
    have sv': "save (ex_crypto ex) (pf_dops pf) (rs_dev s) (rs_off s) (rs_key s) rnd (rs_gen s + 1) ?states = (Inr h, d')"
      using sv Inr by simp
    show ?thesis using rnd by (rule commit_after_save [OF rel wf batch cr _ nh sv' rel' pb])
  qed
qed

lemma crash_rel:
  assumes rel: "store_rel ex pf sealed V s" and wf: "wf_map (rs_mem s)"
    and b: "\<not> rs_halted s \<Longrightarrow> batch_ok ex V ups" and cr: "crypto_ok (ex_crypto ex)"
    and a': "a' \<in> crash_anchors (ex_crypto ex) (pf_aops pf) s rnd ups"
  shows "\<exists>V'. anchor_rel ex pf (sealed \<union> sealed_by (ex_crypto ex) s rnd ups) V' (pf_view pf a')
    \<and> good_view ex V' \<and> (V' = V \<or> extends ex V V')"
proof (cases "sealed_by (ex_crypto ex) s rnd ups = {}")
  case True
  with rel a' show ?thesis by (intro exI [of _ V]) (auto simp: store_rel_def crash_anchors_def)
next
  case False
  let ?new = "sealed_by (ex_crypto ex) s rnd ups" and ?a = "pf_view pf (rs_anchor s)"
  from False have "\<not> rs_halted s" by (auto simp: sealed_by_def)
  with b have batch: "batch_ok ex V ups" by blast
  have aead: "aead_ok (ex_crypto ex)" and good: "good_view ex V" and key: "rs_key s = pf_key pf"
    using cr rel by (simp_all add: crypto_ok_def store_rel_def)
  note view = sealed_by_view [OF rel wf batch aead]
  have rel': "anchor_rel ex pf (sealed \<union> ?new) V ?a"
  proof (rule anchor_rel_seal)
    show "anchor_rel ex pf sealed V ?a" using rel by (simp add: store_rel_def)
  qed (use view in blast)
  show ?thesis
  proof (cases "pf_view pf a' = ?a")
    case True
    with rel' good show ?thesis by (intro exI [of _ V]) simp
  next
    case False
    with a' obtain gen nonce pt where mem: "(gen, nonce, pt) \<in> ?new"
      and set: "a' = snd (an_set (pf_aops pf) (rs_anchor s) \<lparr>as_gen = gen, as_hash =
        cr_sha256 (ex_crypto ex) (sealed_image (ex_crypto ex) (rs_key s) (gen, nonce, pt)), as_bound = True\<rparr>)"
        (is "_ = snd (an_set _ _ ?next)")
      by (auto simp: crash_anchors_def)
    have "pf_view pf a' = ?next"
      using anc.set_cases [of "rs_anchor s" ?next _ a'] False set cr by (auto simp: crypto_ok_def prod_eq_iff)
    moreover have "anchor_rel ex pf (sealed \<union> ?new) (V ++ map_of ups) ?next"
      by (rule anchor_rel_advance [OF rel' UnI2 [OF mem] view(1,3) [OF mem]]) (simp add: key)
    ultimately show ?thesis using view(4) [OF mem] extends_good [OF view(4) [OF mem] good]
      by (intro exI [of _ "V ++ map_of ups"]) simp
  qed
qed

text \<open>What a boot loads from a medium without forgeries is a blob the device sealed.\<close>

lemma load_sealed:
  assumes l: "load (ex_crypto ex) (pf_width pf) (pf_dops pf) d (pf_off pf) (pf_key pf) = (Inr blob, d')"
    and m: "medium_ok ex pf sealed d"
  shows "\<exists>nonce pt. (lb_gen blob, nonce, pt) \<in> sealed \<and> decode (pf_width pf) pt = Inr (lb_states blob)
    \<and> lb_hash blob = cr_sha256 (ex_crypto ex) (sealed_image (ex_crypto ex) (pf_key pf) (lb_gen blob, nonce, pt))"
proof -
  obtain slot where slot: "slot < 2"
    and p: "parseSlot (ex_crypto ex) (pf_width pf) (pf_key pf) (slot_bytes (pf_mem pf d) (pf_off pf) slot) = Inr blob"
    by (rule dev.load_InrD [OF l offset])
  obtain nonce ct pt where n: "length nonce = nonceLen"
    and o': "cr_open (ex_crypto ex) (pf_key pf) nonce ct (genAAD (lb_gen blob)) = Some pt"
    and d: "decode (pf_width pf) pt = Inr (lb_states blob)"
    and h: "lb_hash blob = cr_sha256 (ex_crypto ex) (blob_image (lb_gen blob) nonce ct)"
    and t: "take (headerLen + length ct) (slot_bytes (pf_mem pf d) (pf_off pf) slot) = blob_image (lb_gen blob) nonce ct"
    by (rule parseSlot_InrD [OF p length_slot_bytes width])
  have "slot_bytes (pf_mem pf d) (pf_off pf) slot = blob_image (lb_gen blob) nonce ct
      @ drop (headerLen + length ct) (slot_bytes (pf_mem pf d) (pf_off pf) slot)"
    using t by (metis append_take_drop_id)
  with m slot n o' have "(lb_gen blob, nonce, pt) \<in> sealed"
    "ct = cr_seal (ex_crypto ex) (pf_key pf) nonce pt (genAAD (lb_gen blob))"
    unfolding medium_ok_def forgery_free_def by blast+
  with d h show ?thesis by (auto simp: sealed_image_def)
qed

text \<open>The outcomes of a boot that reads its anchor.\<close>

lemma Open_cases:
  assumes o': "pf_Open ex pf d a = Inr s"
  obtains (refused) "rs_halted s" "rs_mem s = []" "pf_view pf (rs_anchor s) = pf_view pf a"
  | (fresh) "rs_mem s = []" "rs_gen s = 0" "pf_view pf (rs_anchor s) = pf_view pf a"
      "as_gen (pf_view pf a) = 0" "\<not> as_bound (pf_view pf a)"
  | (same) blob d' s0 where "load (ex_crypto ex) (pf_width pf) (pf_dops pf) d (pf_off pf) (pf_key pf) = (Inr blob, d')"
      "lb_gen blob = as_gen (pf_view pf a)" "as_bound (pf_view pf a)" "lb_hash blob = as_hash (pf_view pf a)"
      "admit ex s0 (lb_states blob) = (None, s)" "rs_mem s0 = []" "rs_gen s0 = lb_gen blob" "\<not> rs_halted s0"
      "pf_view pf (rs_anchor s0) = pf_view pf a" "rs_key s0 = pf_key pf" "rs_off s0 = pf_off pf"
  | (forward) blob d' s0 s1 e a1 where
      "load (ex_crypto ex) (pf_width pf) (pf_dops pf) d (pf_off pf) (pf_key pf) = (Inr blob, d')"
      "as_gen (pf_view pf a) \<noteq> max_u32" "lb_gen blob = as_gen (pf_view pf a) + 1"
      "admit ex s0 (lb_states blob) = (None, s1)" "rs_mem s0 = []" "rs_gen s0 = lb_gen blob" "\<not> rs_halted s0"
      "pf_view pf (rs_anchor s0) = pf_view pf a" "rs_key s0 = pf_key pf" "rs_off s0 = pf_off pf"
      "an_set (pf_aops pf) (rs_anchor s1) (anchorFor blob) = (e, a1)"
      "s = (if e = None then s1\<lparr>rs_anchor := a1\<rparr> else rs_halt (s1\<lparr>rs_anchor := a1\<rparr>))"
proof -
  obtain g a' where g: "an_get (pf_aops pf) a = (g, a')" by fastforce
  with o' obtain anchored where "g = Inr anchored" by (cases g) (auto simp: pf_Open_def Open_def)
  with g have get: "an_get (pf_aops pf) a = (Inr (pf_view pf a), a')" using anc.get_ok [of a] by simp
  have va: "pf_view pf a' = pf_view pf a" using anc.get_frame [of a] get by simp
  obtain r d' where l: "load (ex_crypto ex) (pf_width pf) (pf_dops pf) d (pf_off pf) (pf_key pf) = (r, d')"
    by fastforce
  let ?s = "\<lparr>rs_mem = NewMemStore, rs_dev = d', rs_off = pf_off pf, rs_key = pf_key pf, rs_anchor = a',
    rs_gen = 0, rs_halted = False\<rparr>"
  note O = o' [unfolded pf_Open_def Open_def get, simplified, unfolded l, simplified]
  show thesis
  proof (cases r)
    case (Inl e)
    with O va refused fresh show thesis by (auto simp: NewMemStore_def Let_def split: if_splits)
  next
    case (Inr blob)
    let ?s0 = "?s\<lparr>rs_gen := lb_gen blob\<rparr>"
    obtain ae s1 where ad: "admit ex ?s0 (lb_states blob) = (ae, s1)" by fastforce
    have err: "s1 = ?s0" if "ae \<noteq> None" using ad that by (auto simp: admit_def split: sum.splits)
    obtain e a1 where set: "an_set (pf_aops pf) (rs_anchor s1) (anchorFor blob) = (e, a1)" by fastforce
    show thesis
    proof (cases "ae = None \<and> lb_gen blob \<noteq> as_gen (pf_view pf a) \<and> as_gen (pf_view pf a) \<noteq> max_u32
        \<and> lb_gen blob = as_gen (pf_view pf a) + 1")
      case True
      have "s = (if e = None then s1\<lparr>rs_anchor := a1\<rparr> else rs_halt (s1\<lparr>rs_anchor := a1\<rparr>))"
        using O Inr True ad set by (auto simp: Let_def split: option.splits)
      with forward [of blob d' ?s0 s1 e a1] l Inr True ad set va show thesis by (simp add: NewMemStore_def)
    next
      case False
      with O Inr ad err va same [of blob d' ?s0] refused l show thesis
        by (auto simp: NewMemStore_def Let_def split: if_splits option.splits)
    qed
  qed
qed

text \<open>A blob of the anchored generation with the anchored digest restores the committed view.\<close>

lemma same_generation_view:
  assumes rel: "anchor_rel ex pf sealed V a" and m: "medium_ok ex pf sealed d"
    and cf: "collision_free ex pf sealed" and aead: "aead_ok (ex_crypto ex)"
    and l: "load (ex_crypto ex) (pf_width pf) (pf_dops pf) d (pf_off pf) (pf_key pf) = (Inr blob, d')"
    and a: "lb_gen blob = as_gen a" "as_bound a" "lb_hash blob = as_hash a"
  shows "\<exists>pt. decode (pf_width pf) pt = Inr (lb_states blob) \<and> blob_view ex (pf_width pf) pt V"
proof -
  from load_sealed [OF l m] obtain nonce pt where b: "(lb_gen blob, nonce, pt) \<in> sealed"
    "decode (pf_width pf) pt = Inr (lb_states blob)"
    "lb_hash blob = cr_sha256 (ex_crypto ex) (sealed_image (ex_crypto ex) (pf_key pf) (lb_gen blob, nonce, pt))"
    by blast
  from rel a(2) obtain nonce' pt' where b': "(as_gen a, nonce', pt') \<in> sealed"
    "as_hash a = cr_sha256 (ex_crypto ex) (sealed_image (ex_crypto ex) (pf_key pf) (as_gen a, nonce', pt'))"
    "blob_view ex (pf_width pf) pt' V"
    by (auto simp: anchor_rel_def)
  have "pt = pt'" using anchor_rel_unique [OF rel cf aead b(1) b'(1)] b(3) b'(2) a(3) by simp
  with b(2) b'(3) show ?thesis by blast
qed

text \<open>A blob one generation ahead restores an extension, and moving the anchor to it keeps the relation.\<close>

lemma next_generation_view:
  assumes rel: "anchor_rel ex pf sealed V a" and m: "medium_ok ex pf sealed d"
    and l: "load (ex_crypto ex) (pf_width pf) (pf_dops pf) d (pf_off pf) (pf_key pf) = (Inr blob, d')"
    and g: "as_gen a \<noteq> max_u32" "lb_gen blob = as_gen a + 1"
  shows "\<exists>pt V' x. decode (pf_width pf) pt = Inr (lb_states blob) \<and> blob_view ex (pf_width pf) pt V'
    \<and> extends ex V V' \<and> anchor_rel ex pf sealed V' (anchorFor blob) \<and> lb_hash blob = cr_sha256 (ex_crypto ex) x"
proof -
  from load_sealed [OF l m] obtain nonce pt where b: "(lb_gen blob, nonce, pt) \<in> sealed"
    "decode (pf_width pf) pt = Inr (lb_states blob)"
    "lb_hash blob = cr_sha256 (ex_crypto ex) (sealed_image (ex_crypto ex) (pf_key pf) (lb_gen blob, nonce, pt))"
    by blast
  have u: "unat (lb_gen blob) = unat (as_gen a) + 1" using g by (simp add: unat_plus_one_max)
  with rel b(1) obtain V' where V': "blob_view ex (pf_width pf) pt V'" "extends ex V V'"
    by (fastforce simp: anchor_rel_def)
  have "anchor_rel ex pf sealed V' (anchorFor blob)"
    by (rule anchor_rel_advance [OF rel b(1) u V'(1)]) (simp add: anchorFor_def b(3))
  with b V' show ?thesis by blast
qed

text \<open>
  A boot keeps the relation: the store it opens is halted or holds exactly the committed view, which
  is the one before the boot or, after an interrupted commit, that commit's.
\<close>

lemma Open_rel:
  assumes rel: "anchor_rel ex pf sealed V (pf_view pf a)" and good: "good_view ex V"
    and m: "medium_ok ex pf sealed d" and cf: "collision_free ex pf sealed" and cr: "crypto_ok (ex_crypto ex)"
    and o': "pf_Open ex pf d a = Inr s"
  shows "\<exists>V'. store_rel ex pf sealed V' s \<and> (V' = V \<or> extends ex V V')
    \<and> wf_map (rs_mem s) \<and> valid_view ex (rs_Get s)"
proof -
  have aead: "aead_ok (ex_crypto ex)" using cr by (simp add: crypto_ok_def)
  have const: "rs_key s = pf_key pf \<and> rs_off s = pf_off pf"
    using o' by (auto simp: pf_Open_def Open_def Let_def admit_def split: rs_splits)
  have empty: "valid_view ex (ms_Get [])" by (simp add: valid_view_def ms_Get_def)
  from o' show ?thesis
  proof (cases rule: Open_cases)
    case refused
    with rel good const empty show ?thesis by (intro exI [of _ V]) (simp add: store_rel_def rs_Get_def)
  next
    case fresh
    with rel have "V = Map.empty" by (simp add: anchor_rel_def)
    with fresh rel good const empty show ?thesis
      by (intro exI [of _ V]) (simp add: store_rel_def rs_Get_def ms_Get_def)
  next
    case (same blob d' s0)
    from same_generation_view [OF rel m cf aead same(1-4)] admit_view [OF same(5,6)]
    have "wf_map (rs_mem s) \<and> rs_Get s = V" by blast
    with admit_frame [OF same(5)] same(2,7-9) rel good const show ?thesis
      by (intro exI [of _ V]) (simp add: store_rel_def good_view_def)
  next
    case (forward blob d' s0 s1 e a1)
    from next_generation_view [OF rel m forward(1-3)] admit_view [OF forward(4,5)] obtain V' x where
      V': "extends ex V V'" "anchor_rel ex pf sealed V' (anchorFor blob)" "lb_hash blob = cr_sha256 (ex_crypto ex) x"
      and s1: "wf_map (rs_mem s1)" "rs_Get s1 = V'" by blast
    note s1' = admit_frame [OF forward(4)]
    have good': "good_view ex V'" using V'(1) good by (rule extends_good)
    have len: "length (as_hash (anchorFor blob)) = 32" using cr by (simp add: anchorFor_def V'(3) crypto_ok_def)
    have get: "rs_Get s = V'" "wf_map (rs_mem s)" using forward(12) s1 by (auto simp: rs_Get_def)
    then have vv: "valid_view ex (rs_Get s)" using good' by (simp add: good_view_def)
    show ?thesis
    proof (cases "pf_view pf a1 = anchorFor blob")
      case True
      with forward V' good' const get vv s1' show ?thesis
        by (intro exI [of _ V']) (auto simp: store_rel_def anchorFor_def)
    next
      case False
      with anc.set_cases [OF forward(11) len] have "pf_view pf a1 = pf_view pf a" using s1' forward(8) by simp
      moreover have "e \<noteq> None" using anc.set_ok [of "rs_anchor s1" "anchorFor blob" a1] forward(11) len False by auto
      ultimately show ?thesis using forward(12) rel good const get vv
        by (intro exI [of _ V]) (auto simp: store_rel_def)
    qed
  qed
qed

end

end
