(* ===== verification/Device_System.thy ===== *)
theory Device_System
  imports Sealed_Storage Witness_Inv
begin

text \<open>
  The whole device over its lifetime: boots, the running witness on the persistent store, power
  failures at any point of a commit, and an adversary who replaces the medium at will. \<open>ds_log\<close> records
  the states whose commit was reported as successful, in order, over all boots; only such a commit
  releases a signature. \<open>ds_sealed\<close> is the ghost set of sealed blobs.

  The invariant \<open>dinv\<close> gives that the log is one chain of consistent states per origin across boots.
\<close>

datatype ('d, 'a) power = Off 'd 'a | On "('d, 'a) rollback_store wsys"

record ('d, 'a) device_sys =
  ds_power :: "('d, 'a) power"
  ds_past :: log_states
  ds_sealed :: "sealed set"

text \<open>Everything committed so far: the log of earlier boots and that of the running witness.\<close>

definition ds_log :: "('d, 'a) device_sys \<Rightarrow> log_states" where
  "ds_log D = ds_past D @ (case ds_power D of Off d a \<Rightarrow> [] | On S \<Rightarrow> ws_log S)"

definition ds_anchor :: "('d, 'a) device_sys \<Rightarrow> 'a" where
  "ds_anchor D = (case ds_power D of Off d a \<Rightarrow> a | On S \<Rightarrow> rs_anchor (w_store (ws_w S)))"

definition nonce_ok :: "bytes option \<Rightarrow> bool" where
  "nonce_ok rnd \<longleftrightarrow> (\<forall>nonce. rnd = Some nonce \<longrightarrow> length nonce = nonceLen)"

text \<open>The blobs a sequencer run seals, and the batch it is about.\<close>

definition run_seals :: "external \<Rightarrow> ('d, 'a) platform \<Rightarrow> bytes option \<Rightarrow> (bytes \<Rightarrow> int) \<Rightarrow> pool \<Rightarrow>
    ('d, 'a) rollback_store witness \<Rightarrow> sealed set" where
  "run_seals ex pf rnd now p w =
     (case pool_batch ex (pf_sops ex pf) now p w of None \<Rightarrow> {}
      | Some ups \<Rightarrow> sealed_by (ex_crypto ex) (w_store w) rnd ups)"

definition set_dev :: "'d \<Rightarrow> ('d, 'a) rollback_store wsys \<Rightarrow> ('d, 'a) rollback_store wsys" where
  "set_dev d S = S\<lparr>ws_w := (ws_w S)\<lparr>w_store := (w_store (ws_w S))\<lparr>rs_dev := d\<rparr>\<rparr>\<rparr>"

inductive dstep :: "external \<Rightarrow> ('d, 'a) platform \<Rightarrow> ('d, 'a) device_sys \<Rightarrow> ('d, 'a) device_sys \<Rightarrow> bool"
  for ex pf where
  run: "ds_power D = On S \<Longrightarrow> wstep ex (pf_sops ex pf) S S' \<Longrightarrow>
    w_store (ws_w S') = w_store (ws_w S) \<Longrightarrow> ws_log S' = ws_log S \<Longrightarrow> dstep ex pf D (D\<lparr>ds_power := On S'\<rparr>)"
| commit: "ds_power D = On S \<Longrightarrow> ws_phase S = Seq_Swapped p \<Longrightarrow> nonce_ok rnd \<Longrightarrow>
    S' = S\<lparr>ws_w := sequencePool ex (pf_sops ex pf) rnd now t p (ws_w S), ws_phase := Seq_Committed p,
           ws_log := ws_log S @ committed_batch ex (pf_sops ex pf) rnd now p (ws_w S)\<rparr> \<Longrightarrow>
    dstep ex pf D (D\<lparr>ds_power := On S', ds_sealed := ds_sealed D \<union> run_seals ex pf rnd now p (ws_w S)\<rparr>)"
| power_off: "ds_power D = On S \<Longrightarrow>
    dstep ex pf D (D\<lparr>ds_power := Off (rs_dev (w_store (ws_w S))) (rs_anchor (w_store (ws_w S))), ds_past := ds_log D\<rparr>)"
| crash_commit: "ds_power D = On S \<Longrightarrow> ws_phase S = Seq_Swapped p \<Longrightarrow> nonce_ok rnd \<Longrightarrow>
    pool_batch ex (pf_sops ex pf) now p (ws_w S) = Some ups \<Longrightarrow>
    a' \<in> crash_anchors (ex_crypto ex) (pf_aops pf) (w_store (ws_w S)) rnd ups \<Longrightarrow>
    dstep ex pf D (D\<lparr>ds_power := Off d' a', ds_past := ds_log D,
                     ds_sealed := ds_sealed D \<union> run_seals ex pf rnd now p (ws_w S)\<rparr>)"
| boot: "ds_power D = Off d a \<Longrightarrow> medium_ok ex pf (ds_sealed D) d \<Longrightarrow> collision_free ex pf (ds_sealed D) \<Longrightarrow>
    pf_Open ex pf d a = Inr s \<Longrightarrow> dstep ex pf D (D\<lparr>ds_power := On (winit s)\<rparr>)"
| boot_fails: "ds_power D = Off d a \<Longrightarrow> dstep ex pf D (D\<lparr>ds_power := Off d (snd (an_get (pf_aops pf) a))\<rparr>)"
| tamper_off: "ds_power D = Off d a \<Longrightarrow> dstep ex pf D (D\<lparr>ds_power := Off d' a\<rparr>)"
| tamper_on: "ds_power D = On S \<Longrightarrow> dstep ex pf D (D\<lparr>ds_power := On (set_dev d' S)\<rparr>)"

inductive dreach :: "external \<Rightarrow> ('d, 'a) platform \<Rightarrow> ('d, 'a) device_sys \<Rightarrow> ('d, 'a) device_sys \<Rightarrow> bool"
  for ex pf D0 where
  init: "dreach ex pf D0 D0"
| step: "dreach ex pf D0 D \<Longrightarrow> dstep ex pf D D' \<Longrightarrow> dreach ex pf D0 D'"

text \<open>A device that left the factory: powered off, any medium, an anchor that was never set.\<close>

definition factory :: "'d \<Rightarrow> 'a \<Rightarrow> ('d, 'a) device_sys" where
  "factory d a = \<lparr>ds_power = Off d a, ds_past = [], ds_sealed = {}\<rparr>"

text \<open>The lemmas on the witness over any store, for the persistent store.\<close>

interpretation rbwitness: witness_store
  "rollback_store_ops cr dops aops :: (('d, 'a) rollback_store, bytes option) store_ops"
  "\<lambda>s. wf_map (rs_mem s)"
  by (rule witness_store.intro) (rule rollbackstore.store_axioms)

text \<open>A halted store is never written and nothing is logged.\<close>

lemma halted_step:
  assumes "wstep ex (rollback_store_ops cr dops aops) S S'" "rs_halted (w_store (ws_w S))"
  shows "w_store (ws_w S') = w_store (ws_w S) \<and> ws_log S' = ws_log S"
  using assms
proof (induction rule: wstep.induct)
  case (submit tx cp req S sg ep res w')
  from submit(5) show ?case by (cases rule: addToPool_cases) simp_all
next
  case (seq_commit S p env now t)
  then have "pool_batch ex (rollback_store_ops cr dops aops) now p (ws_w S) = None"
    by (simp add: pool_batch_def w_Halted_def rollback_store_ops_def rs_Halted_def split: option.split)
  then show ?case by (simp add: sequencePool_store committed_batch_def)
qed (auto simp: SetSigner_def ClearSigner_def run_start_def seq_begin_def seq_end_def run_stop_def stopPools_def
    Let_def split: if_splits)

section \<open>The invariant\<close>

definition dinv :: "external \<Rightarrow> ('d, 'a) platform \<Rightarrow> ('d, 'a) device_sys \<Rightarrow> bool" where
  "dinv ex pf D \<longleftrightarrow>
     (\<exists>V. good_view ex V \<and> log_ok ex V (ds_log D) \<and>
        (case ds_power D of
           Off d a \<Rightarrow> anchor_rel ex pf (ds_sealed D) V (pf_view pf a)
         | On S \<Rightarrow> store_rel ex pf (ds_sealed D) V (w_store (ws_w S))
             \<and> winv ex (pf_sops ex pf) (\<lambda>s. wf_map (rs_mem s)) S))"

lemma log_ok_extends: "log_ok ex V log \<Longrightarrow> V' = V \<or> extends ex V V' \<Longrightarrow> good_view ex V \<Longrightarrow> log_ok ex V' log"
  using extends_view_le log_ok_view_le by blast

lemma pf_sops_simps [simp]:
  "st_Get (pf_sops ex pf) = rs_Get"
  "st_PutBatch (pf_sops ex pf) = rs_PutBatch (ex_crypto ex) (pf_dops pf) (pf_aops pf)"
  "st_All (pf_sops ex pf) = rs_All" "st_Halted (pf_sops ex pf) = rs_Halted"
  by (simp_all add: pf_sops_def rollback_store_ops_def)

lemma set_dev_simps [simp]:
  "ws_phase (set_dev d S) = ws_phase S" "ws_log (set_dev d S) = ws_log S"
  "w_heap (ws_w (set_dev d S)) = w_heap (ws_w S)"
  "w_currentPool (ws_w (set_dev d S)) = w_currentPool (ws_w S)"
  "w_inSequencing (ws_w (set_dev d S)) = w_inSequencing (ws_w S)"
  "w_store (ws_w (set_dev d S)) = (w_store (ws_w S))\<lparr>rs_dev := d\<rparr>"
  by (simp_all add: set_dev_def)

lemma winv_set_dev:
  "winv ex (pf_sops ex pf) (\<lambda>s. wf_map (rs_mem s)) (set_dev d S) =
   winv ex (pf_sops ex pf) (\<lambda>s. wf_map (rs_mem s)) S"
  by (simp add: winv_def Let_def pools_ok_def phase_ok_def rs_Get_def cong: seq_phase.case_cong)

lemma store_rel_set_dev [simp]: "store_rel ex pf sealed V (s\<lparr>rs_dev := d\<rparr>) = store_rel ex pf sealed V s"
  by (simp add: store_rel_def rs_Get_def)

text \<open>The batch of a swapped pool is consistent with the committed view while the store is not halted.\<close>

lemma swapped_batch_ok:
  assumes "store_rel ex pf sealed V (w_store (ws_w S))" "winv ex (pf_sops ex pf) (\<lambda>s. wf_map (rs_mem s)) S"
    "ws_phase S = Seq_Swapped p" "sign_ok ex" "pool_batch ex (pf_sops ex pf) now p (ws_w S) = Some ups"
    "\<not> rs_halted (w_store (ws_w S))"
  shows "batch_ok ex V ups"
proof -
  have "pool_ok ex (w_heap (ws_w S)) p" "pool_consistent ex (rs_Get (w_store (ws_w S))) (w_heap (ws_w S)) p"
    using assms(2,3) by (auto simp: winv_def phase_ok_def pools_ok_def Let_def)
  moreover have "rs_Get (w_store (ws_w S)) = V" using assms(1,6) by (simp add: store_rel_def)
  ultimately show ?thesis using pool_batch_ok assms(4,5) by blast
qed

lemma dinv_factory: "pf_view pf a = fresh_anchor \<Longrightarrow> dinv ex pf (factory d a)"
  by (auto simp: dinv_def factory_def ds_log_def anchor_rel_def fresh_anchor_def good_view_def valid_view_def)

context rollback_platform
begin

lemma dinv_commit:
  assumes D: "ds_power D = On S" and ph: "ws_phase S = Seq_Swapped p" and n: "nonce_ok rnd"
    and S': "S' = S\<lparr>ws_w := sequencePool ex (pf_sops ex pf) rnd now t p (ws_w S), ws_phase := Seq_Committed p,
           ws_log := ws_log S @ committed_batch ex (pf_sops ex pf) rnd now p (ws_w S)\<rparr>"
    and inv: "dinv ex pf D" and sg: "sign_ok ex" and cr: "crypto_ok (ex_crypto ex)"
  shows "dinv ex pf (D\<lparr>ds_power := On S', ds_sealed := ds_sealed D \<union> run_seals ex pf rnd now p (ws_w S)\<rparr>)"
proof -
  from inv D obtain V where V: "good_view ex V" "log_ok ex V (ds_past D @ ws_log S)"
    "store_rel ex pf (ds_sealed D) V (w_store (ws_w S))"
    and w: "winv ex (pf_sops ex pf) (\<lambda>s. wf_map (rs_mem s)) S"
    by (auto simp: dinv_def ds_log_def)
  have w': "winv ex (pf_sops ex pf) (\<lambda>s. wf_map (rs_mem s)) S'"
    unfolding S' using w ph sg unfolding pf_sops_def by (rule rbwitness.winv_commit)
  show ?thesis
  proof (cases "pool_batch ex (pf_sops ex pf) now p (ws_w S)")
    case None
    then have "w_store (ws_w S') = w_store (ws_w S)" "ws_log S' = ws_log S"
      by (simp_all add: S' sequencePool_store committed_batch_def)
    with None V w' show ?thesis by (auto simp: dinv_def ds_log_def run_seals_def)
  next
    case (Some ups)
    let ?s = "w_store (ws_w S)"
    obtain r s' where pb: "rs_PutBatch (ex_crypto ex) (pf_dops pf) (pf_aops pf) rnd ?s ups = (r, s')" by fastforce
    have wf: "wf_map (rs_mem ?s)" using w by (simp add: winv_def Let_def)
    note b = swapped_batch_ok [OF V(3) w ph sg Some]
    from commit_rel [OF V(3) wf b cr _ pb] n obtain V' where
      V': "store_rel ex pf (ds_sealed D \<union> sealed_by (ex_crypto ex) ?s rnd ups) V' s'"
      "V' = V \<or> extends ex V V'" "r = None \<longrightarrow> V' = V ++ map_of ups"
      by (auto simp: nonce_ok_def)
    have s': "w_store (ws_w S') = s'" "ws_log S' = ws_log S @ (if r = None then ups else [])"
      using pb Some by (simp_all add: S' sequencePool_store committed_batch_def)
    have "log_ok ex V' (ds_past D @ ws_log S @ (if r = None then ups else []))"
    proof (cases r)
      case None
      then have "\<not> rs_halted ?s" using pb by (auto simp: rs_PutBatch_halted)
      with b log_ok_commit [OF V(2)] V(1) V'(3) None show ?thesis by (simp add: good_view_def)
    next
      case (Some err)
      then show ?thesis using log_ok_extends [OF V(2) V'(2) V(1)] by simp
    qed
    moreover have "good_view ex V'" using V'(1) by (simp add: store_rel_def)
    ultimately show ?thesis using V'(1) w' Some by (auto simp: dinv_def ds_log_def run_seals_def s')
  qed
qed

lemma dinv_crash:
  assumes D: "ds_power D = On S" and ph: "ws_phase S = Seq_Swapped p"
    and pb: "pool_batch ex (pf_sops ex pf) now p (ws_w S) = Some ups"
    and a': "a' \<in> crash_anchors (ex_crypto ex) (pf_aops pf) (w_store (ws_w S)) rnd ups"
    and inv: "dinv ex pf D" and sg: "sign_ok ex" and cr: "crypto_ok (ex_crypto ex)"
  shows "dinv ex pf (D\<lparr>ds_power := Off d' a', ds_past := ds_log D,
    ds_sealed := ds_sealed D \<union> run_seals ex pf rnd now p (ws_w S)\<rparr>)"
proof -
  from inv D obtain V where V: "good_view ex V" "log_ok ex V (ds_log D)"
    "store_rel ex pf (ds_sealed D) V (w_store (ws_w S))"
    and w: "winv ex (pf_sops ex pf) (\<lambda>s. wf_map (rs_mem s)) S"
    by (auto simp: dinv_def)
  have wf: "wf_map (rs_mem (w_store (ws_w S)))" using w by (simp add: winv_def Let_def)
  from crash_rel [OF V(3) wf swapped_batch_ok [OF V(3) w ph sg pb] cr a'] obtain V' where
    "anchor_rel ex pf (ds_sealed D \<union> sealed_by (ex_crypto ex) (w_store (ws_w S)) rnd ups) V' (pf_view pf a')"
    "good_view ex V'" "V' = V \<or> extends ex V V'" by blast
  with log_ok_extends [OF V(2) _ V(1)] pb show ?thesis
    by (auto simp: dinv_def run_seals_def ds_log_def [of "D\<lparr>ds_power := _, ds_past := _, ds_sealed := _\<rparr>"])
qed

lemma dinv_boot:
  assumes D: "ds_power D = Off d a" and m: "medium_ok ex pf (ds_sealed D) d"
    and cf: "collision_free ex pf (ds_sealed D)" and o': "pf_Open ex pf d a = Inr s"
    and inv: "dinv ex pf D" and cr: "crypto_ok (ex_crypto ex)"
  shows "dinv ex pf (D\<lparr>ds_power := On (winit s)\<rparr>)"
proof -
  from inv D obtain V where V: "good_view ex V" "log_ok ex V (ds_past D)"
    "anchor_rel ex pf (ds_sealed D) V (pf_view pf a)" by (auto simp: dinv_def ds_log_def)
  from Open_rel [OF V(3,1) m cf cr o'] obtain V' where V': "store_rel ex pf (ds_sealed D) V' s"
    "V' = V \<or> extends ex V V'" and s: "wf_map (rs_mem s)" "valid_view ex (rs_Get s)" by blast
  have "winv ex (pf_sops ex pf) (\<lambda>s. wf_map (rs_mem s)) (winit s)"
    unfolding pf_sops_def using s
    by (intro rbwitness.winv_init) (simp_all add: rollback_store_ops_def)
  moreover have "log_ok ex V' (ds_past D)" using V(2) V'(2) V(1) by (rule log_ok_extends)
  ultimately show ?thesis using V'(1)
    by (auto simp: dinv_def ds_log_def winit_def New_def store_rel_def)
qed

theorem dinv_step:
  assumes "dstep ex pf D D'" "dinv ex pf D" "sign_ok ex" "crypto_ok (ex_crypto ex)"
  shows "dinv ex pf D'"
  using assms
proof (induction rule: dstep.induct)
  case (run D S S')
  then have "winv ex (pf_sops ex pf) (\<lambda>s. wf_map (rs_mem s)) S'"
    using rbwitness.winv_step [of ex "ex_crypto ex" "pf_dops pf" "pf_aops pf" S S']
    by (auto simp: dinv_def pf_sops_def)
  with run show ?case by (auto simp: dinv_def ds_log_def)
next
  case (power_off D S)
  then show ?case by (auto simp: dinv_def ds_log_def store_rel_def)
next
  case (boot_fails D d a)
  then show ?case using anc.get_frame by (auto simp: dinv_def ds_log_def)
next
  case (tamper_on D S d')
  then show ?case by (auto simp: dinv_def ds_log_def winv_set_dev)
next
  case (tamper_off D d a d')
  then show ?case by (auto simp: dinv_def ds_log_def)
qed (rule dinv_commit dinv_crash dinv_boot; assumption)+

lemma dinv_dreach: "dreach ex pf D0 D \<Longrightarrow> dinv ex pf D0 \<Longrightarrow> sign_ok ex \<Longrightarrow> crypto_ok (ex_crypto ex) \<Longrightarrow> dinv ex pf D"
  by (induction rule: dreach.induct) (auto intro: dinv_step)

theorem dinv_reach:
  assumes "dreach ex pf (factory d a) D" "pf_view pf a = fresh_anchor" "sign_ok ex" "crypto_ok (ex_crypto ex)"
  shows "dinv ex pf D"
  using dinv_dreach [OF assms(1) dinv_factory [OF assms(2)] assms(3,4)] .

section \<open>The anchor only moves forward\<close>

lemma commit_anchor_mono:
  assumes "rs_PutBatch (ex_crypto ex) (pf_dops pf) (pf_aops pf) rnd s ups = (r, s')" "crypto_ok (ex_crypto ex)"
  shows "as_gen (pf_view pf (rs_anchor s)) \<le> as_gen (pf_view pf (rs_anchor s'))"
proof -
  have len: "length h = 32"
    if "save (ex_crypto ex) (pf_dops pf) (rs_dev s) (rs_off s) (rs_key s) rnd (rs_gen s + 1)
      (next_notes (rs_All s) ups) = (Inr h, d')" for h d'
    using that assms(2) by (auto simp: crypto_ok_def elim: save_InrD)
  from rs_PutBatch_anchor [OF assms(1)] show ?thesis
  proof (elim disjE exE conjE)
    fix h d' e
    assume "save (ex_crypto ex) (pf_dops pf) (rs_dev s) (rs_off s) (rs_key s) rnd (rs_gen s + 1)
        (next_notes (rs_All s) ups) = (Inr h, d')"
      "an_set (pf_aops pf) (rs_anchor s) \<lparr>as_gen = rs_gen s + 1, as_hash = h, as_bound = True\<rparr> = (e, rs_anchor s')"
    with len anc.set_monotonic show ?thesis by fastforce
  qed simp
qed

lemma boot_anchor_mono:
  assumes "pf_Open ex pf d a = Inr s" "crypto_ok (ex_crypto ex)"
  shows "as_gen (pf_view pf a) \<le> as_gen (pf_view pf (rs_anchor s))"
  using assms(1)
proof (cases rule: Open_cases)
  case (same blob d' s0)
  then show ?thesis using admit_frame(2) [OF same(5)] by simp
next
  case (forward blob d' s0 s1 e a1)
  obtain slot where "parseSlot (ex_crypto ex) (pf_width pf) (pf_key pf) (slot_bytes (pf_mem pf d) (pf_off pf) slot) = Inr blob"
    by (rule dev.load_InrD [OF forward(1) offset])
  then obtain x where "lb_hash blob = cr_sha256 (ex_crypto ex) x"
    by (rule parseSlot_InrD [OF _ length_slot_bytes width])
  then have "length (as_hash (anchorFor blob)) = 32" using assms(2) by (simp add: anchorFor_def crypto_ok_def)
  from anc.set_monotonic [OF forward(11) this] show ?thesis
    using admit_frame(2) [OF forward(4)] forward(8,12) by auto
qed simp_all

theorem anchor_mono_step:
  assumes "dstep ex pf D D'" "crypto_ok (ex_crypto ex)"
  shows "as_gen (pf_view pf (ds_anchor D)) \<le> as_gen (pf_view pf (ds_anchor D'))"
  using assms
proof (induction rule: dstep.induct)
  case (commit D S p rnd S' now t)
  then have "w_store (ws_w S') = w_store (ws_w S) \<or> (\<exists>ups r. rs_PutBatch (ex_crypto ex) (pf_dops pf) (pf_aops pf) rnd
      (w_store (ws_w S)) ups = (r, w_store (ws_w S')))"
    by (auto simp: sequencePool_store split: option.split) (metis prod.collapse)
  with commit commit_anchor_mono show ?case by (auto simp: ds_anchor_def)
next
  case (crash_commit D S p rnd now ups a' d')
  then have "a' = rs_anchor (w_store (ws_w S)) \<or> (\<exists>next. length (as_hash next) = 32 \<and>
      a' = snd (an_set (pf_aops pf) (rs_anchor (w_store (ws_w S))) next))"
    by (auto simp: crash_anchors_def crypto_ok_def) (metis anchor_state.select_convs(2))
  then have "as_gen (pf_view pf (rs_anchor (w_store (ws_w S)))) \<le> as_gen (pf_view pf a')"
    using anc.set_monotonic by (auto simp: prod_eq_iff)
  with crash_commit show ?case by (simp add: ds_anchor_def)
next
  case (boot D d a s)
  then show ?case using boot_anchor_mono by (simp add: ds_anchor_def winit_def New_def)
next
  case (boot_fails D d a)
  then show ?case using anc.get_frame by (simp add: ds_anchor_def)
qed (simp_all add: ds_anchor_def)

end

end
