(* ===== verification/Storage_Theorems.thy ===== *)
theory Storage_Theorems
  imports Device_System
begin

text \<open>
  Functional behaviour of the persistent state: what \<open>load\<close> returns in terms of the two slots, that it
  returns what \<open>save\<close> wrote, the decision table of \<open>Open\<close>, and that a device whose medium was left alone
  comes back up after a clean commit and after a commit that was interrupted before the anchor moved.
\<close>

section \<open>Loading as a function of the medium\<close>

text \<open>A device that serves every read inside its bounds.\<close>

definition reads_ok :: "'d block_ops \<Rightarrow> int \<Rightarrow> bool" where
  "reads_ok ops offset \<longleftrightarrow>
     (\<forall>d slot lba. slot < 2 \<longrightarrow> slotLBA ops d offset slot = Inr lba \<longrightarrow> fst (dv_read ops d lba SlotSize) \<noteq> None)"

definition slot_result :: "crypto \<Rightarrow> nat \<Rightarrow> 'd block_ops \<Rightarrow> ('d \<Rightarrow> int \<Rightarrow> byte) \<Rightarrow> int \<Rightarrow> bytes \<Rightarrow> 'd \<Rightarrow> nat \<Rightarrow>
    blob_error + loadedBlob" where
  "slot_result cr w ops mem offset key d slot =
     (case slotLBA ops d offset slot of Inl e \<Rightarrow> Inl e
      | Inr lba \<Rightarrow> parseSlot cr w key (slot_bytes (mem d) offset slot))"

definition older_slot :: "u32 \<Rightarrow> blob_error + loadedBlob \<Rightarrow> bool" where
  "older_slot gen r \<longleftrightarrow> (case r of Inl e \<Rightarrow> e \<noteq> SliceBoundsPanic | Inr b \<Rightarrow> lb_gen b < gen)"

context block_device
begin

lemma loadSlot_eq:
  assumes "reads_ok ops offset" "offset_ok offset" "slot < 2"
  shows "fst (loadSlot cr w ops d offset slot key) = slot_result cr w ops mem offset key d slot"
proof (cases "slotLBA ops d offset slot")
  case (Inl e)
  then show ?thesis by (simp add: loadSlot_def slot_result_def)
next
  case (Inr lba)
  with assms(1,3) obtain buf d' where r: "dv_read ops d lba SlotSize = (Some buf, d')"
    by (metis reads_ok_def not_None_eq prod.collapse)
  have "buf = slot_bytes (mem d) offset slot"
    using read_ok [OF r slotLBA_region [OF Inr assms(2,3)]] by (simp add: slot_bytes_def)
  with r Inr show ?thesis by (simp add: loadSlot_def slot_result_def)
qed

lemma slot_result_cong:
  "dv_info ops d' = dv_info ops d \<Longrightarrow> slot_bytes (mem d') offset slot = slot_bytes (mem d) offset slot \<Longrightarrow>
   slot_result cr w ops mem offset key d' slot = slot_result cr w ops mem offset key d slot"
  using slotLBA_info [of ops d' d offset slot] by (simp add: slot_result_def split: sum.split)

lemma load_eq:
  assumes "reads_ok ops offset" "offset_ok offset" "length key = StateKeyLen"
    and np: "\<And>slot. slot < 2 \<Longrightarrow> slot_result cr w ops mem offset key d slot \<noteq> Inl SliceBoundsPanic"
  shows "fst (load cr w ops d offset key) =
    (case newer (newer None (slot_result cr w ops mem offset key d 0)) (slot_result cr w ops mem offset key d 1) of
       None \<Rightarrow> Inl ErrNoState | Some blob \<Rightarrow> Inr blob)"
proof -
  obtain r0 d0 where 0: "loadSlot cr w ops d offset 0 key = (r0, d0)" by fastforce
  obtain r1 d1 where 1: "loadSlot cr w ops d0 offset 1 key = (r1, d1)" by fastforce
  have r0: "r0 = slot_result cr w ops mem offset key d 0"
    using loadSlot_eq [OF assms(1,2), of 0 cr w d key] 0 by simp
  have "slot_result cr w ops mem offset key d0 1 = slot_result cr w ops mem offset key d 1"
    using loadSlot_info [of cr w d offset 0 key] loadSlot_mem [of cr w d offset 0 key] 0
    by (intro slot_result_cong) simp_all
  then have r1: "r1 = slot_result cr w ops mem offset key d 1"
    using loadSlot_eq [OF assms(1,2), of 1 cr w d0 key] 1 by simp
  show ?thesis using 0 1 np [of 0] np [of 1] assms(3)
    by (auto simp: load_def r0 r1 Let_def split: option.split)
qed

text \<open>The slot that \<open>save\<close> wrote parses to what was saved.\<close>

lemma save_slot_result:
  assumes s: "save cr ops d offset key (Some nonce) gen states = (Inr h, d')" and off: "offset_ok offset"
    and w: "int_width w" and a: "aead_ok cr" and n: "length nonce = nonceLen" and wf: "wf_map states"
  shows "slot_result cr w ops mem offset key d' (unat gen mod 2) =
    Inr \<lparr>lb_states = canonical states, lb_gen = gen, lb_hash = h\<rparr>"
proof -
  from s obtain pt ct lba where pt: "length key = StateKeyLen" "encode states = Inr pt"
    "ct = cr_seal cr key nonce pt (genAAD gen)" "headerLen + length ct \<le> SlotSize"
    "slotLBA ops d offset (unat gen mod 2) = Inr lba"
    "h = cr_sha256 cr (take (headerLen + length ct) (blob_buffer gen nonce ct))"
    by (auto elim!: save_InrD)
  have len: "length ct = length pt + 16" "cr_open cr key nonce ct (genAAD gen) = Some pt"
    using a pt(3) by (simp_all add: aead_ok_def)
  have "length pt < 2 ^ (w - 1)" "0 < w" using len(1) pt(4) w by (auto simp: int_width_def SlotSize_def)
  then have dec: "decode w pt = Inr (canonical states)" using wf pt(2) by (intro decode_encode_canonical)
  have "slot_bytes (mem d') offset (unat gen mod 2) =
      blob_image gen nonce ct @ make_bytes (SlotSize - headerLen - length ct)"
    using save_slot_bytes [OF s off pt(2)] blob_buffer_eq [OF n pt(4), of gen] pt(3) by simp
  from parseSlot_image [OF n pt(4) _ pt(1) w this] len dec
  have "parseSlot cr w key (slot_bytes (mem d') offset (unat gen mod 2)) =
      Inr \<lparr>lb_states = canonical states, lb_gen = gen, lb_hash = h\<rparr>"
    using take_blob_buffer [OF n pt(4), of gen] pt(6) by (simp add: tagLen_def)
  moreover have "slotLBA ops d' offset (unat gen mod 2) = Inr lba"
    using pt(5) slotLBA_info [OF save_info [OF s]] by simp
  ultimately show ?thesis by (simp add: slot_result_def)
qed

text \<open>When the other slot is unreadable or older, \<open>load\<close> returns what \<open>save\<close> wrote.\<close>

lemma save_then_load:
  assumes s: "save cr ops d offset key (Some nonce) gen states = (Inr h, d')" and off: "offset_ok offset"
    and w: "int_width w" and a: "aead_ok cr" and n: "length nonce = nonceLen" and wf: "wf_map states"
    and r: "reads_ok ops offset"
    and other: "older_slot gen (slot_result cr w ops mem offset key d (1 - unat gen mod 2))"
  shows "fst (load cr w ops d' offset key) = Inr \<lparr>lb_states = canonical states, lb_gen = gen, lb_hash = h\<rparr>"
proof -
  let ?slot = "unat gen mod 2"
  have key: "length key = StateKeyLen" using s by (rule save_InrD)
  note new = save_slot_result [OF s off w a n wf]
  have old: "slot_result cr w ops mem offset key d' (1 - ?slot) = slot_result cr w ops mem offset key d (1 - ?slot)"
  proof (rule slot_result_cong [OF save_info [OF s]])
    have "1 - ?slot < 2" "1 - ?slot \<noteq> ?slot" by presburger+
    then show "slot_bytes (mem d') offset (1 - ?slot) = slot_bytes (mem d) offset (1 - ?slot)"
      by (rule save_other_slot [OF s off])
  qed
  have np: "slot_result cr w ops mem offset key d' slot \<noteq> Inl SliceBoundsPanic" if "slot < 2" for slot
  proof (cases "slot = ?slot")
    case True
    with new show ?thesis by simp
  next
    case False
    with that have "slot = 1 - ?slot" by linarith
    with other old show ?thesis by (auto simp: older_slot_def)
  qed
  have "?slot = 0 \<or> ?slot = 1" by linarith
  then show ?thesis using load_eq [OF r off key np] new old other
    by (auto simp: newer_def older_slot_def split: sum.splits)
qed

end

section \<open>Power cycles\<close>

lemma admit_canonical:
  assumes "wf_map m" "wf_map ups" "good_view ex (map_of m ++ map_of ups)" "rs_mem s = []"
  shows "\<exists>s'. admit ex s (canonical (next_notes (ms_All m) ups)) = (None, s')
    \<and> rs_Get s' = map_of m ++ map_of ups \<and> rs_gen s' = rs_gen s \<and> rs_halted s' = rs_halted s
    \<and> rs_anchor s' = rs_anchor s"
proof -
  from admit_next_notes [OF assms(1-3)] obtain restored where
    r: "admit_loop ex (canonical (next_notes (ms_All m) ups)) [] = Inr restored"
      "map_of restored = map_of m ++ map_of ups" by blast
  have "wf_map restored" using admit_loop_wf [OF r(1)] by simp
  with r assms(4) show ?thesis by (simp add: admit_def rs_Get_def ms_Get_def gomap_simps)
qed

context rollback_platform
begin

text \<open>The loaded blob after the blob write of a commit, whatever happens to the anchor.\<close>

lemma commit_then_load:
  assumes rel: "store_rel ex pf sealed V s" and b: "batch_ok ex V ups" and cr: "crypto_ok (ex_crypto ex)"
    and n: "nonce_ok rnd" and r: "reads_ok (pf_dops pf) (pf_off pf)"
    and sv: "save (ex_crypto ex) (pf_dops pf) (rs_dev s) (rs_off s) (rs_key s) rnd (rs_gen s + 1)
      (next_notes (rs_All s) ups) = (Inr h, d')"
    and other: "older_slot (rs_gen s + 1) (slot_result (ex_crypto ex) (pf_width pf) (pf_dops pf) (pf_mem pf)
      (pf_off pf) (pf_key pf) (rs_dev s) (1 - unat (rs_gen s + 1) mod 2))"
  shows "fst (load (ex_crypto ex) (pf_width pf) (pf_dops pf) d' (pf_off pf) (pf_key pf)) =
    Inr \<lparr>lb_states = canonical (next_notes (rs_All s) ups), lb_gen = rs_gen s + 1, lb_hash = h\<rparr>"
proof -
  from sv obtain nonce where nonce: "rnd = Some nonce" by (rule save_InrD)
  have len: "length nonce = nonceLen" using n nonce by (simp add: nonce_ok_def)
  have "aead_ok (ex_crypto ex)" using cr by (simp add: crypto_ok_def)
  moreover have "save (ex_crypto ex) (pf_dops pf) (rs_dev s) (pf_off pf) (pf_key pf) (Some nonce) (rs_gen s + 1)
      (next_notes (rs_All s) ups) = (Inr h, d')" using sv rel nonce by (simp add: store_rel_def)
  ultimately show ?thesis using dev.save_then_load [OF _ offset width _ len _ r other] by simp
qed

lemma reboot_after_commit:
  assumes rel: "store_rel ex pf sealed V s" and wf: "wf_map (rs_mem s)" and b: "batch_ok ex V ups"
    and cr: "crypto_ok (ex_crypto ex)" and n: "nonce_ok rnd" and r: "reads_ok (pf_dops pf) (pf_off pf)"
    and pb: "rs_PutBatch (ex_crypto ex) (pf_dops pf) (pf_aops pf) rnd s ups = (None, s')"
    and get: "an_get (pf_aops pf) (rs_anchor s') = (Inr x, a')"
    and other: "older_slot (rs_gen s + 1) (slot_result (ex_crypto ex) (pf_width pf) (pf_dops pf) (pf_mem pf)
      (pf_off pf) (pf_key pf) (rs_dev s) (1 - unat (rs_gen s + 1) mod 2))"
  shows "\<exists>s''. pf_Open ex pf (rs_dev s') (rs_anchor s') = Inr s'' \<and> \<not> rs_halted s''
    \<and> rs_Get s'' = rs_Get s' \<and> rs_gen s'' = rs_gen s'"
proof -
  let ?next = "\<lambda>h. \<lparr>as_gen = rs_gen s + 1, as_hash = h, as_bound = True\<rparr>"
  from pb obtain h d' anc' where nh: "\<not> rs_halted s" "rs_gen s \<noteq> max_u32"
    and sv: "save (ex_crypto ex) (pf_dops pf) (rs_dev s) (rs_off s) (rs_key s) rnd (rs_gen s + 1)
      (next_notes (rs_All s) ups) = (Inr h, d')"
    and set: "an_set (pf_aops pf) (rs_anchor s) (?next h) = (None, anc')"
    and s': "s' = s\<lparr>rs_dev := d', rs_anchor := anc', rs_mem := ms_PutBatch (rs_mem s) ups, rs_gen := rs_gen s + 1\<rparr>"
    by (auto simp: rs_PutBatch_def Let_def split: rs_splits)
  from save_seals [OF nh sv] n obtain x' where "h = cr_sha256 (ex_crypto ex) x'" by (auto simp: nonce_ok_def)
  then have "length h = 32" using cr by (simp add: crypto_ok_def)
  then have x: "x = ?next h" using anc.set_ok [OF set] anc.get_ok [OF get] s' by simp
  obtain d'' where l: "load (ex_crypto ex) (pf_width pf) (pf_dops pf) d' (pf_off pf) (pf_key pf) =
      (Inr \<lparr>lb_states = canonical (next_notes (rs_All s) ups), lb_gen = rs_gen s + 1, lb_hash = h\<rparr>, d'')"
    using commit_then_load [OF rel b cr n r sv other] by (metis prod.collapse)
  have V: "V = map_of (rs_mem s)" and good: "good_view ex V"
    using rel nh by (auto simp: store_rel_def rs_Get_def ms_Get_def)
  have good': "good_view ex (V ++ map_of ups)" using b good by (blast intro: extends_good [unfolded extends_def])
  let ?s0 = "\<lparr>rs_mem = NewMemStore, rs_dev = d'', rs_off = pf_off pf, rs_key = pf_key pf, rs_anchor = a',
    rs_gen = rs_gen s + 1, rs_halted = False\<rparr>"
  from admit_canonical [OF wf _ good' [unfolded V], of ?s0] b obtain s1 where
    "admit ex ?s0 (canonical (next_notes (rs_All s) ups)) = (None, s1)" "rs_Get s1 = V ++ map_of ups"
    "rs_gen s1 = rs_gen s + 1" "\<not> rs_halted s1"
    by (auto simp: V rs_All_def NewMemStore_def batch_ok_def)
  moreover have "rs_Get s' = V ++ map_of ups"
    using s' b by (simp add: V rs_Get_def ms_Get_def ms_PutBatch_def gomap_simps batch_ok_def)
  ultimately show ?thesis using get s' l x by (simp add: pf_Open_def Open_def)
qed

text \<open>Power fails after the blob write and before the anchor moves: the next boot rolls forward.\<close>

lemma reboot_after_interrupted_commit:
  assumes rel: "store_rel ex pf sealed V s" and wf: "wf_map (rs_mem s)" and b: "batch_ok ex V ups"
    and cr: "crypto_ok (ex_crypto ex)" and n: "nonce_ok rnd" and r: "reads_ok (pf_dops pf) (pf_off pf)"
    and nh: "\<not> rs_halted s" "rs_gen s \<noteq> max_u32"
    and sv: "save (ex_crypto ex) (pf_dops pf) (rs_dev s) (rs_off s) (rs_key s) rnd (rs_gen s + 1)
      (next_notes (rs_All s) ups) = (Inr h, d')"
    and get: "an_get (pf_aops pf) (rs_anchor s) = (Inr x, a')"
    and set: "an_set (pf_aops pf) a' \<lparr>as_gen = rs_gen s + 1, as_hash = h, as_bound = True\<rparr> = (None, a'')"
    and other: "older_slot (rs_gen s + 1) (slot_result (ex_crypto ex) (pf_width pf) (pf_dops pf) (pf_mem pf)
      (pf_off pf) (pf_key pf) (rs_dev s) (1 - unat (rs_gen s + 1) mod 2))"
  shows "\<exists>s''. pf_Open ex pf d' (rs_anchor s) = Inr s'' \<and> \<not> rs_halted s''
    \<and> rs_Get s'' = V ++ map_of ups \<and> rs_gen s'' = rs_gen s + 1 \<and> rs_anchor s'' = a''"
proof -
  obtain d'' where l: "load (ex_crypto ex) (pf_width pf) (pf_dops pf) d' (pf_off pf) (pf_key pf) =
      (Inr \<lparr>lb_states = canonical (next_notes (rs_All s) ups), lb_gen = rs_gen s + 1, lb_hash = h\<rparr>, d'')"
    using commit_then_load [OF rel b cr n r sv other] by (metis prod.collapse)
  have x: "as_gen x = rs_gen s" using anc.get_ok [OF get] rel nh by (simp add: store_rel_def)
  have V: "V = map_of (rs_mem s)" and good: "good_view ex V"
    using rel nh by (auto simp: store_rel_def rs_Get_def ms_Get_def)
  have good': "good_view ex (V ++ map_of ups)" using b good by (blast intro: extends_good [unfolded extends_def])
  let ?s0 = "\<lparr>rs_mem = NewMemStore, rs_dev = d'', rs_off = pf_off pf, rs_key = pf_key pf, rs_anchor = a',
    rs_gen = rs_gen s + 1, rs_halted = False\<rparr>"
  from admit_canonical [OF wf _ good' [unfolded V], of ?s0] b obtain s1 where
    "admit ex ?s0 (canonical (next_notes (rs_All s) ups)) = (None, s1)" "rs_Get s1 = V ++ map_of ups"
    "rs_gen s1 = rs_gen s + 1" "\<not> rs_halted s1" "rs_anchor s1 = a'"
    by (auto simp: V rs_All_def NewMemStore_def batch_ok_def)
  then show ?thesis using get l x nh set by (simp add: pf_Open_def Open_def anchorFor_def rs_Get_def)
qed

end

section \<open>Properties\<close>

text \<open>
  Encoding and decoding the payload of a blob is the identity on the map of notes, for every width of
  Go's \<open>int\<close> in which the payload length fits.
\<close>

lemma encode_decode_roundtrip:
  assumes "int_width w" "wf_map states" "encode states = Inr b" "length b < 2 ^ (w - 1)"
  shows "\<exists>states'. decode w b = Inr states' \<and> map_of states' = map_of states \<and> wf_map states'"
proof -
  have "0 < w" using assms(1) by (auto simp: int_width_def)
  from decode_encode_canonical [OF this assms(2-4)] show ?thesis using assms(2) by simp
qed

end
