(* ===== verification/Example_Run.thy ===== *)
theory Example_Run
  imports Storage_Theorems Wire
begin

text \<open>
  One concrete run: an instance of every parameter of the model (a checkpoint parser, a signer, an
  AEAD and a digest, the test device, an RPMB driver over an array of sectors), a first boot on a blank
  medium, one submission and one commit. It shows that the hypotheses of the theorems on the device can
  hold together, and it is the input at which they are instantiated.
\<close>

section \<open>Parameters\<close>

definition example_text :: bytes where
  "example_text = ''o'' @ [nl]"

definition example_cp :: checkpoint where
  "example_cp = \<lparr>cp_Origin = ''o'', cp_N = 1, cp_Hash = ''h''\<rparr>"

definition example_crypto :: crypto where
  "example_crypto =
     \<lparr>cr_sha256 = (\<lambda>x. take 32 (x @ make_bytes 32)),
      cr_seal = (\<lambda>k n p a. p @ make_bytes 16),
      cr_open = (\<lambda>k n c a. Some (take (length c - 16) c))\<rparr>"

definition example_ext :: "external" where
  "example_ext =
     \<lparr>ex_crypto = example_crypto,
      ex_ParseCheckpoint = (\<lambda>t. if t = example_text then Some example_cp else None),
      ex_CheckTree = (\<lambda>_ _ _ _ _. False),
      ex_ParseHash = hex_decode,
      ex_HashString = hex_encode,
      ex_Sign = (\<lambda>sg t txt. Some (txt @ nl # ''s''))\<rparr>"

definition sector_ops :: "(nat \<Rightarrow> bytes) rpmb_ops" where
  "sector_ops =
     \<lparr>rp_read = (\<lambda>r s n. (Some (take n (r s)), r)),
      rp_write = (\<lambda>r s buf. (True, r(s := buf @ drop (length buf) (r s))))\<rparr>"

definition example_key :: bytes where
  "example_key = make_bytes 32"

definition example_nonce :: bytes where
  "example_nonce = make_bytes 16"

definition example_dev :: mem_device where
  "example_dev = newMemDevice 512 (16 * 1024 * 1024 + 128 * 1024)"

definition example_card :: "nat \<Rightarrow> bytes" where
  "example_card = (\<lambda>_. make_bytes 256)"

text \<open>The platform of the firmware: the state region at \<open>Offset\<close>, an RPMB anchor, 32-bit \<open>int\<close>.\<close>

definition device_platform :: "'d block_ops \<Rightarrow> ('d \<Rightarrow> int \<Rightarrow> byte) \<Rightarrow> 'r rpmb_ops \<Rightarrow> ('r \<Rightarrow> nat \<Rightarrow> bytes) \<Rightarrow>
    bytes \<Rightarrow> ('d, 'r) platform" where
  "device_platform dops mem rops content key =
     \<lparr>pf_dops = dops, pf_mem = mem, pf_aops = rpmb_anchor_ops rops, pf_view = rpmb_view content,
      pf_off = Offset, pf_key = key, pf_width = 32\<rparr>"

lemma device_platform_simps [simp]:
  "pf_dops (device_platform dops mem rops content key) = dops"
  "pf_mem (device_platform dops mem rops content key) = mem"
  "pf_aops (device_platform dops mem rops content key) = rpmb_anchor_ops rops"
  "pf_view (device_platform dops mem rops content key) = rpmb_view content"
  "pf_off (device_platform dops mem rops content key) = Offset"
  "pf_key (device_platform dops mem rops content key) = key"
  "pf_width (device_platform dops mem rops content key) = 32"
  by (simp_all add: device_platform_def)

lemma example_ext_crypto [simp]: "ex_crypto example_ext = example_crypto"
  by (simp add: example_ext_def)

abbreviation example_pf :: "(mem_device, nat \<Rightarrow> bytes) platform" where
  "example_pf \<equiv> device_platform mem_ops md_mem sector_ops (\<lambda>r. r) example_key"

section \<open>The parameters satisfy the hypotheses\<close>

lemma device_platform_contract:
  assumes "block_device dops mem" "rpmb_driver_ok rops content"
  shows "rollback_platform (device_platform dops mem rops content key)"
proof -
  have dev: "block_device dops mem \<and> anchor (rpmb_anchor_ops rops) (rpmb_view content)"
    using assms rpmb_anchor_contract by blast
  show ?thesis using dev
    by (simp add: rollback_platform_def rollback_platform_axioms_def int_width_def)
qed

text \<open>The invariant of the device, over every device and driver that keep their contracts.\<close>

lemma device_dinv:
  assumes "block_device dops mem" "rpmb_driver_ok rops content" "rpmb_view content a = fresh_anchor"
    "sign_ok ex" "crypto_ok (ex_crypto ex)"
    "dreach ex (device_platform dops mem rops content key) (factory d a) D"
  shows "dinv ex (device_platform dops mem rops content key) D"
  using rollback_platform.dinv_reach [OF device_platform_contract [OF assms(1,2)] assms(6)] assms(3-5) by simp

lemma example_crypto_ok: "crypto_ok (ex_crypto example_ext)"
  by (simp add: crypto_ok_def aead_ok_def example_crypto_def) arith

lemma example_sign_ok: "sign_ok example_ext"
  by (auto simp: sign_ok_def example_ext_def)

lemma sector_driver_ok: "rpmb_driver_ok sector_ops (\<lambda>r. r)"
  by (simp add: rpmb_driver_ok_def sector_ops_def)

lemma mem_block_device: "block_device mem_ops md_mem"
  by (rule memdev.block_device_axioms)

interpretation sectoranchor: anchor "rpmb_anchor_ops sector_ops" "rpmb_view (\<lambda>r. r)"
  by (rule rpmb_anchor_contract [OF sector_driver_ok])

interpretation memplatform: rollback_platform "device_platform (mem_ops :: 'z mem_device_scheme block_ops) md_mem sector_ops (\<lambda>r. r) key"
  by (rule device_platform_contract [OF memdev.block_device_axioms sector_driver_ok])

lemma decode_record_blank: "decode_record (make_bytes anchorRecordLen) = Inr fresh_anchor"
  by (simp add: decode_record_def)

lemma example_card_fresh: "rpmb_view (\<lambda>r. r) example_card = fresh_anchor"
  by (simp add: rpmb_view_def example_card_def decode_record_def anchor_layout make_bytes_def)

section \<open>The test device serves reads\<close>

lemma mem_reads_ok: "offset_ok offset \<Longrightarrow> reads_ok (mem_ops :: mem_device block_ops) offset"
  unfolding reads_ok_def
proof (intro allI impI)
  fix d :: mem_device and slot lba
  assume off: "offset_ok offset" and s: "slot < 2" "slotLBA mem_ops d offset slot = Inr lba"
  from slotLBA_InrD [OF s(2) off s(1)] obtain bs blocks where
    i: "dv_info mem_ops d = (bs, blocks)" "0 < bs" "0 \<le> lba" "lba * bs = slot_base offset slot"
      "slot_base offset slot + int SlotSize < 2 ^ 63" "slot_base offset slot + int SlotSize \<le> blocks * bs" .
  have bs: "bs = md_blockSize d" "blocks = int (length (md_data d)) div bs"
    using i(1,2) sdiv_pos [of "int (length (md_data d))" bs] by (auto simp: mem_ops_def md_Info_def)
  have "slot_base offset slot + int SlotSize \<le> int (length (md_data d))"
    using i(6) pos_mod_sign [OF i(2), of "int (length (md_data d))"]
    unfolding bs(2) minus_mod_eq_div_mult [symmetric] by linarith
  moreover have "int64 (lba * md_blockSize d) = lba * md_blockSize d"
    "int64 (lba * md_blockSize d + int SlotSize) = lba * md_blockSize d + int SlotSize"
    using md_offset [of bs lba SlotSize] md_limit [of bs lba SlotSize] i bs(1) by simp_all
  ultimately show "fst (dv_read mem_ops d lba SlotSize) \<noteq> None"
    using i bs(1) mult_nonneg_nonneg [of lba bs] by (auto simp: mem_ops_def md_ReadBlocks_def Let_def)
qed

section \<open>The first boot\<close>

lemma example_slotLBA:
  "slot < 2 \<Longrightarrow> slotLBA mem_ops example_dev Offset slot = Inr (32768 + int slot * 128)"
  by (cases slot) (auto simp: slotLBA_def mem_ops_def md_Info_def example_dev_def newMemDevice_def
      Offset_def SlotSize_def go_int_def make_bytes_def signed_modulo_int_def signed_divide_int_def Let_def
      less_Suc_eq numeral_2_eq_2)

lemma md_mem_blank: "md_mem example_dev = (\<lambda>_. CHR 0x00)"
  by (rule ext) (simp add: md_mem_def example_dev_def newMemDevice_def make_bytes_def nat_less_iff)

lemma slot_bytes_blank: "slot_bytes (md_mem example_dev) offset slot = make_bytes SlotSize"
  by (simp add: slot_bytes_def mem_slice_def md_mem_blank make_bytes_def map_replicate_const)

lemma parseSlot_blank: "parseSlot cr w key (make_bytes SlotSize) = Inl BadMagic"
proof -
  have "take magicLen (make_bytes SlotSize) = make_bytes 8" by (simp add: make_bytes_def layout_defs)
  moreover have "make_bytes 8 \<noteq> magic" by (simp add: make_bytes_def magic_def numeral_eq_Suc)
  ultimately show ?thesis by (simp add: parseSlot_def)
qed

lemma blank_slot_forgery_free: "forgery_free cr key sealed (make_bytes SlotSize)"
proof -
  have "make_bytes SlotSize \<noteq> blob_image gen nonce ct @ pad" for gen nonce ct pad
  proof
    assume "make_bytes SlotSize = blob_image gen nonce ct @ pad"
    then have "take 8 (make_bytes SlotSize) = take 8 (blob_image gen nonce ct @ pad)" by simp
    then have "make_bytes 8 = magic" by (simp add: make_bytes_def SlotSize_def blob_image_def)
    then show False by (simp add: make_bytes_def magic_def numeral_eq_Suc)
  qed
  then show ?thesis by (simp add: forgery_free_def)
qed

lemma blank_medium_ok: "medium_ok example_ext example_pf sealed example_dev"
  by (simp add: medium_ok_def device_platform_def slot_bytes_blank blank_slot_forgery_free)

lemma mem_load_dev: "snd (load cr w mem_ops d offset key) = (d :: mem_device)"
proof -
  have "snd (loadSlot cr w mem_ops d offset slot key) = (d :: mem_device)" for d slot
    by (auto simp: loadSlot_def mem_ops_def md_ReadBlocks_def Let_def split: sum.split prod.split option.split if_splits)
  then show ?thesis by (auto simp: load_def Let_def split: prod.split option.split) (metis snd_conv)+
qed

lemma example_load: "load cr 32 mem_ops example_dev Offset example_key = (Inl ErrNoState, example_dev)"
proof -
  have "slot_result cr 32 mem_ops md_mem Offset example_key example_dev slot = Inl BadMagic" if "slot < 2" for slot
    using that by (simp add: slot_result_def example_slotLBA slot_bytes_blank parseSlot_blank)
  then have "fst (load cr 32 mem_ops example_dev Offset example_key) = Inl ErrNoState"
    using memdev.load_eq [OF mem_reads_ok, of Offset example_key cr 32 example_dev]
    by (simp add: example_key_def StateKeyLen_def newer_def make_bytes_def)
  then show ?thesis using mem_load_dev by (metis prod.collapse)
qed

definition example_store :: "(mem_device, nat \<Rightarrow> bytes) rollback_store" where
  "example_store = \<lparr>rs_mem = [], rs_dev = example_dev, rs_off = Offset, rs_key = example_key,
     rs_anchor = example_card, rs_gen = 0, rs_halted = False\<rparr>"

lemma example_Anchor: "rpmb_Anchor sector_ops example_card = (Inr fresh_anchor, example_card)"
  by (simp add: rpmb_Anchor_def sector_ops_def example_card_def decode_record_def anchor_layout make_bytes_def)

lemma example_Open: "pf_Open example_ext example_pf example_dev example_card = Inr example_store"
  by (simp add: pf_Open_def Open_def device_platform_def rpmb_anchor_ops_def example_Anchor example_load
      fresh_anchor_def example_store_def NewMemStore_def)

section \<open>The first commit\<close>

definition example_state :: log_state where
  "example_state = \<lparr>ls_Size = 1, ls_Hash = ''h'', ls_Note = example_text @ nl # ''s''\<rparr>"

abbreviation example_ups :: log_states where
  "example_ups \<equiv> [(''o'', example_state)]"

lemma example_encode:
  "encode (next_notes (rs_All example_store) example_ups) =
    Inr (encode_entry ''o'' (ls_Note example_state))"
  by (simp add: encode_def next_notes_def rs_All_def ms_All_def example_store_def encode_keys_Cons state_of_def
      example_state_def example_text_def)

lemma example_save:
  "\<exists>h d'. save example_crypto mem_ops example_dev Offset example_key (Some example_nonce) 1
     (next_notes (rs_All example_store) example_ups) = (Inr h, d')"
proof -
  have "length (cr_seal example_crypto example_key example_nonce (encode_entry ''o'' (ls_Note example_state)) aad) = 27"
    for aad by (simp add: example_crypto_def encode_entry_def example_state_def example_text_def)
  moreover have "slotLBA mem_ops example_dev Offset 1 = Inr 32896" using example_slotLBA [of 1] by simp
  moreover have "\<exists>d'. md_WriteBlocks example_dev 32896 (blob_buffer g n c) = (True, d')" for g n c
    by (simp add: md_WriteBlocks_def example_dev_def newMemDevice_def Let_def SlotSize_def go_int_def)
  ultimately show ?thesis
    by (auto simp: save_def newAEAD_def example_key_def StateKeyLen_def example_encode Let_def layout_defs
        mem_ops_def make_bytes_def split: prod.split bool.split) (metis prod.inject)+
qed

lemma example_SetAnchor:
  "\<exists>r. rpmb_SetAnchor sector_ops example_card \<lparr>as_gen = 1, as_hash = h, as_bound = True\<rparr> = (None, r)"
  by (simp add: rpmb_SetAnchor_def example_Anchor fresh_anchor_def) (simp add: sector_ops_def)

lemma example_PutBatch:
  "\<exists>s'. rs_PutBatch example_crypto mem_ops (rpmb_anchor_ops sector_ops) (Some example_nonce) example_store
     example_ups = (None, s')"
proof -
  from example_save obtain h d' where
    s: "save example_crypto mem_ops example_dev Offset example_key (Some example_nonce) 1
      (next_notes (rs_All example_store) example_ups) = (Inr h, d')" by blast
  obtain r where "rpmb_SetAnchor sector_ops example_card \<lparr>as_gen = 1, as_hash = h, as_bound = True\<rparr> = (None, r)"
    using example_SetAnchor by blast
  with s show ?thesis
    by (simp add: rs_PutBatch_def example_store_def max_u32_def rpmb_anchor_ops_def Let_def)
qed

section \<open>The run\<close>

definition example_body :: bytes where
  "example_body = EncodeAddCheckpoint example_ext 0 [] (ls_Note example_state)"

definition example_candidate :: candidate where
  "example_candidate = \<lparr>cd_cp = example_cp, cd_text = example_text, cd_signer = 7, cd_epoch = 1\<rparr>"

definition example_submitted :: "(mem_device, nat \<Rightarrow> bytes) rollback_store witness" where
  "example_submitted = (New example_store)\<lparr>w_signer := Some 7, w_epoch := 1,
     w_heap := [\<lparr>pe_candidate = example_candidate, pe_done = False, pe_code = 0, pe_resp = []\<rparr>],
     w_currentPool := [(''o'', 0)]\<rparr>"

lemma example_hash_codec: "hash_codec_ok example_ext"
proof -
  have "nl \<notin> set (hex_encode h)" for h
    using list_all_hex_encode [of h] by (auto simp: list_all_iff is_lower_hex_def)
  moreover have "hex_encode h \<noteq> []" if "length h = 32" for h
    using that length_hex_encode [of h] by (auto simp del: length_hex_encode)
  ultimately show ?thesis by (simp add: hash_codec_ok_def example_ext_def)
qed

lemma example_parse:
  "parseRequest example_ext example_body = Inr \<lparr>rq_old = 0, rq_proof = [], rq_note = ls_Note example_state\<rparr>"
  unfolding example_body_def
  by (rule parseRequest_encoded) (simp_all add: example_hash_codec example_state_def)

lemma example_note_text: "note_text (ls_Note example_state) = Some example_text"
proof -
  have "text_ok example_text"
    by (auto simp: text_ok_def example_text_def has_prefix_blank drop_Cons split: nat.splits)
  then show ?thesis unfolding example_state_def by (simp add: note_text_append)
qed

lemma example_AddCheckpoint:
  "AddCheckpoint example_ext (pf_sops example_ext example_pf) (SetSigner 7 (New example_store)) example_body =
     (Inr 0, example_submitted)"
  using example_parse example_note_text
  by (simp add: AddCheckpoint_def SetSigner_def New_def w_Halted_def rs_Halted_def example_store_def addToPool_def
      example_ext_def example_submitted_def example_candidate_def example_cp_def newPool_def maxPoolSize_def
      latest_def rs_Get_def ms_Get_def consistency_check_def Let_def)

definition example_swapped :: "(mem_device, nat \<Rightarrow> bytes) rollback_store wsys" where
  "example_swapped = \<lparr>ws_w = seq_begin (example_submitted\<lparr>w_running := True\<rparr>),
     ws_phase = Seq_Swapped [(''o'', 0)], ws_log = []\<rparr>"

lemma example_batch:
  "pool_batch example_ext (pf_sops example_ext example_pf) (\<lambda>_. 0) [(''o'', 0)] (ws_w example_swapped) = Some example_ups"
  by (simp add: pool_batch_def example_swapped_def seq_begin_def example_submitted_def New_def w_Halted_def
      rs_Halted_def example_store_def sign_entries_Cons entry_result_def signed_state_def key_current_def
      example_candidate_def example_ext_def example_state_def example_cp_def Let_def)

lemma example_committed:
  "committed_batch example_ext (pf_sops example_ext example_pf) (Some example_nonce) (\<lambda>_. 0) [(''o'', 0)]
     (ws_w example_swapped) = example_ups"
proof -
  have "w_store (ws_w example_swapped) = example_store"
    by (simp add: example_swapped_def seq_begin_def example_submitted_def New_def)
  with example_PutBatch show ?thesis
    by (auto simp: committed_batch_def example_batch)
qed

definition example_final :: "(mem_device, nat \<Rightarrow> bytes) device_sys" where
  "example_final =
     \<lparr>ds_power = On (example_swapped\<lparr>
        ws_w := sequencePool example_ext (pf_sops example_ext example_pf) (Some example_nonce) (\<lambda>_. 0) 0
                  [(''o'', 0)] (ws_w example_swapped),
        ws_phase := Seq_Committed [(''o'', 0)], ws_log := example_ups\<rparr>),
      ds_past = [],
      ds_sealed = run_seals example_ext example_pf (Some example_nonce) (\<lambda>_. 0) [(''o'', 0)] (ws_w example_swapped)\<rparr>"

text \<open>The same steps as a run of the witness alone, from the opened store to the swapped pool.\<close>

lemma example_steps:
  "wstep example_ext (pf_sops example_ext example_pf) (winit example_store)
     (winit example_store\<lparr>ws_w := SetSigner 7 (New example_store)\<rparr>)"
  "wstep example_ext (pf_sops example_ext example_pf) (winit example_store\<lparr>ws_w := SetSigner 7 (New example_store)\<rparr>)
     (winit example_store\<lparr>ws_w := example_submitted\<rparr>)"
  "wstep example_ext (pf_sops example_ext example_pf) (winit example_store\<lparr>ws_w := example_submitted\<rparr>)
     (winit example_store\<lparr>ws_w := example_submitted\<lparr>w_running := True\<rparr>\<rparr>)"
  "wstep example_ext (pf_sops example_ext example_pf)
     (winit example_store\<lparr>ws_w := example_submitted\<lparr>w_running := True\<rparr>\<rparr>) example_swapped"
proof -
  show "wstep example_ext (pf_sops example_ext example_pf) (winit example_store)
     (winit example_store\<lparr>ws_w := SetSigner 7 (New example_store)\<rparr>)"
    using wstep.set_signer [of example_ext "pf_sops example_ext example_pf" "winit example_store" 7]
    by (simp add: winit_def)
  have "example_submitted \<noteq> SetSigner 7 (New example_store)"
    by (simp add: example_submitted_def SetSigner_def New_def)
  then show "wstep example_ext (pf_sops example_ext example_pf)
     (winit example_store\<lparr>ws_w := SetSigner 7 (New example_store)\<rparr>) (winit example_store\<lparr>ws_w := example_submitted\<rparr>)"
    using AddCheckpoint_step [of example_ext "pf_sops example_ext example_pf"
        "winit example_store\<lparr>ws_w := SetSigner 7 (New example_store)\<rparr>" example_body] example_AddCheckpoint
    by simp
  show "wstep example_ext (pf_sops example_ext example_pf) (winit example_store\<lparr>ws_w := example_submitted\<rparr>)
     (winit example_store\<lparr>ws_w := example_submitted\<lparr>w_running := True\<rparr>\<rparr>)"
    using wstep.seq_start [of "winit example_store\<lparr>ws_w := example_submitted\<rparr>"
        "example_submitted\<lparr>w_running := True\<rparr>" example_ext "pf_sops example_ext example_pf"]
    by (simp add: run_start_def example_submitted_def New_def)
  show "wstep example_ext (pf_sops example_ext example_pf)
     (winit example_store\<lparr>ws_w := example_submitted\<lparr>w_running := True\<rparr>\<rparr>) example_swapped"
    using wstep.seq_swap [of "winit example_store\<lparr>ws_w := example_submitted\<lparr>w_running := True\<rparr>\<rparr>"]
    by (simp add: example_swapped_def winit_def example_submitted_def New_def)
qed

lemma example_run: "dreach example_ext example_pf (factory example_dev example_card) example_final"
proof -
  let ?f = "factory example_dev example_card" and ?D = "\<lambda>S. \<lparr>ds_power = On S, ds_past = [], ds_sealed = {}\<rparr>"
  have b: "dreach example_ext example_pf ?f (?D (winit example_store))"
    using dstep.boot [OF _ blank_medium_ok _ example_Open, of ?f]
    by (auto intro!: dreach.step [OF dreach.init] simp: factory_def collision_free_def)
  have go: "dreach example_ext example_pf ?f (?D S')"
    if "dreach example_ext example_pf ?f (?D S)" "wstep example_ext (pf_sops example_ext example_pf) S S'"
      "w_store (ws_w S') = w_store (ws_w S)" "ws_log S' = ws_log S" for S S'
    using that dreach.step [OF that(1)] dstep.run [of "?D S" S example_ext example_pf S'] by simp
  note run_defs = winit_def SetSigner_def New_def example_submitted_def example_swapped_def seq_begin_def
  note s1 = go [OF b example_steps(1)]
  note s2 = go [OF s1 example_steps(2)]
  note s3 = go [OF s2 example_steps(3)]
  have "dreach example_ext example_pf ?f (?D example_swapped)"
    by (rule go [OF s3 example_steps(4)]) (simp_all add: run_defs)
  moreover have "dstep example_ext example_pf (?D example_swapped) example_final"
    using dstep.commit [of "?D example_swapped" example_swapped "[(''o'', 0)]" "Some example_nonce" _
        example_ext example_pf "\<lambda>_. 0" 0] example_committed
    by (simp add: example_final_def example_swapped_def nonce_ok_def example_nonce_def nonceLen_def)
  ultimately show ?thesis by (rule dreach.step)
qed

lemma example_log: "ds_log example_final = example_ups"
  by (simp add: ds_log_def example_final_def)

text \<open>The device is still running after the commit, and the submission got its 200.\<close>

lemma example_final_store:
  "\<exists>S. ds_power example_final = On S \<and> w_heap (ws_w S) = [\<lparr>pe_candidate = example_candidate, pe_done = False,
     pe_code = StatusOK, pe_resp = ''s''\<rparr>] \<and> \<not> rs_halted (w_store (ws_w S))"
proof -
  obtain s' where pb: "rs_PutBatch example_crypto mem_ops (rpmb_anchor_ops sector_ops) (Some example_nonce)
      example_store example_ups = (None, s')" using example_PutBatch by blast
  then have nh: "\<not> rs_halted s'"
    by (auto simp: rs_PutBatch_def Let_def split: rs_splits)
  show ?thesis
    using pb nh
    by (simp add: example_final_def example_swapped_def seq_begin_def example_submitted_def New_def sequencePool_def
        w_Halted_def rs_Halted_def example_candidate_def sign_entries_Cons entry_result_def signed_state_def
        key_current_def set_result_def Let_def)
      (simp add: example_ext_def example_cp_def example_text_def example_state_def example_store_def set_result_def)
qed

lemma example_running: "\<exists>S. ds_power example_final = On S \<and> \<not> rs_halted (w_store (ws_w S))"
  using example_final_store by blast

lemma example_ok_entry:
  "\<exists>S e. ds_power example_final = On S \<and> e \<in> set (w_heap (ws_w S)) \<and> pe_code e = StatusOK"
  using example_final_store by fastforce

section \<open>The relations hold of the opened store\<close>

lemma example_store_rel: "store_rel example_ext example_pf {} Map.empty example_store"
  by (simp add: store_rel_def anchor_rel_def example_store_def example_card_fresh fresh_anchor_def good_view_def
      valid_view_def rs_Get_def ms_Get_def)

lemma example_batch_ok: "batch_ok example_ext Map.empty example_ups"
proof -
  have "RestoreNote example_ext (ls_Note example_state) = Inr (''o'', example_state)"
    by (simp add: RestoreNote_def example_note_text) (simp add: example_ext_def example_cp_def example_state_def)
  then show ?thesis
    by (simp add: batch_ok_def wf_map_def consistent_def prev_size_def example_state_def)
qed

lemma example_older:
  "older_slot 1 (slot_result example_crypto 32 mem_ops md_mem Offset example_key example_dev 0)"
  by (simp add: older_slot_def slot_result_def example_slotLBA slot_bytes_blank parseSlot_blank)

lemma example_PutBatch_anchor:
  "\<exists>s1 x a'. rs_PutBatch example_crypto mem_ops (rpmb_anchor_ops sector_ops) (Some example_nonce) example_store
     example_ups = (None, s1) \<and> rpmb_Anchor sector_ops (rs_anchor s1) = (Inr x, a')"
proof -
  from example_save obtain h d' where
    s: "save example_crypto mem_ops example_dev Offset example_key (Some example_nonce) 1
      (next_notes (rs_All example_store) example_ups) = (Inr h, d')" by blast
  let ?n = "\<lparr>as_gen = 1, as_hash = h, as_bound = True\<rparr>"
  have len: "length h = 32" using s example_crypto_ok by (auto simp: crypto_ok_def elim!: save_InrD)
  let ?r = "example_card(rpmbAnchorSector := encode_record ?n @ drop (length (encode_record ?n)) (example_card rpmbAnchorSector))"
  have set: "rpmb_SetAnchor sector_ops example_card ?n = (None, ?r)"
    by (simp add: rpmb_SetAnchor_def example_Anchor fresh_anchor_def) (simp add: sector_ops_def)
  have "rpmb_Anchor sector_ops ?r = (Inr ?n, ?r)"
    using decode_encode_record [of ?n] len by (simp add: rpmb_Anchor_def sector_ops_def)
  with s set show ?thesis
    by (simp add: rs_PutBatch_def example_store_def max_u32_def rpmb_anchor_ops_def Let_def)
qed

lemma example_store_contract: "store (pf_sops example_ext example_pf) (\<lambda>s. wf_map (rs_mem s))"
  unfolding pf_sops_def by (rule rollbackstore.store_axioms)

lemma example_store_wf: "wf_map (rs_mem example_store)"
  by (simp add: example_store_def)

lemma example_store_valid: "valid_view example_ext (st_Get (pf_sops example_ext example_pf) example_store)"
  by (simp add: valid_view_def rs_Get_def ms_Get_def example_store_def)

lemma example_reach_submitted:
  "wreach example_ext (pf_sops example_ext example_pf) (winit example_store) (winit example_store\<lparr>ws_w := example_submitted\<rparr>)"
  by (rule wreach.step [OF wreach.step [OF wreach.init example_steps(1)] example_steps(2)])

lemma example_pool_ok: "pool_ok example_ext (w_heap example_submitted) [(''o'', 0)]"
  using note_text_SomeD(1) [OF example_note_text]
  by (simp add: pool_ok_def wf_map_def entry_ok_def example_submitted_def example_candidate_def example_cp_def example_ext_def)

lemma example_anchor_readable:
  assumes "rpmb_SetAnchor sector_ops example_card \<lparr>as_gen = 1, as_hash = make_bytes 32, as_bound = True\<rparr> = (None, r1)"
  shows "\<exists>s r2. rpmb_Anchor sector_ops r1 = (Inr s, r2)"
proof -
  let ?n = "\<lparr>as_gen = 1, as_hash = make_bytes 32, as_bound = True\<rparr>"
  let ?r = "example_card(rpmbAnchorSector := encode_record ?n @ drop (length (encode_record ?n)) (example_card rpmbAnchorSector))"
  have "rpmb_SetAnchor sector_ops example_card ?n = (None, ?r)"
    by (simp add: rpmb_SetAnchor_def example_Anchor fresh_anchor_def) (simp add: sector_ops_def)
  then have "r1 = ?r" using assms by simp
  then show ?thesis using decode_encode_record [of ?n] by (simp add: rpmb_Anchor_def sector_ops_def)
qed

end
