(* ===== verification/Host_Theorems.thy ===== *)
theory Host_Theorems
  imports Record_Fixtures Selftest Keygen Example_Run
begin

text \<open>
  The properties of the host commands \<open>feed\<close>, \<open>record\<close> and \<open>selftest\<close> and of the test log, with one concrete
  world in which their hypotheses hold: a log whose root hash shows the records of the tree, a witness over the
  in-memory store, and a network that delivers requests to it.
\<close>

section \<open>A concrete world\<close>

definition toy_text :: "checkpoint \<Rightarrow> bytes" where
  "toy_text cp = cp_Origin cp @ nl # format_int (cp_N cp) @ nl # hex_encode (cp_Hash cp) @ [nl]"

definition toy_parse :: "bytes \<Rightarrow> checkpoint option" where
  "toy_parse txt =
     (case split_on nl txt of
        [o', n, h, []] \<Rightarrow>
          (case (parse_int64 n, hex_decode h) of
             (Some n', Some h') \<Rightarrow> Some \<lparr>cp_Origin = o', cp_N = n', cp_Hash = h'\<rparr>
           | _ \<Rightarrow> None)
      | _ \<Rightarrow> None)"

text \<open>The root hash shows the first byte of each of the first 32 records.\<close>

definition toy_first :: "bytes \<Rightarrow> byte" where
  "toy_first r = (case r of [] \<Rightarrow> CHR 0x00 | c # _ \<Rightarrow> c)"

definition toy_mth :: "bytes list \<Rightarrow> bytes" where
  "toy_mth recs = take 32 (map toy_first recs @ make_bytes 32)"

definition toy_tlog :: tlog_lib where
  "toy_tlog =
     \<lparr>tl_StoredHashes = (\<lambda>_ r _. Some [[toy_first r]]),
      tl_TreeHash = (\<lambda>n reader. map_option (\<lambda>hs. take 32 (concat hs @ make_bytes 32)) (reader [0..n - 1])),
      tl_ProveTree = (\<lambda>n _ reader. map_option (\<lambda>_. [make_bytes 32]) (reader [0..n - 1])),
      tl_GenerateKey = (\<lambda>_ origin. Some (origin, origin)),
      tl_NewSigner = (\<lambda>_. True),
      tl_CheckpointString = toy_text,
      tl_Sign = (\<lambda>skey txt. Some (txt @ nl # skey))\<rparr>"

definition toy_ext :: "external" where
  "toy_ext = example_ext\<lparr>ex_ParseCheckpoint := toy_parse,
     ex_CheckTree := (\<lambda>prf n h old oldh. prf = [make_bytes 32] \<and> take (nat old) h = take (nat old) oldh),
     ex_Sign := (\<lambda>sg t txt. Some (txt @ nl # ''w''))\<rparr>"

definition toy_lib :: note_lib where
  "toy_lib =
     \<lparr>nt_NewVerifier = (\<lambda>_. True), nt_Open = (\<lambda>_. note_text), nt_NewCosigVerifier = Some,
      nt_OpenCosig = (\<lambda>vkey data. if last data = CHR ''w'' then Some [(vkey, ''s'')] else None), nt_Timestamp = (\<lambda>_. Some 7),
      nt_Json = (\<lambda>_. Some (\<lambda>k. if k = ''witness_key'' then Some ''w'' else None))\<rparr>"

definition toy_tick :: "unit tick" where
  "toy_tick = \<lparr>tk_env = (), tk_now = \<lambda>_. 7, tk_commit = 7\<rparr>"

text \<open>The network delivers to the witness; \<open>checkpoint_note\<close> is what the log serves.\<close>

definition toy_net :: "bytes \<Rightarrow> log_states witness network" where
  "toy_net checkpoint_note =
     \<lparr>hn_NewTileFetcher = (\<lambda>_. True), hn_ReadEndpoint = (\<lambda>_ _ w. (Some checkpoint_note, w)),
      hn_ProveTree = (\<lambda>_ _ _ w. (Some [make_bytes 32], w)),
      hn_Post = (\<lambda>_ body w. case exchange toy_ext mem_store_ops toy_tick w body of
         (None, w') \<Rightarrow> (None, w') | (Some r, w') \<Rightarrow> (Some (hr_code r, hr_body r), w')),
      hn_Get = (\<lambda>_ w. (Some (StatusOK, []), w))\<rparr>"

definition toy_witness :: "log_states witness" where
  "toy_witness = SetSigner 0 (New NewMemStore)"

definition toy_note :: "checkpoint \<Rightarrow> bytes" where
  "toy_note cp = toy_text cp @ nl # SelftestOrigin"

definition toy_cp1 :: checkpoint where "toy_cp1 = log_cp toy_mth SelftestOrigin [''a'', ''b'', ''c'']"
definition toy_cp2 :: checkpoint where "toy_cp2 = log_cp toy_mth SelftestOrigin [''a'', ''b'', ''c'', ''d'', ''e'']"

lemma toy_behind: "witness_behind toy_ext mem_store_ops toy_tick (toy_net cpNote) base"
  by (simp add: witness_behind_def toy_net_def)

lemma toy_ready: "ready mem_store_ops 0 toy_witness"
  by (simp add: ready_def toy_witness_def SetSigner_def New_def idle_def newPool_def)

lemma toy_hash_codec: "hash_codec_ok toy_ext"
  using example_hash_codec by (simp add: hash_codec_ok_def toy_ext_def)

lemma newline_notin_hex [simp]: "nl \<notin> set (hex_encode h)"
  using list_all_graphic_hex_encode [of h] by (auto simp: list_all_iff graphic_def)

lemma toy_parse_text:
  assumes "plain_cp cp"
  shows "toy_parse (toy_text cp) = Some cp"
proof -
  have "nl \<notin> set (cp_Origin cp)" using assms word_text_newline [OF word_text_graphic] by (auto simp: plain_cp_def)
  moreover have "parse_int64 (format_int (cp_N cp)) = Some (cp_N cp)"
    using assms by (intro parse_int64_format_int) (auto simp: plain_cp_def)
  ultimately show ?thesis by (simp add: toy_parse_def toy_text_def split_on_append split_on_plain)
qed

lemma toy_notes_ok: "log_notes_ok toy_ext toy_tlog"
  using toy_parse_text by (simp add: log_notes_ok_def toy_ext_def toy_tlog_def example_ext_def toy_text_def SelftestOrigin_def)

lemma toy_holds:
  assumes "holds_records toy_tlog recs l"
  shows "tg_n l = int (length recs) \<and> tg_ReadHashes l [0..int (length recs) - 1] = Some (map (\<lambda>r. [toy_first r]) recs)"
proof -
  have "tg_Append toy_tlog recs l0 = (True, l) \<Longrightarrow> tg_hashes l = tg_hashes l0 @ map (\<lambda>r. [toy_first r]) recs" for l0
    by (induction recs arbitrary: l0) (auto simp: toy_tlog_def)
  then have h: "tg_hashes l = map (\<lambda>r. [toy_first r]) recs" using assms by (auto simp: holds_records_def)
  have "map (\<lambda>x. xs ! nat x) [0..int (length xs) - 1] = xs" for xs :: "bytes list"
    by (intro nth_equalityI) simp_all
  from this [of "tg_hashes l"] have "tg_ReadHashes l [0..int (length recs) - 1] = Some (tg_hashes l)"
    by (simp add: tg_ReadHashes_iff h)
  then show ?thesis using holds_records_size [OF assms] h by simp
qed

lemma toy_merkle: "merkle_ok toy_ext toy_tlog toy_mth"
  unfolding merkle_ok_def
proof (intro conjI allI impI)
  fix recs l old assume l: "holds_records toy_tlog recs l" and old: "0 < old" "old < length recs"
  have "concat (map (\<lambda>r. [toy_first r]) recs) = map toy_first recs" by (induction recs) simp_all
  moreover have "take old (toy_mth recs) = take old (toy_mth (take old recs))"
    using old by (simp add: toy_mth_def min_def take_map)
  ultimately show "\<exists>prf. tl_ProveTree toy_tlog (tg_n l) (int old) (tg_ReadHashes l) = Some prf \<and> proof_ok prf
      \<and> ex_CheckTree toy_ext prf (tg_n l) (toy_mth recs) (int old) (toy_mth (take old recs))"
    using toy_holds [OF l] by (simp add: toy_tlog_def toy_ext_def proof_ok_def maxProofLines_def)
next
  fix recs l assume l: "holds_records toy_tlog recs l"
  have "concat (map (\<lambda>r. [toy_first r]) recs) = map toy_first recs" by (induction recs) simp_all
  then show "tl_TreeHash toy_tlog (tg_n l) (tg_ReadHashes l) = Some (toy_mth recs)"
    using toy_holds [OF l] by (simp add: toy_tlog_def toy_mth_def)
qed (simp_all add: toy_tlog_def toy_mth_def)

lemma toy_sound: "prefix_sound toy_ext toy_mth [''a'', ''b'', ''c'', ''d'', ''e''] [''a'', ''b'', ''X'', ''d'', ''e'', ''f'', ''g'']"
  by (simp add: prefix_sound_def toy_ext_def toy_mth_def toy_first_def)

lemma toy_cosigner: "cosigner_ok toy_ext toy_tlog toy_lib 0 ''w'' ''w''"
  by (simp add: cosigner_ok_def toy_ext_def toy_lib_def)

lemma toy_plain: "plain_cp toy_cp1" "plain_cp toy_cp2"
  unfolding toy_cp1_def toy_cp2_def by (rule plain_log_cp [OF toy_merkle]; simp add: SelftestOrigin_def graphic_def)+

lemma toy_cp_simps [simp]:
  "cp_Origin toy_cp1 = SelftestOrigin" "cp_N toy_cp1 = 3" "cp_Origin toy_cp2 = SelftestOrigin" "cp_N toy_cp2 = 5"
  by (simp_all add: toy_cp1_def toy_cp2_def log_cp_def)

lemma toy_checkpoint:
  assumes "plain_cp cp" "cp_Origin cp = SelftestOrigin"
  shows "note_text (toy_note cp) = Some (toy_text cp)" "ex_ParseCheckpoint toy_ext (toy_text cp) = Some cp"
    "length (toy_text cp) \<le> 200"
  using checkpoint_text(1) [OF toy_hash_codec toy_notes_ok assms(1), of SelftestOrigin]
    checkpoint_text(2,3) [OF toy_hash_codec toy_notes_ok assms(1)] assms(2)
  by (simp_all add: toy_note_def toy_tlog_def SelftestOrigin_def)

lemma toy_fits:
  assumes "plain_cp cp" "cp_Origin cp = SelftestOrigin" "prf = [] \<or> prf = [make_bytes 32] \<or> prf = tamper [make_bytes 32]" "0 \<le> old" "old < 2 ^ 63"
  shows "length (EncodeAddCheckpoint toy_ext old prf (toy_note cp)) \<le> MaxRequestSize"
proof (rule encoded_fits [OF toy_notes_ok _ assms(4,5)])
  have "proof_ok [make_bytes 32]" by (simp add: proof_ok_def maxProofLines_def)
  with assms(3) show "proof_ok prf" using proof_ok_tamper by auto
  show "length (toy_note cp) \<le> 2000" using toy_checkpoint(3) [OF assms(1,2)] by (simp add: toy_note_def SelftestOrigin_def)
qed

definition toy_feed :: feed_flags where
  "toy_feed = \<lparr>ff_witness = ''u'', ff_logName = [], ff_log = ''l'', ff_origin = SelftestOrigin, ff_logKey = ''k'', ff_witnessKey = ''w''\<rparr>"

definition toy_feed_log :: fetchable_log where
  "toy_feed_log = \<lparr>fl_Name = [], fl_MonitoringURL = ''l'', fl_Log = \<lparr>lg_Origin = SelftestOrigin, lg_VKey = ''k''\<rparr>\<rparr>"

lemma toy_new: "latest mem_store_ops toy_witness o' = 0" "latest_hash mem_store_ops toy_witness o' = make_bytes 32"
  by (simp_all add: mem_latest toy_witness_def SetSigner_def New_def NewMemStore_def)

lemma toy_serves:
  "log_serves toy_ext toy_lib (toy_net (toy_note toy_cp1)) toy_feed_log toy_cp1 (toy_note toy_cp1) (toy_text toy_cp1) w"
  using toy_checkpoint [OF toy_plain(1)]
  by (simp add: log_serves_def toy_lib_def toy_net_def toy_feed_log_def)

lemma toy_feed_note:
  "verifyCosignature toy_lib ''w'' ''w'' cpNote ''w'' = Inr 7" "nt_OpenCosig toy_lib k (cpNote @ ''w'') = Some [(k, ''s'')]"
  "nt_Timestamp toy_lib sig = Some 7" "length (toy_text toy_cp1 @ nl # ''w'') \<le> maxWitnessResponse"
  "SelftestOrigin \<noteq> []" "nt_NewCosigVerifier toy_lib = Some"
  "ex_Sign toy_ext sg t txt = Some (txt @ nl # ''w'')"
  "st_PutBatch mem_store_ops e m ups = (None, ms_PutBatch m ups)"
proof -
  show "length (toy_text toy_cp1 @ nl # ''w'') \<le> maxWitnessResponse"
    using toy_checkpoint(3) [OF toy_plain(1)] by (simp add: maxWitnessResponse_def)
qed (simp_all add: verifyCosignature_def toy_lib_def SelftestOrigin_def toy_ext_def mem_store_ops_def)

lemma drop_signature: "drop (Suc (length a)) (a @ [x, y]) = [y]"
  by (induction a) simp_all

lemmas toy_feed_simps = drop_signature toy_new toy_feed_def toy_feed_log_def resolveLog_def honest_update_def toy_feed_note

lemma toy_feed_run:
  "\<exists>w'. cmdFeed toy_ext toy_lib (toy_net (toy_note toy_cp1)) [] toy_feed toy_witness =
      (Inr \<lparr>fo_Origin = cp_Origin toy_cp1, fo_Size = cp_N toy_cp1, fo_Name = ''w'', fo_Time = 7\<rparr>, w')
    \<and> w_store w' = ms_PutBatch (w_store toy_witness) [(cp_Origin toy_cp1,
        \<lparr>ls_Size = cp_N toy_cp1, ls_Hash = cp_Hash toy_cp1, ls_Note = toy_text toy_cp1 @ nl # ''w''\<rparr>)]"
  by (rule feed_passes [OF _ toy_serves _ _ toy_behind toy_ready toy_hash_codec, where pf = "[]" and snote = "toy_text toy_cp1 @ nl # ''w''"])
    (use toy_fits [OF toy_plain(1), of "[]" 0] toy_feed_note(4) in \<open>simp_all add: toy_feed_simps\<close>)

section \<open>Properties\<close>

text \<open>
  C28: The self-test passes against the witness. On a witness with a key and the in-memory store that knows neither of the
  two origins, \<open>vitrum selftest\<close> succeeds for every seed, and the witness then has the honest log at size 5 and the checkpoint of
  the unknown origin at size 3. Assumed of the libraries: \<open>tlog\<close> computes a Merkle tree hash of the records, its
  proofs verify, and a proof never connects the fork to the honest tree; signed notes and checkpoints have the documented
  format; the cosignature of the witness's key verifies under the key that its \<open>/healthz\<close> reports.
\<close>

theorem selftest_passes:
  assumes "witness_behind ex mem_store_ops tk net (newWitnessClient url)" "ready mem_store_ops sg w"
    "map_of (w_store w) SelftestOrigin = None" "map_of (w_store w) unknown_origin = None"
    "hash_codec_ok ex" "merkle_ok ex tlib mth" "log_notes_ok ex tlib" "cosigner_ok ex tlib lib sg vkey vname"
    "prefix_sound ex mth [''a'', ''b'', ''c'', ''d'', ''e''] [''a'', ''b'', ''X'', ''d'', ''e'', ''f'', ''g'']"
    "hn_Get net (newWitnessClient url @ ''/healthz'') w = (Some (StatusOK, page), w)"
    "nt_Json lib (take maxWitnessResponse page) = Some j" "j ''witness_key'' = Some vkey" "vkey \<noteq> []"
    "nt_NewCosigVerifier lib vkey = Some vname"
  shows "\<exists>w'. cmdSelftest ex lib tlib net url seed w = (Inr (), w')
    \<and> known_tree w' SelftestOrigin 5 (mth [''a'', ''b'', ''c'', ''d'', ''e'']) \<and> known_tree w' unknown_origin 3 (mth [''a'', ''b'', ''c''])"
proof -
  obtain d where d: "log_built tlib seed d" "run_ok ex lib sg tk vkey vname d"
    "sn_cp1 d = log_cp mth SelftestOrigin [''a'', ''b'', ''c'']" "sn_cp2 d = log_cp mth SelftestOrigin [''a'', ''b'', ''c'', ''d'', ''e'']"
    "sn_freshCP d = log_cp mth unknown_origin [''a'', ''b'', ''c'']"
    using selftest_run_exists [OF assms(5-7,9,8)] by blast
  have og: "cp_Origin (sn_cp1 d) = SelftestOrigin" "cp_Origin (sn_freshCP d) = unknown_origin" by (simp_all add: d(3,5) log_cp_def)
  show ?thesis
    using selftest_passes_aux [OF assms(1,2) _ _ assms(5) d(1,2) selftest_verifier_ok [OF assms(10-14)]] assms(3,4)
    unfolding og by (auto simp: d(3-5) log_cp_def)
qed

theorem selftest_passes_witness:
  "\<exists>w'. cmdSelftest toy_ext toy_lib toy_tlog (toy_net []) ''u'' SelftestSeed toy_witness = (Inr (), w')
    \<and> known_tree w' SelftestOrigin 5 (''abcde'' @ make_bytes 27)"
proof -
  have "w_store toy_witness = []" by (simp add: toy_witness_def SetSigner_def New_def NewMemStore_def)
  then have new: "map_of (w_store toy_witness) o' = None" for o' by simp
  have "hn_Get (toy_net []) url toy_witness = (Some (StatusOK, []), toy_witness)" for url by (simp add: toy_net_def)
  moreover have "nt_Json toy_lib page = Some (\<lambda>k. if k = ''witness_key'' then Some ''w'' else None)"
    "nt_NewCosigVerifier toy_lib ''w'' = Some ''w''" for page by (simp_all add: toy_lib_def)
  ultimately have "\<exists>w'. cmdSelftest toy_ext toy_lib toy_tlog (toy_net []) ''u'' SelftestSeed toy_witness = (Inr (), w')
    \<and> known_tree w' SelftestOrigin 5 (toy_mth [''a'', ''b'', ''c'', ''d'', ''e'']) \<and> known_tree w' unknown_origin 3 (toy_mth [''a'', ''b'', ''c''])"
    by (intro selftest_passes [OF toy_behind toy_ready new new toy_hash_codec toy_merkle toy_notes_ok toy_cosigner toy_sound,
        where page = "[]" and j = "\<lambda>k. if k = ''witness_key'' then Some ''w'' else None"]) simp_all
  moreover have "toy_mth [''a'', ''b'', ''c'', ''d'', ''e''] = ''abcde'' @ make_bytes 27"
    by (simp add: toy_mth_def toy_first_def make_bytes_def numeral_eq_Suc)
  ultimately show ?thesis by metis
qed

text \<open>
  C26: A reported feed is sound. Whatever the network, the witness and the log do, when \<open>vitrum feed\<close> reports success the
  log key signed a note with exactly the reported origin and size, the origin is the one of the selected log, and
  the witness key signed that very note with the reported time.
\<close>

theorem feed_success_is_verified:
  assumes "cmdFeed ex lib net logs fl n = (Inr rep, n')"
  shows "\<exists>logCfg key cpNote cosig txt cp sigs sig.
    resolveLog logs (ff_logName fl) (ff_log fl) (ff_origin fl) (ff_logKey fl) = Inr logCfg
    \<and> nt_Open lib (lg_VKey (fl_Log logCfg)) cpNote = Some txt \<and> ex_ParseCheckpoint ex txt = Some cp
    \<and> cp_Origin cp = lg_Origin (fl_Log logCfg) \<and> fo_Origin rep = cp_Origin cp \<and> fo_Size rep = cp_N cp
    \<and> nt_NewCosigVerifier lib key = Some (fo_Name rep) \<and> (ff_witnessKey fl \<noteq> [] \<longrightarrow> key = ff_witnessKey fl)
    \<and> nt_OpenCosig lib key (cpNote @ cosig) = Some sigs \<and> (fo_Name rep, sig) \<in> set sigs
    \<and> nt_Timestamp lib sig = Some (fo_Time rep)"
  using assms by (rule cmdFeed_InrD)

theorem feed_success_is_verified_witness:
  "\<exists>w' txt cp. cmdFeed toy_ext toy_lib (toy_net (toy_note toy_cp1)) [] toy_feed toy_witness =
      (Inr \<lparr>fo_Origin = SelftestOrigin, fo_Size = 3, fo_Name = ''w'', fo_Time = 7\<rparr>, w')
    \<and> ex_ParseCheckpoint toy_ext txt = Some cp \<and> cp_Origin cp = SelftestOrigin \<and> cp_N cp = 3"
proof -
  obtain w' where run: "cmdFeed toy_ext toy_lib (toy_net (toy_note toy_cp1)) [] toy_feed toy_witness =
      (Inr \<lparr>fo_Origin = SelftestOrigin, fo_Size = 3, fo_Name = ''w'', fo_Time = 7\<rparr>, w')"
    using toy_feed_run by auto
  from feed_success_is_verified [OF run] have "\<exists>txt cp. ex_ParseCheckpoint toy_ext txt = Some cp \<and> cp_Origin cp = SelftestOrigin \<and> cp_N cp = 3"
    by simp metis
  with run show ?thesis by blast
qed

text \<open>
  C30: Recording ends. When sleeping advances the clock by the poll interval and a fetch never turns it back, \<open>vitrum record\<close>
  returns for every log: the wait for growth ends at the deadline at the latest.
\<close>

theorem record_terminates:
  assumes "\<And>lc. clock_ok ex lib net ck lc" "0 < rf_poll fl"
  shows "\<exists>res. cmdRecord ex lib net ck json logs fl r = Some res"
  using record_wait_ends [OF assms] by (simp add: cmdRecord_def split: prod.split sum.split option.split) (metis option.distinct(1))

text \<open>A log that grows from size 3 to size 5 after ten seconds.\<close>

definition toy_record_net :: "int network" where
  "toy_record_net =
     \<lparr>hn_NewTileFetcher = (\<lambda>_. True), hn_ReadEndpoint = (\<lambda>_ _ n. (Some (toy_note (if n < 10 then toy_cp1 else toy_cp2)), n)),
      hn_ProveTree = (\<lambda>_ _ _ n. (Some [make_bytes 32], n)), hn_Post = (\<lambda>_ _ n. (None, n)), hn_Get = (\<lambda>_ n. (None, n))\<rparr>"

definition toy_clock :: "int clock" where
  "toy_clock = \<lparr>ck_now = id, ck_sleep = (+)\<rparr>"

definition toy_record :: "int \<Rightarrow> record_flags" where
  "toy_record wait = \<lparr>rf_logName = [], rf_log = ''l'', rf_origin = SelftestOrigin, rf_logKey = ''k'', rf_out = ''d'', rf_wait = wait,
     rf_poll = 10\<rparr>"

definition toy_recorder :: "int recorder" where
  "toy_recorder = \<lparr>rc_net = 0, rc_fs = \<lparr>fs_files = [], fs_faults = []\<rparr>, rc_steps = []\<rparr>"

definition toy_json :: "fixture_manifest \<Rightarrow> bytes" where
  "toy_json m = fm_Origin m"

lemma toy_clock_ok: "clock_ok ex lib toy_record_net toy_clock lc"
  by (auto simp: clock_ok_def toy_clock_def toy_record_net_def lc_checkpoint_def io_bind_def io_call_def split: option.split)

theorem record_terminates_witness:
  "\<exists>res. cmdRecord toy_ext toy_lib toy_record_net toy_clock toy_json [] (toy_record 600) toy_recorder = Some res"
  using record_terminates [OF toy_clock_ok, of "toy_record 600"] by (simp add: toy_record_def)

text \<open>
  C29: The fixtures replay. When \<open>vitrum record\<close> reports success, its manifest and request files are those of the checkpoints that
  it fetched: first sighting and resubmission of the first note, then, if the log grew until the deadline, the growth with the
  fetched proof, before it the same with the tampered proof if there is a proof, and the stale replay, each with its
  status. For a log that was not empty and whose proof is honest, sending the files in manifest order to a witness
  that does not know the log produces exactly the recorded statuses.
\<close>

theorem record_fixtures_replay:
  assumes "cmdRecord ex lib net ck json logs fl r = Some (Inr m, r')" "rc_steps r = []"
  shows "\<exists>l lc cp1 cpNote1 n1 cp2 cpNote2 n2 grown.
    resolveLog logs (rf_logName fl) (rf_log fl) (rf_origin fl) (rf_logKey fl) = Inr l
    \<and> newLogClient lib net (fl_MonitoringURL l) (lg_Origin (fl_Log l)) (lg_VKey (fl_Log l)) = Inr lc
    \<and> lc_checkpoint ex lib net lc (rc_net r) = (Inr (cp1, cpNote1), n1)
    \<and> record_wait ex lib net ck lc cp1 (ck_now ck n1 + rf_wait fl) (rf_poll fl) cp1 cpNote1 n1 = Some (Inr (cp2, cpNote2), n2)
    \<and> growth net lc cp1 cp2 cpNote2 n2 grown
    \<and> (let content = (\<lambda>file. map_of (fs_files (rc_fs r')) (Join [record_dir fl (lg_Origin (fl_Log l)), file])) in
        content ''manifest.json'' = Some (json m @ [nl])
        \<and> map (\<lambda>(file, status). (file, status, content file)) (fm_Steps m) =
            map (\<lambda>(name, status, body). (name @ ''.req'', status, Some body)) (record_plan ex cp1 cpNote1 grown)
        \<and> (\<forall>sg tk w. ready mem_store_ops sg w \<longrightarrow> map_of (w_store w) (lg_Origin (fl_Log l)) = None \<longrightarrow> hash_codec_ok ex \<longrightarrow>
            submittable ex lib (lg_VKey (fl_Log l)) sg tk \<longrightarrow> 0 < cp_N cp1 \<longrightarrow>
            (\<forall>prf. grown = Some (cpNote2, prf) \<longrightarrow> honest_proof ex cp1 cp2 prf) \<longrightarrow>
            (\<forall>(name, status, body) \<in> set (record_plan ex cp1 cpNote1 grown). length body \<le> MaxRequestSize) \<longrightarrow>
            replay ex mem_store_ops tk w (map (\<lambda>(file, status). the (content file)) (fm_Steps m)) = map (\<lambda>(file, status). Some status) (fm_Steps m)))"
proof -
  from assms obtain l lc cp1 cpNote1 n1 cp2 cpNote2 n2 grown where
    run: "resolveLog logs (rf_logName fl) (rf_log fl) (rf_origin fl) (rf_logKey fl) = Inr l"
      "newLogClient lib net (fl_MonitoringURL l) (lg_Origin (fl_Log l)) (lg_VKey (fl_Log l)) = Inr lc"
      "lc_checkpoint ex lib net lc (rc_net r) = (Inr (cp1, cpNote1), n1)"
      "record_wait ex lib net ck lc cp1 (ck_now ck n1 + rf_wait fl) (rf_poll fl) cp1 cpNote1 n1 = Some (Inr (cp2, cpNote2), n2)"
      "growth net lc cp1 cp2 cpNote2 n2 grown"
    and steps: "fm_Steps m = map (\<lambda>(name, status, body). (name @ ''.req'', status)) (record_plan ex cp1 cpNote1 grown)"
    and files: "\<forall>(name, status, body) \<in> set (record_plan ex cp1 cpNote1 grown).
       map_of (fs_files (rc_fs r')) (Join [record_dir fl (lg_Origin (fl_Log l)), name @ ''.req'']) = Some body"
    and man: "map_of (fs_files (rc_fs r')) (Join [record_dir fl (lg_Origin (fl_Log l)), ''manifest.json'']) = Some (json m @ [nl])"
    by (rule cmdRecord_InrD)
  let ?plan = "record_plan ex cp1 cpNote1 grown"
  let ?content = "\<lambda>file. map_of (fs_files (rc_fs r')) (Join [record_dir fl (lg_Origin (fl_Log l)), file])"
  have contents: "map (\<lambda>(file, status). (file, status, ?content file)) (fm_Steps m) =
      map (\<lambda>(name, status, body). (name @ ''.req'', status, Some body)) ?plan"
    "map (\<lambda>(file, status). the (?content file)) (fm_Steps m) = map (snd \<circ> snd) ?plan"
    "map (\<lambda>(file, status). Some status) (fm_Steps m) = map (Some \<circ> fst \<circ> snd) ?plan"
    unfolding steps map_map using files by (auto intro!: map_cong)
  have replays: "replay ex mem_store_ops tk w (map (snd \<circ> snd) ?plan) = map (Some \<circ> fst \<circ> snd) ?plan"
    if w: "ready mem_store_ops sg w" "map_of (w_store w) (lg_Origin (fl_Log l)) = None" and codec: "hash_codec_ok ex"
      and sub: "submittable ex lib (lg_VKey (fl_Log l)) sg tk" and pos: "0 < cp_N cp1"
      and honest: "\<forall>prf. grown = Some (cpNote2, prf) \<longrightarrow> honest_proof ex cp1 cp2 prf"
      and fits: "\<forall>(name, status, body) \<in> set ?plan. length body \<le> MaxRequestSize" for sg tk and w :: "log_states witness"
    by (rule recorded_plan_replays [OF run(2-5) w codec sub pos _ fits]) (use honest in blast)
  show ?thesis
    by (intro exI [of _ l] exI [of _ lc] exI [of _ cp1] exI [of _ cpNote1] exI [of _ n1] exI [of _ cp2] exI [of _ cpNote2]
        exI [of _ n2] exI [of _ grown] conjI run)
      (use man contents replays in \<open>simp add: Let_def\<close>)
qed

lemma toy_now [simp]: "ck_now toy_clock n = n"
  by (simp add: toy_clock_def)

lemma toy_record_log:
  "resolveLog [] [] ''l'' SelftestOrigin ''k'' = Inr toy_feed_log"
  "newLogClient toy_lib toy_record_net ''l'' SelftestOrigin ''k'' = Inr \<lparr>lc_origin = SelftestOrigin, lc_vkey = ''k'', lc_prefix = ''l''\<rparr>"
  "record_dir (toy_record x) origin = ''d''"
  by (simp_all add: resolveLog_def toy_feed_log_def newLogClient_def toy_lib_def toy_record_net_def toy_record_def record_dir_def SelftestOrigin_def)

abbreviation "toy_lc \<equiv> \<lparr>lc_origin = SelftestOrigin, lc_vkey = ''k'', lc_prefix = ''l''\<rparr>"

lemma toy_record_fetch:
  "lc_checkpoint toy_ext toy_lib toy_record_net toy_lc n =
    (Inr (if n < 10 then (toy_cp1, toy_note toy_cp1) else (toy_cp2, toy_note toy_cp2)), n)"
  using toy_checkpoint [OF toy_plain(1)] toy_checkpoint [OF toy_plain(2)]
  by (simp add: lc_checkpoint_def io_bind_def io_call_def toy_record_net_def toy_lib_def)

lemma toy_record_wait:
  "record_wait toy_ext toy_lib toy_record_net toy_clock toy_lc toy_cp1 600 10 toy_cp1 (toy_note toy_cp1) 0 =
    Some (Inr (toy_cp2, toy_note toy_cp2), 10)"
  by (subst record_wait.simps, simp add: toy_clock_def toy_record_fetch, subst record_wait.simps, simp)

lemma toy_record_run:
  "\<exists>m r'. cmdRecord toy_ext toy_lib toy_record_net toy_clock toy_json [] (toy_record 600) toy_recorder = Some (Inr m, r')"
proof -
  have fl: "rf_logName (toy_record x) = []" "rf_log (toy_record x) = ''l''" "rf_origin (toy_record x) = SelftestOrigin"
    "rf_logKey (toy_record x) = ''k''" "rf_wait (toy_record x) = x" "rf_poll (toy_record x) = 10" for x
    by (simp_all add: toy_record_def)
  have l: "fl_MonitoringURL toy_feed_log = ''l''" "lg_Origin (fl_Log toy_feed_log) = SelftestOrigin" "lg_VKey (fl_Log toy_feed_log) = ''k''"
    by (simp_all add: toy_feed_log_def)
  have files: "os_WriteFile path body \<lparr>fs_files = files, fs_faults = []\<rparr> = (True, \<lparr>fs_files = AList.update path body files, fs_faults = []\<rparr>)"
    "os_MkdirAll path \<lparr>fs_files = files, fs_faults = []\<rparr> = (True, \<lparr>fs_files = files, fs_faults = []\<rparr>)" for path body files
    by (simp_all add: os_WriteFile_def os_MkdirAll_def)
  have prove: "lc_proveTree toy_record_net toy_lc cp n n' = (Inr [make_bytes 32], n')" for cp n n'
    by (simp add: lc_proveTree_def io_call_def toy_record_net_def)
  show ?thesis
    by (simp add: cmdRecord_def record_begin_def record_end_def toy_recorder_def toy_record_log toy_record_fetch toy_record_wait fl l files prove
        io_bind_def io_map_error_def on_net_def on_fs_def record_step_def first_steps_def grow_steps_def stale_step_def toy_now Let_def
        del: AList.update.simps)
qed

lemma toy_submittable: "submittable toy_ext toy_lib vkey sg toy_tick"
proof -
  have "cp_N cp < 2 ^ 63" if "toy_parse t = Some cp" for t cp
    using that parse_int64_range by (auto simp: toy_parse_def split: list.splits option.splits)
  then show ?thesis by (auto simp: submittable_def toy_ext_def toy_lib_def)
qed

theorem record_fixtures_replay_witness:
  "\<exists>m r'. cmdRecord toy_ext toy_lib toy_record_net toy_clock toy_json [] (toy_record 600) toy_recorder = Some (Inr m, r')
    \<and> replay toy_ext mem_store_ops toy_tick toy_witness (map (\<lambda>(file, status). the (map_of (fs_files (rc_fs r')) (Join [''d'', file]))) (fm_Steps m)) =
        [Some 200, Some 200, Some 422, Some 200, Some 409]"
proof -
  obtain m r' where run: "cmdRecord toy_ext toy_lib toy_record_net toy_clock toy_json [] (toy_record 600) toy_recorder = Some (Inr m, r')"
    using toy_record_run by blast
  let ?content = "\<lambda>file. map_of (fs_files (rc_fs r')) (Join [''d'', file])"
  let ?plan = "record_plan toy_ext toy_cp1 (toy_note toy_cp1) (Some (toy_note toy_cp2, [make_bytes 32]))"
  have "rc_steps toy_recorder = []" "rc_net toy_recorder = 0" by (simp_all add: toy_recorder_def)
  note facts = record_fixtures_replay [OF run this(1), unfolded this(2)]
  have growth: "growth toy_record_net toy_lc toy_cp1 toy_cp2 (toy_note toy_cp2) 10 grown = (grown = Some (toy_note toy_cp2, [make_bytes 32]))" for grown
    by (auto simp: growth_def lc_proveTree_def io_call_def toy_record_net_def)
  from facts obtain grown where "growth toy_record_net toy_lc toy_cp1 toy_cp2 (toy_note toy_cp2) 10 grown"
    and c: "map (\<lambda>(file, status). (file, status, ?content file)) (fm_Steps m) =
      map (\<lambda>(name, status, body). (name @ ''.req'', status, Some body)) (record_plan toy_ext toy_cp1 (toy_note toy_cp1) grown)"
    and r: "\<forall>sg tk w. ready mem_store_ops sg w \<longrightarrow> map_of (w_store w) SelftestOrigin = None \<longrightarrow> hash_codec_ok toy_ext \<longrightarrow>
      submittable toy_ext toy_lib ''k'' sg tk \<longrightarrow> 0 < cp_N toy_cp1 \<longrightarrow>
      (\<forall>prf. grown = Some (toy_note toy_cp2, prf) \<longrightarrow> honest_proof toy_ext toy_cp1 toy_cp2 prf) \<longrightarrow>
      (\<forall>(name, status, body) \<in> set (record_plan toy_ext toy_cp1 (toy_note toy_cp1) grown). length body \<le> MaxRequestSize) \<longrightarrow>
      replay toy_ext mem_store_ops tk w (map (\<lambda>(file, status). the (?content file)) (fm_Steps m)) = map (\<lambda>(file, status). Some status) (fm_Steps m)"
    by (auto simp: toy_record_log toy_record_fetch toy_record_wait toy_feed_log_def toy_record_def record_dir_def toy_now Let_def)
  then have grown: "grown = Some (toy_note toy_cp2, [make_bytes 32])" by (simp add: growth)
  have new: "map_of (w_store toy_witness) SelftestOrigin = None" by (simp add: toy_witness_def SetSigner_def New_def NewMemStore_def)
  have "tamper [make_bytes 32] \<noteq> [make_bytes 32]" by code_simp
  then have honest: "honest_proof toy_ext toy_cp1 toy_cp2 [make_bytes 32]"
    by (simp add: honest_proof_def toy_ext_def toy_cp1_def toy_cp2_def log_cp_def proof_ok_def maxProofLines_def
        toy_mth_def toy_first_def)
  have fits: "\<forall>(name, status, body) \<in> set ?plan. length body \<le> MaxRequestSize"
    using toy_fits [OF toy_plain(1)] toy_fits [OF toy_plain(2)] by (auto simp: record_plan_def)
  have statuses: "map (\<lambda>(file, status). Some status) (fm_Steps m) = [Some 200, Some 200, Some 422, Some 200, Some 409]"
    using arg_cong [OF c, of "map (\<lambda>(file, status, x). Some status)"] by (simp add: grown record_plan_def comp_def case_prod_unfold)
  have "replay toy_ext mem_store_ops toy_tick toy_witness (map (\<lambda>(file, status). the (?content file)) (fm_Steps m)) =
      map (\<lambda>(file, status). Some status) (fm_Steps m)"
    using r toy_ready new toy_hash_codec toy_submittable honest fits by (auto simp: grown)
  with run statuses show ?thesis by auto
qed

text \<open>
  The seed reader is a stream. For a 32-byte hash, reading the seed reader in pieces of any sizes always ends, gives
  pieces of exactly these sizes, and their concatenation is a prefix of the one stream
  \<open>H(seed, 0) H(seed, 1) ...\<close>: how the reads are cut does not matter.
\<close>

lemma seed_reader_stream:
  assumes "\<forall>x. length (sha x) = 32"
  shows "\<exists>ps r. seed_reads sha ns (NewSeedReader seed) = Some (ps, r) \<and> map length ps = ns
    \<and> concat ps = take (sum_list ns) (seed_stream sha seed (sum_list ns))"
  using seed_reads_stream [OF assms seed_at_New, of ns seed] by auto

end
