(* ===== verification/Key_Sessions.thy ===== *)
theory Key_Sessions
  imports Provision_Server
begin

text \<open>
  The provisioning server and the witness at the granularity of their locks. In \<^verbatim>\<open>internal/provision/server.go\<close> a
  session holds \<open>Server.mu\<close> while it calls \<open>SetSigner\<close> or \<open>ClearSigner\<close> (which take the witness's own \<open>mu\<close>) and then
  zeroes the old key slice byte by byte; the witness may sign between any two of these actions, with the bytes that the
  signer's slice holds at that moment. \<open>kstep\<close> has one rule per action, \<open>kreach\<close> the reachable states.

  \<open>K\<close> names the contents with which each key slice is created, so it is fixed for an execution. The invariant \<open>kinv\<close>
  gives, for every slice, how many of its bytes are overwritten; the slice that the witness signs with is always
  intact. So the system is, seen from the witness, a run of \<open>wstep\<close> with constant keys. The sessions run one after
  another (\<open>run_jobs\<close>) are runs of this system.
\<close>

section \<open>State\<close>

text \<open>
  What the holder of \<open>Server.mu\<close> does: nobody holds it; a session is about to install its key; a session is about to
  clear the signer; the old key is overwritten up to an index, after which the given key becomes \<open>s.priv\<close>.
\<close>

datatype mu_section = Mu_Free | Mu_Install key_ref | Mu_Clear | Mu_Zeroing nat "key_ref option"

text \<open>\<open>ks_held\<close> are the keys of sessions that have built their signer and not yet taken \<open>Server.mu\<close>.\<close>

record 's key_sys =
  ks_sys :: "'s wsys"
  ks_srv :: server
  ks_mu :: mu_section
  ks_held :: "key_ref list"

definition kinit :: "'s wsys \<Rightarrow> server \<Rightarrow> 's key_sys" where
  "kinit S s = \<lparr>ks_sys = S, ks_srv = s, ks_mu = Mu_Free, ks_held = []\<rparr>"

text \<open>A signer signs with the current contents of its key slice; \<open>sf\<close> is torchwood's signing function.\<close>

type_synonym signing_fn = "signer_ref \<Rightarrow> bytes \<Rightarrow> int \<Rightarrow> bytes \<Rightarrow> bytes option"

definition signing :: "external \<Rightarrow> signing_fn \<Rightarrow> (key_ref \<Rightarrow> bytes) \<Rightarrow> external" where
  "signing ex sf keys = ex\<lparr>ex_Sign := \<lambda>r. sf r (keys r)\<rparr>"

definition signing_fn_ok :: "signing_fn \<Rightarrow> bool" where
  "signing_fn_ok sf \<longleftrightarrow>
     (\<forall>r k t txt snote. sf r k t txt = Some snote \<longrightarrow> (\<exists>sigs. snote = txt @ CHR 0x0A # sigs))"

text \<open>One iteration of the loop of \<open>zero\<close>.\<close>

definition zero_byte :: "key_ref \<Rightarrow> nat \<Rightarrow> server \<Rightarrow> server" where
  "zero_byte r i s = s\<lparr>sv_keys := (sv_keys s)[r := (sv_keys s ! r)[i := CHR 0x00]]\<rparr>"

section \<open>Steps\<close>

inductive kstep :: "external \<Rightarrow> signing_fn \<Rightarrow> signer_lib \<Rightarrow> (key_ref \<Rightarrow> bytes) \<Rightarrow> ('s, 'e) store_ops \<Rightarrow>
    's key_sys \<Rightarrow> 's key_sys \<Rightarrow> bool"
  for ex sf lib K sops where
  witness_step: "wstep (signing ex sf ((!) (sv_keys (ks_srv Z)))) sops (ks_sys Z) S' \<Longrightarrow>
    w_signer (ws_w S') = w_signer (ws_w (ks_sys Z)) \<Longrightarrow> w_epoch (ws_w S') = w_epoch (ws_w (ks_sys Z)) \<Longrightarrow>
    kstep ex sf lib K sops Z (Z\<lparr>ks_sys := S'\<rparr>)"
| build_key: "length seed = SeedSize \<Longrightarrow> r = length (sv_keys (ks_srv Z)) \<Longrightarrow> sl_newKey lib seed = K r \<Longrightarrow>
    kstep ex sf lib K sops Z
      (Z\<lparr>ks_srv := (ks_srv Z)\<lparr>sv_keys := sv_keys (ks_srv Z) @ [K r]\<rparr>, ks_held := r # ks_held Z\<rparr>)"
| refuse_name: "r \<in> set (ks_held Z) \<Longrightarrow>
    kstep ex sf lib K sops Z
      (Z\<lparr>ks_srv := (ks_srv Z)\<lparr>sv_keys := (sv_keys (ks_srv Z))[r := zero (sv_keys (ks_srv Z) ! r)]\<rparr>,
         ks_held := remove1 r (ks_held Z)\<rparr>)"
| lock_install: "ks_mu Z = Mu_Free \<Longrightarrow> r \<in> set (ks_held Z) \<Longrightarrow>
    kstep ex sf lib K sops Z (Z\<lparr>ks_mu := Mu_Install r, ks_held := remove1 r (ks_held Z)\<rparr>)"
| install: "ks_mu Z = Mu_Install r \<Longrightarrow>
    kstep ex sf lib K sops Z
      (Z\<lparr>ks_sys := (ks_sys Z)\<lparr>ws_w := SetSigner r (ws_w (ks_sys Z))\<rparr>, ks_mu := Mu_Zeroing 0 (Some r)\<rparr>)"
| lock_clear: "ks_mu Z = Mu_Free \<Longrightarrow> kstep ex sf lib K sops Z (Z\<lparr>ks_mu := Mu_Clear\<rparr>)"
| clear: "ks_mu Z = Mu_Clear \<Longrightarrow>
    kstep ex sf lib K sops Z
      (Z\<lparr>ks_sys := (ks_sys Z)\<lparr>ws_w := ClearSigner (ws_w (ks_sys Z))\<rparr>, ks_mu := Mu_Zeroing 0 None\<rparr>)"
| overwrite: "ks_mu Z = Mu_Zeroing i new \<Longrightarrow> sv_priv (ks_srv Z) = Some r \<Longrightarrow> i < length (sv_keys (ks_srv Z) ! r) \<Longrightarrow>
    kstep ex sf lib K sops Z (Z\<lparr>ks_srv := zero_byte r i (ks_srv Z), ks_mu := Mu_Zeroing (i + 1) new\<rparr>)"
| unlock: "ks_mu Z = Mu_Zeroing i new \<Longrightarrow>
    (case sv_priv (ks_srv Z) of None \<Rightarrow> True | Some r \<Rightarrow> length (sv_keys (ks_srv Z) ! r) \<le> i) \<Longrightarrow>
    kstep ex sf lib K sops Z (Z\<lparr>ks_srv := (ks_srv Z)\<lparr>sv_priv := new\<rparr>, ks_mu := Mu_Free\<rparr>)"
| clock: "kstep ex sf lib K sops Z (Z\<lparr>ks_srv := (ks_srv Z)\<lparr>sv_clock := t\<rparr>\<rparr>)"

inductive kreach :: "external \<Rightarrow> signing_fn \<Rightarrow> signer_lib \<Rightarrow> (key_ref \<Rightarrow> bytes) \<Rightarrow> ('s, 'e) store_ops \<Rightarrow>
    's key_sys \<Rightarrow> 's key_sys \<Rightarrow> bool"
  for ex sf lib K sops Z0 where
  init: "kreach ex sf lib K sops Z0 Z0"
| step: "kreach ex sf lib K sops Z0 Z \<Longrightarrow> kstep ex sf lib K sops Z Z' \<Longrightarrow> kreach ex sf lib K sops Z0 Z'"

section \<open>Signing depends on the current key only\<close>

lemma signing_simps [simp]:
  "ex_crypto (signing ex sf k) = ex_crypto ex" "ex_ParseCheckpoint (signing ex sf k) = ex_ParseCheckpoint ex"
  "ex_CheckTree (signing ex sf k) = ex_CheckTree ex" "ex_ParseHash (signing ex sf k) = ex_ParseHash ex"
  "ex_HashString (signing ex sf k) = ex_HashString ex" "ex_Sign (signing ex sf k) r = sf r (k r)"
  by (simp_all add: signing_def)

lemma sign_ok_signing: "signing_fn_ok sf \<Longrightarrow> sign_ok (signing ex sf k)"
  by (auto simp: signing_fn_ok_def sign_ok_def)

lemma consistency_check_signing [simp]: "consistency_check (signing ex sf k) = consistency_check ex"
  by (intro ext) (simp add: consistency_check_def emptyTreeHash_def)

lemma addToPool_signing [simp]: "addToPool (signing ex sf k) sops w req c = addToPool ex sops w req c"
  unfolding addToPool_def consistency_check_signing ..

lemma sign_entries_signing:
  "k sg = k' sg \<Longrightarrow>
   sign_entries (signing ex sf k) sg ep now es h st f = sign_entries (signing ex sf k') sg ep now es h st f"
proof (induction es arbitrary: h st f)
  case (Cons e es)
  then show ?case by (cases e) (simp add: sign_entries.simps Let_def split: option.split)
qed simp

lemma sequencePool_signing:
  assumes "\<And>sg. w_signer w = Some sg \<Longrightarrow> k sg = k' sg"
  shows "sequencePool (signing ex sf k) sops env now t p w = sequencePool (signing ex sf k') sops env now t p w"
    and "committed_batch (signing ex sf k) sops env now p w = committed_batch (signing ex sf k') sops env now p w"
  using assms sign_entries_signing [of k _ k' ex sf]
  by (auto simp: sequencePool_def committed_batch_def pool_batch_def split: option.split)

lemma wstep_signing:
  assumes "wstep (signing ex sf k) sops S S'" "\<And>sg. w_signer (ws_w S) = Some sg \<Longrightarrow> k sg = k' sg"
  shows "wstep (signing ex sf k') sops S S'"
  using assms
proof (induction rule: wstep.induct)
  case (seq_commit S p env now t)
  note same = sequencePool_signing [of "ws_w S" k k', OF seq_commit(2)]
  show ?case using wstep.seq_commit [OF seq_commit(1), of "signing ex sf k'" sops env now t] by (simp add: same)
qed (auto intro: wstep.intros)

section \<open>The invariant\<close>

text \<open>The number of leading bytes of a slice of the given length that are overwritten, when no session holds it.\<close>

fun wiped_by :: "mu_section \<Rightarrow> key_ref option \<Rightarrow> key_ref \<Rightarrow> nat \<Rightarrow> nat" where
  "wiped_by Mu_Free own r n = (if own = Some r then 0 else n)"
| "wiped_by (Mu_Install r') own r n = (if r' = r \<or> own = Some r then 0 else n)"
| "wiped_by Mu_Clear own r n = (if own = Some r then 0 else n)"
| "wiped_by (Mu_Zeroing i new) own r n = (if new = Some r then 0 else if own = Some r then i else n)"

text \<open>The key that the session inside the lock is about to make \<open>s.priv\<close>, and the key that the witness signs with.\<close>

fun mu_key :: "mu_section \<Rightarrow> key_ref option" where
  "mu_key (Mu_Install r) = Some r"
| "mu_key (Mu_Zeroing i new) = new"
| "mu_key Mu_Free = None"
| "mu_key Mu_Clear = None"

fun signs_with :: "mu_section \<Rightarrow> key_ref option \<Rightarrow> key_ref option" where
  "signs_with (Mu_Zeroing i new) own = new"
| "signs_with Mu_Free own = own"
| "signs_with (Mu_Install r) own = own"
| "signs_with Mu_Clear own = own"

text \<open>Owned slices exist and have one owner.\<close>

definition owners_ok :: "nat \<Rightarrow> key_ref list \<Rightarrow> key_ref option \<Rightarrow> key_ref option \<Rightarrow> bool" where
  "owners_ok n held own new \<longleftrightarrow>
     distinct held \<and> (\<forall>r \<in> set held. r < n) \<and>
     (\<forall>r. own = Some r \<longrightarrow> r < n \<and> r \<notin> set held \<and> new \<noteq> Some r) \<and>
     (\<forall>r. new = Some r \<longrightarrow> r < n \<and> r \<notin> set held)"

definition slice_ok :: "bytes \<Rightarrow> nat \<Rightarrow> bytes \<Rightarrow> bool" where
  "slice_ok k i b \<longleftrightarrow> i \<le> length k \<and> b = make_bytes i @ drop i k"

definition contents_ok :: "(key_ref \<Rightarrow> bytes) \<Rightarrow> bytes list \<Rightarrow> key_ref list \<Rightarrow> (key_ref \<Rightarrow> nat \<Rightarrow> nat) \<Rightarrow> bool" where
  "contents_ok K keys held wiped \<longleftrightarrow>
     (\<forall>r < length keys. slice_ok (K r) (if r \<in> set held then 0 else wiped r (length (K r))) (keys ! r))"

definition kinv :: "signer_lib \<Rightarrow> (key_ref \<Rightarrow> bytes) \<Rightarrow> 's key_sys \<Rightarrow> bool" where
  "kinv lib K Z \<longleftrightarrow>
     (let s = ks_srv Z; mu = ks_mu Z
      in owners_ok (length (sv_keys s)) (ks_held Z) (sv_priv s) (mu_key mu) \<and>
         contents_ok K (sv_keys s) (ks_held Z) (wiped_by mu (sv_priv s)) \<and>
         (\<forall>r < length (sv_keys s). \<exists>seed. length seed = SeedSize \<and> K r = sl_newKey lib seed) \<and>
         w_signer (ws_w (ks_sys Z)) = signs_with mu (sv_priv s))"

text \<open>The slice that the witness signs with is intact.\<close>

lemma slice_ok_0 [simp]: "slice_ok k 0 b \<longleftrightarrow> b = k"
  by (auto simp: slice_ok_def make_bytes_def)

lemma slice_ok_all: "slice_ok k (length k) b \<longleftrightarrow> b = make_bytes (length k)"
  by (auto simp: slice_ok_def)

lemma slice_ok_length: "slice_ok k i b \<Longrightarrow> length b = length k"
  by (auto simp: slice_ok_def)

lemma slice_ok_done: "slice_ok k i b \<Longrightarrow> length b \<le> i \<Longrightarrow> i = length k"
  by (simp add: slice_ok_def)

lemma slice_ok_zero: "length b = length k \<Longrightarrow> slice_ok k (length k) (zero b)"
  by (simp add: slice_ok_all zero_def)

lemma slice_ok_overwrite: "slice_ok k i b \<Longrightarrow> i < length b \<Longrightarrow> slice_ok k (Suc i) (b[i := CHR 0x00])"
  by (auto simp: slice_ok_def list_update_append make_bytes_def Cons_nth_drop_Suc [symmetric] replicate_append_same
      simp flip: replicate_Suc)

lemma contents_okI:
  assumes "contents_ok K keys held wiped" "length keys' = length keys"
    "\<And>r. r < length keys \<Longrightarrow> keys' ! r = keys ! r \<and>
       (if r \<in> set held' then 0 else wiped' r (length (K r))) = (if r \<in> set held then 0 else wiped r (length (K r)))"
  shows "contents_ok K keys' held' wiped'"
  using assms by (simp add: contents_ok_def)

lemma contents_ok_length: "contents_ok K keys held wiped \<Longrightarrow> r < length keys \<Longrightarrow> length (keys ! r) = length (K r)"
  using slice_ok_length by (auto simp: contents_ok_def)

lemma owners_ok_build: "owners_ok n held own new \<Longrightarrow> owners_ok (Suc n) (n # held) own new"
  unfolding owners_ok_def by (metis distinct.simps(2) less_SucI less_irrefl lessI set_ConsD)

lemma owners_ok_remove: "owners_ok n held own new \<Longrightarrow> owners_ok n (remove1 r held) own new"
  by (auto simp: owners_ok_def dest: notin_set_remove1)

lemma owners_ok_take: "owners_ok n held own None \<Longrightarrow> r \<in> set held \<Longrightarrow> owners_ok n (remove1 r held) own (Some r)"
  by (auto simp: owners_ok_def)

lemma owners_ok_release: "owners_ok n held own new \<Longrightarrow> owners_ok n held new None"
  by (simp add: owners_ok_def)

lemma owners_ok_forget: "owners_ok n held own new \<Longrightarrow> owners_ok n held own None"
  by (simp add: owners_ok_def)

lemma contents_ok_build:
  assumes "contents_ok K keys held wiped" "r = length keys"
  shows "contents_ok K (keys @ [K r]) (r # held) wiped"
  unfolding contents_ok_def
proof (intro allI impI)
  fix i assume "i < length (keys @ [K r])"
  then consider "i = r" | "i < length keys" "i \<noteq> r" using assms(2) by fastforce
  then show "slice_ok (K i) (if i \<in> set (r # held) then 0 else wiped i (length (K i))) ((keys @ [K r]) ! i)"
    using assms by cases (simp_all add: contents_ok_def nth_append)
qed

lemma contents_ok_update:
  assumes "contents_ok K keys held wiped" "slice_ok (K r) (if r \<in> set held' then 0 else wiped' r (length (K r))) b"
    "\<And>i. i \<noteq> r \<Longrightarrow> (if i \<in> set held' then 0 else wiped' i (length (K i))) = (if i \<in> set held then 0 else wiped i (length (K i)))"
  shows "contents_ok K (keys[r := b]) held' wiped'"
  unfolding contents_ok_def
proof (intro allI impI)
  fix i assume "i < length (keys[r := b])"
  then show "slice_ok (K i) (if i \<in> set held' then 0 else wiped' i (length (K i))) (keys[r := b] ! i)"
    using assms by (cases "i = r") (auto simp: contents_ok_def split del: if_split)
qed

lemma kinvD:
  assumes "kinv lib K Z"
  shows "owners_ok (length (sv_keys (ks_srv Z))) (ks_held Z) (sv_priv (ks_srv Z)) (mu_key (ks_mu Z))"
    "contents_ok K (sv_keys (ks_srv Z)) (ks_held Z) (wiped_by (ks_mu Z) (sv_priv (ks_srv Z)))"
    "\<forall>r < length (sv_keys (ks_srv Z)). \<exists>seed. length seed = SeedSize \<and> K r = sl_newKey lib seed"
    "w_signer (ws_w (ks_sys Z)) = signs_with (ks_mu Z) (sv_priv (ks_srv Z))"
  using assms by (simp_all add: kinv_def Let_def)

lemma signs_with_live:
  "owners_ok n held own (mu_key mu) \<Longrightarrow> signs_with mu own = Some r \<Longrightarrow> r < n \<and> r \<notin> set held \<and> wiped_by mu own r m = 0"
  by (cases mu) (simp_all add: owners_ok_def)

lemma signing_key_intact:
  assumes "kinv lib K Z" "w_signer (ws_w (ks_sys Z)) = Some r"
  shows "r < length (sv_keys (ks_srv Z))" "sv_keys (ks_srv Z) ! r = K r"
proof -
  note live = signs_with_live [OF kinvD(1) [OF assms(1)], of r]
  then show "r < length (sv_keys (ks_srv Z))" using kinvD(4) [OF assms(1)] assms(2) by simp
  with live [of "length (K r)"] show "sv_keys (ks_srv Z) ! r = K r"
    using kinvD(2,4) [OF assms(1)] assms(2) by (auto simp: contents_ok_def)
qed

lemma kinv_init:
  "sv_priv s = None \<Longrightarrow> sv_keys s = [] \<Longrightarrow> w_signer (ws_w S) = None \<Longrightarrow> kinv lib K (kinit S s)"
  by (simp add: kinv_def owners_ok_def contents_ok_def kinit_def)

lemma kinv_step:
  assumes "kstep ex sf lib K sops Z Z'" "kinv lib K Z"
  shows "kinv lib K Z'"
  using assms
proof (induction rule: kstep.induct)
  case (witness_step Z S')
  then show ?case by (simp add: kinv_def Let_def)
next
  case (build_key seed r Z)
  note k = kinvD [OF build_key(4)]
  have "\<exists>seed. length seed = SeedSize \<and> K r = sl_newKey lib seed" using build_key(1,3) by metis
  with k(3,4) owners_ok_build [OF k(1)] contents_ok_build [OF k(2) build_key(2)] build_key(2) show ?case
    by (simp add: kinv_def less_Suc_eq Let_def)
next
  case (refuse_name r Z)
  note k = kinvD [OF refuse_name(2)]
  have dead: "wiped_by (ks_mu Z) (sv_priv (ks_srv Z)) r n = n" for n
    using k(1) refuse_name(1) by (cases "ks_mu Z") (auto simp: owners_ok_def)
  have h: "distinct (ks_held Z)" "r < length (sv_keys (ks_srv Z))" using k(1) refuse_name(1) by (auto simp: owners_ok_def)
  from slice_ok_zero [OF contents_ok_length [OF k(2) h(2)]] h(1) dead
  have "contents_ok K ((sv_keys (ks_srv Z))[r := zero (sv_keys (ks_srv Z) ! r)]) (remove1 r (ks_held Z))
      (wiped_by (ks_mu Z) (sv_priv (ks_srv Z)))"
    by (intro contents_ok_update [OF k(2)]) simp_all
  with k(3,4) owners_ok_remove [OF k(1)] show ?case by (simp add: kinv_def Let_def)
next
  case (lock_install Z r)
  note k = kinvD [OF lock_install(3), unfolded lock_install(1)]
  have "contents_ok K (sv_keys (ks_srv Z)) (remove1 r (ks_held Z)) (wiped_by (Mu_Install r) (sv_priv (ks_srv Z)))"
    using k(1) lock_install(2) by (intro contents_okI [OF k(2)]) (auto simp: owners_ok_def)
  with k(3,4) owners_ok_take [OF k(1) [simplified] lock_install(2)] show ?case by (simp add: kinv_def Let_def)
next
  case (install Z r)
  note k = kinvD [OF install(2), unfolded install(1)]
  have "contents_ok K (sv_keys (ks_srv Z)) (ks_held Z) (wiped_by (Mu_Zeroing 0 (Some r)) (sv_priv (ks_srv Z)))"
    by (intro contents_okI [OF k(2)]) simp_all
  with k(1,3) show ?case by (simp add: kinv_def SetSigner_def Let_def)
next
  case (lock_clear Z)
  note k = kinvD [OF lock_clear(2), unfolded lock_clear(1)]
  have "contents_ok K (sv_keys (ks_srv Z)) (ks_held Z) (wiped_by Mu_Clear (sv_priv (ks_srv Z)))"
    by (intro contents_okI [OF k(2)]) simp_all
  with k(1,3,4) show ?case by (simp add: kinv_def Let_def)
next
  case (clear Z)
  note k = kinvD [OF clear(2), unfolded clear(1)]
  have "contents_ok K (sv_keys (ks_srv Z)) (ks_held Z) (wiped_by (Mu_Zeroing 0 None) (sv_priv (ks_srv Z)))"
    by (intro contents_okI [OF k(2)]) simp_all
  with k(1,3) show ?case by (simp add: kinv_def ClearSigner_def Let_def)
next
  case (overwrite Z i new r)
  note k = kinvD [OF overwrite(4), unfolded overwrite(1,2)]
  have h: "r < length (sv_keys (ks_srv Z))" "r \<notin> set (ks_held Z)" "new \<noteq> Some r" using k(1) by (auto simp: owners_ok_def)
  then have "slice_ok (K r) i (sv_keys (ks_srv Z) ! r)" using k(2) by (auto simp: contents_ok_def)
  from slice_ok_overwrite [OF this overwrite(3)] h
  have "contents_ok K ((sv_keys (ks_srv Z))[r := (sv_keys (ks_srv Z) ! r)[i := CHR 0x00]]) (ks_held Z)
      (wiped_by (Mu_Zeroing (Suc i) new) (Some r))"
    by (intro contents_ok_update [OF k(2)]) simp_all
  with k(1,3,4) overwrite(2) show ?case by (simp add: kinv_def zero_byte_def Let_def)
next
  case (unlock Z i new)
  note k = kinvD [OF unlock(3), unfolded unlock(1)]
  have "i = length (K r)" if "sv_priv (ks_srv Z) = Some r" for r
  proof -
    have h: "r < length (sv_keys (ks_srv Z))" "r \<notin> set (ks_held Z)" "new \<noteq> Some r" using k(1) that by (auto simp: owners_ok_def)
    then have "slice_ok (K r) i (sv_keys (ks_srv Z) ! r)" using k(2) that by (auto simp: contents_ok_def)
    then show ?thesis by (rule slice_ok_done) (use unlock(2) that in simp)
  qed
  then have "contents_ok K (sv_keys (ks_srv Z)) (ks_held Z) (wiped_by Mu_Free new)"
    by (intro contents_okI [OF k(2)]) auto
  with k(3,4) owners_ok_release [OF k(1) [simplified]] show ?case by (simp add: kinv_def Let_def)
next
  case (clock Z t)
  then show ?case by (simp add: kinv_def Let_def)
qed

lemma kinv_reach: "kreach ex sf lib K sops Z0 Z \<Longrightarrow> kinv lib K Z0 \<Longrightarrow> kinv lib K Z"
  by (induction rule: kreach.induct) (auto intro: kinv_step)

section \<open>Refinement\<close>

text \<open>Seen from the witness, a step is a step of \<open>wstep\<close> with constant keys, or nothing.\<close>

lemma kstep_wstep:
  assumes "kstep ex sf lib K sops Z Z'" "kinv lib K Z"
  shows "ks_sys Z' = ks_sys Z \<or> wstep (signing ex sf K) sops (ks_sys Z) (ks_sys Z')"
  using assms
proof (induction rule: kstep.induct)
  case (witness_step Z S')
  then show ?case using wstep_signing [OF witness_step(1), of K] signing_key_intact(2) [OF witness_step(4)] by simp
qed (simp_all add: wstep.set_signer wstep.clear_signer)

lemma kreach_wreach:
  assumes "kreach ex sf lib K sops Z0 Z" "kinv lib K Z0"
  shows "wreach (signing ex sf K) sops (ks_sys Z0) (ks_sys Z)"
  using assms(1)
proof (induction rule: kreach.induct)
  case init
  show ?case by (rule wreach.init)
next
  case (step Z Z')
  from kstep_wstep [OF step(2) kinv_reach [OF step(1) assms(2)]] step(3) show ?case by (metis wreach.step)
qed

section \<open>Sessions one after another\<close>

lemma kreach_trans: "kreach ex sf lib K sops Z1 Z2 \<Longrightarrow> kreach ex sf lib K sops Z0 Z1 \<Longrightarrow> kreach ex sf lib K sops Z0 Z2"
  by (induction rule: kreach.induct) (auto intro: kreach.step)

lemma kreach_one: "kstep ex sf lib K sops Z Z' \<Longrightarrow> kreach ex sf lib K sops Z Z'"
  by (rule kreach.step [OF kreach.init])

text \<open>A stretch of serving without key changes.\<close>

definition quiet_step :: "external \<Rightarrow> ('s, 'e) store_ops \<Rightarrow> 's wsys \<Rightarrow> 's wsys \<Rightarrow> bool" where
  "quiet_step ex sops S S' \<longleftrightarrow>
     wstep ex sops S S' \<and> w_signer (ws_w S') = w_signer (ws_w S) \<and> w_epoch (ws_w S') = w_epoch (ws_w S)"

lemma quiet_run:
  assumes "(quiet_step (signing ex sf ((!) (sv_keys (ks_srv Z)))) sops)\<^sup>*\<^sup>* (ks_sys Z) T"
  shows "kreach ex sf lib K sops Z (Z\<lparr>ks_sys := T\<rparr>)"
  using assms
proof (induction rule: rtranclp_induct)
  case base
  show ?case by (simp add: kreach.init)
next
  case (step T T')
  then have "kstep ex sf lib K sops (Z\<lparr>ks_sys := T\<rparr>) (Z\<lparr>ks_sys := T, ks_sys := T'\<rparr>)"
    by (intro kstep.witness_step) (simp_all add: quiet_step_def)
  with step.IH show ?case by (auto intro: kreach.step)
qed

text \<open>Only the contents of slices that were created matter.\<close>

definition agree_below :: "nat \<Rightarrow> (key_ref \<Rightarrow> bytes) \<Rightarrow> (key_ref \<Rightarrow> bytes) \<Rightarrow> bool" where
  "agree_below n K K' \<longleftrightarrow> (\<forall>r < n. K' r = K r)"

lemma kstep_length: "kstep ex sf lib K sops Z Z' \<Longrightarrow> length (sv_keys (ks_srv Z)) \<le> length (sv_keys (ks_srv Z'))"
  by (induction rule: kstep.induct) (simp_all add: zero_byte_def)

lemma kstep_cong:
  assumes "kstep ex sf lib K sops Z Z'" "agree_below (length (sv_keys (ks_srv Z'))) K K'"
  shows "kstep ex sf lib K' sops Z Z'"
  using assms
proof (induction rule: kstep.induct)
  case (build_key seed r Z)
  then have "K' r = K r" by (simp add: agree_below_def)
  then show ?case using kstep.build_key [OF build_key(1,2), of lib K'] build_key(3) by simp
next
  case (overwrite Z i new r)
  show ?case by (rule kstep.overwrite [OF overwrite(1-3)])
qed (auto intro: kstep.intros)

lemma kreach_cong:
  assumes "kreach ex sf lib K sops Z0 Z" "agree_below (length (sv_keys (ks_srv Z))) K K'"
  shows "kreach ex sf lib K' sops Z0 Z"
  using assms
proof (induction rule: kreach.induct)
  case init
  show ?case by (rule kreach.init)
next
  case (step Z Z')
  from kstep_length [OF step(2)] step(4) have "agree_below (length (sv_keys (ks_srv Z))) K K'"
    by (simp add: agree_below_def)
  with step.IH kstep_cong [OF step(2,4)] show ?case by (blast intro: kreach.step)
qed

text \<open>The loop of \<open>zero\<close> inside the lock, then \<open>s.priv\<close> is replaced and the lock released.\<close>

lemma zeroing_run:
  assumes "ks_mu Z = Mu_Zeroing 0 new" "sv_priv (ks_srv Z) = Some r" "r < length (sv_keys (ks_srv Z))"
    "i \<le> length (sv_keys (ks_srv Z) ! r)"
  shows "kreach ex sf lib K sops Z
    (Z\<lparr>ks_srv := (ks_srv Z)\<lparr>sv_keys := (sv_keys (ks_srv Z))[r := make_bytes i @ drop i (sv_keys (ks_srv Z) ! r)]\<rparr>,
       ks_mu := Mu_Zeroing i new\<rparr>)"
  using assms(4)
proof (induction i)
  case 0
  have "Z\<lparr>ks_srv := ks_srv Z, ks_mu := Mu_Zeroing 0 new\<rparr> = Z" using assms(1) by simp
  then show ?case by (simp add: make_bytes_def kreach.init)
next
  case (Suc i)
  let ?k = "sv_keys (ks_srv Z) ! r"
  let ?Z = "Z\<lparr>ks_srv := (ks_srv Z)\<lparr>sv_keys := (sv_keys (ks_srv Z))[r := make_bytes i @ drop i ?k]\<rparr>, ks_mu := Mu_Zeroing i new\<rparr>"
  have "slice_ok ?k i (make_bytes i @ drop i ?k)" using Suc(2) by (simp add: slice_ok_def)
  from slice_ok_overwrite [OF this] Suc(2)
  have "(make_bytes i @ drop i ?k)[i := CHR 0x00] = make_bytes (Suc i) @ drop (Suc i) ?k" by (simp add: slice_ok_def)
  then have "kstep ex sf lib K sops ?Z (Z\<lparr>ks_srv := (ks_srv Z)\<lparr>sv_keys := (sv_keys (ks_srv Z))
      [r := make_bytes (Suc i) @ drop (Suc i) ?k]\<rparr>, ks_mu := Mu_Zeroing (Suc i) new\<rparr>)"
    using kstep.overwrite [of ?Z i new r ex sf lib K sops] assms(2,3) Suc(2) by (simp add: zero_byte_def)
  with Suc show ?case by (auto intro: kreach.step)
qed

lemma unlock_run:
  assumes "ks_mu Z = Mu_Zeroing 0 new" "\<And>r. sv_priv (ks_srv Z) = Some r \<Longrightarrow> r < length (sv_keys (ks_srv Z))"
  shows "kreach ex sf lib K sops Z (Z\<lparr>ks_srv := (zero_priv (ks_srv Z))\<lparr>sv_priv := new\<rparr>, ks_mu := Mu_Free\<rparr>)"
proof (cases "sv_priv (ks_srv Z)")
  case None
  then show ?thesis using kstep.unlock [OF assms(1), of ex sf lib K sops] by (auto simp: zero_priv_def intro: kreach_one)
next
  case (Some r)
  let ?k = "sv_keys (ks_srv Z) ! r"
  let ?Z = "Z\<lparr>ks_srv := zero_priv (ks_srv Z), ks_mu := Mu_Zeroing (length ?k) new\<rparr>"
  have r: "r < length (sv_keys (ks_srv Z))" by (rule assms(2) [OF Some])
  have "kreach ex sf lib K sops Z ?Z"
    using zeroing_run [OF assms(1) Some r, of "length ?k"] Some by (simp add: zero_priv_def zero_def)
  moreover have "kstep ex sf lib K sops ?Z (?Z\<lparr>ks_srv := (ks_srv ?Z)\<lparr>sv_priv := new\<rparr>, ks_mu := Mu_Free\<rparr>)"
    using Some r by (intro kstep.unlock [of _ "length ?k"]) (simp_all add: zero_priv_def)
  ultimately show ?thesis by (auto intro: kreach.step)
qed


text \<open>A whole session without interference: the lock is free before and after it.\<close>

abbreviation ksession :: "'s wsys \<Rightarrow> 's witness \<Rightarrow> server \<Rightarrow> 's key_sys" where
  "ksession S w s \<equiv> kinit (S\<lparr>ws_w := w\<rparr>) s"

definition priv_ok :: "server \<Rightarrow> bool" where
  "priv_ok s \<longleftrightarrow> (\<forall>r. sv_priv s = Some r \<longrightarrow> r < length (sv_keys s))"

lemma deprovision_run:
  assumes "priv_ok s" "deprovision s w = (s', w')"
  shows "kreach ex sf lib K sops (ksession S w s) (ksession S w' s')"
proof -
  let ?c = "(ksession S w s)\<lparr>ks_mu := Mu_Clear\<rparr>" and ?z = "(ksession S (ClearSigner w) s)\<lparr>ks_mu := Mu_Zeroing 0 None\<rparr>"
  have "kstep ex sf lib K sops (ksession S w s) ?c" by (rule kstep.lock_clear) (simp add: kinit_def)
  moreover have "kstep ex sf lib K sops ?c ?z" using kstep.clear [of ?c ex sf lib K sops] by (simp add: kinit_def)
  moreover have "kreach ex sf lib K sops ?z (?z\<lparr>ks_srv := (zero_priv (ks_srv ?z))\<lparr>sv_priv := None\<rparr>, ks_mu := Mu_Free\<rparr>)"
    using assms(1) by (intro unlock_run) (simp_all add: kinit_def priv_ok_def)
  moreover have "?z\<lparr>ks_srv := (zero_priv (ks_srv ?z))\<lparr>sv_priv := None\<rparr>, ks_mu := Mu_Free\<rparr> = ksession S w' s'"
    using assms(2) by (simp add: kinit_def deprovision_def)
  ultimately show ?thesis by (metis kreach_one kreach_trans)
qed

lemma provision_installs_run:
  assumes "priv_ok s" "length seed = SeedSize" "k = sl_newKey lib seed" "n = length (sv_keys s)" "K n = k"
    "s' = (zero_priv (s\<lparr>sv_keys := sv_keys s @ [k]\<rparr>))\<lparr>sv_priv := Some n\<rparr>"
  shows "kreach ex sf lib K sops (ksession S w s) (ksession S (SetSigner n w) s')"
proof -
  let ?s = "s\<lparr>sv_keys := sv_keys s @ [k]\<rparr>"
  let ?b = "(ksession S w ?s)\<lparr>ks_held := [n]\<rparr>" and ?l = "(ksession S w ?s)\<lparr>ks_mu := Mu_Install n\<rparr>"
    and ?z = "(ksession S (SetSigner n w) ?s)\<lparr>ks_mu := Mu_Zeroing 0 (Some n)\<rparr>"
  have "kstep ex sf lib K sops (ksession S w s) ?b"
    using kstep.build_key [of seed n "ksession S w s" lib K ex sf sops] assms(2-5) by (simp add: kinit_def)
  moreover have "kstep ex sf lib K sops ?b ?l" using kstep.lock_install [of ?b n ex sf lib K sops] by (simp add: kinit_def)
  moreover have "kstep ex sf lib K sops ?l ?z" using kstep.install [of ?l n ex sf lib K sops] by (simp add: kinit_def)
  moreover have "kreach ex sf lib K sops ?z (?z\<lparr>ks_srv := (zero_priv (ks_srv ?z))\<lparr>sv_priv := Some n\<rparr>, ks_mu := Mu_Free\<rparr>)"
    using assms(1) by (intro unlock_run) (auto simp: kinit_def priv_ok_def)
  moreover have "?z\<lparr>ks_srv := (zero_priv (ks_srv ?z))\<lparr>sv_priv := Some n\<rparr>, ks_mu := Mu_Free\<rparr> = ksession S (SetSigner n w) s'"
    using assms(6) by (simp add: kinit_def)
  ultimately show ?thesis by (metis kreach_one kreach_trans)
qed

lemma provision_refused_run:
  assumes "length seed = SeedSize" "k = sl_newKey lib seed" "n = length (sv_keys s)" "K n = k"
  shows "kreach ex sf lib K sops (ksession S w s) (ksession S w (s\<lparr>sv_keys := sv_keys s @ [zero k]\<rparr>))"
proof -
  let ?s = "s\<lparr>sv_keys := sv_keys s @ [k]\<rparr>"
  let ?b = "(ksession S w ?s)\<lparr>ks_held := [n]\<rparr>"
  have "kstep ex sf lib K sops (ksession S w s) ?b"
    using kstep.build_key [of seed n "ksession S w s" lib K ex sf sops] assms by (simp add: kinit_def)
  moreover have "kstep ex sf lib K sops ?b (ksession S w (s\<lparr>sv_keys := sv_keys s @ [zero k]\<rparr>))"
    using kstep.refuse_name [of n ?b ex sf lib K sops] assms(3) by (simp add: kinit_def)
  ultimately show ?thesis by (metis kreach_one kreach_trans)
qed

lemma provision_run:
  assumes "priv_ok s" "provision lib stdin name s w = (r, s', w')"
  shows "\<exists>k. \<forall>K. K (length (sv_keys s)) = k \<longrightarrow> kreach ex sf lib K sops (ksession S w s) (ksession S w' s')"
proof (cases "s' = s \<and> w' = w")
  case True
  then show ?thesis by (simp add: kreach.init)
next
  case False
  with assms(2) obtain hexSeed seed where h: "length hexSeed = 2 * SeedSize" "hex_decode hexSeed = Some seed"
    and out: "(if sl_nameOk lib name
       then s' = (zero_priv (s\<lparr>sv_keys := sv_keys s @ [sl_newKey lib seed]\<rparr>))\<lparr>sv_priv := Some (length (sv_keys s))\<rparr>
          \<and> w' = SetSigner (length (sv_keys s)) w
       else s' = s\<lparr>sv_keys := sv_keys s @ [zero (sl_newKey lib seed)]\<rparr> \<and> w' = w)"
    by (auto simp: provision_def Let_def split: if_splits option.splits)
  have "length seed = SeedSize" using length_hex_decode [OF h(2)] h(1) by simp
  with out provision_installs_run [OF assms(1) _ refl refl] provision_refused_run [of seed _ lib, OF _ refl refl] show ?thesis
    by (cases "sl_nameOk lib name") (auto intro!: exI [of _ "sl_newKey lib seed"])
qed

lemma server_exec_run:
  assumes "server_exec lib vs stdin command s w = (r, s', w')" "priv_ok s"
  shows "\<exists>k. \<forall>K. K (length (sv_keys s)) = k \<longrightarrow> kreach ex sf lib K sops (ksession S w s) (ksession S w' s')"
  using assms(1)
proof (cases rule: server_exec_cases)
  case same
  then show ?thesis by (simp add: kreach.init)
next
  case (clock t)
  have "kstep ex sf lib K sops (ksession S w s) (ksession S w (s\<lparr>sv_clock := t\<rparr>))" for K
    using kstep.clock [of ex sf lib K sops "ksession S w s" t] by (simp add: kinit_def)
  with clock show ?thesis by (auto intro: kreach_one)
next
  case (install name)
  then show ?thesis by (rule provision_run [OF assms(2)])
next
  case destroy
  then show ?thesis using deprovision_run [OF assms(2)] by blast
qed

lemma handleSession_run:
  "handleSession lib vs stdin reqs se s w = (se', s', w') \<Longrightarrow> priv_ok s \<Longrightarrow>
   \<exists>k. \<forall>K. K (length (sv_keys s)) = k \<longrightarrow> kreach ex sf lib K sops (ksession S w s) (ksession S w' s')"
proof (induction lib vs stdin reqs se s w rule: handleSession.induct)
  case (4 lib vs stdin command reqs se s w)
  then obtain r where "server_exec lib vs stdin command s w = (r, s', w')" by (auto split: prod.splits)
  then show ?case by (rule server_exec_run [OF _ 4(2)])
qed (auto intro: kreach.init)

lemma key_inv_priv_ok: "key_inv lib s w \<Longrightarrow> priv_ok s"
  by (simp add: key_inv_def priv_ok_def)

lemma kreach_length: "kreach ex sf lib K sops Z0 Z \<Longrightarrow> length (sv_keys (ks_srv Z0)) \<le> length (sv_keys (ks_srv Z))"
  by (induction rule: kreach.induct) (auto dest: kstep_length)

text \<open>So every sequential execution of the server is an execution of the interleaved system.\<close>

lemma run_jobs_run:
  "run_jobs lib vs jobs s w = (s', w') \<Longrightarrow> key_inv lib s w \<Longrightarrow>
   \<exists>K'. agree_below (length (sv_keys s)) K K' \<and> kreach ex sf lib K' sops (ksession S w s) (ksession S w' s')"
proof (induction lib vs jobs s w arbitrary: K rule: run_jobs.induct)
  case (1 lib vs s w)
  then show ?case by (auto simp: agree_below_def intro: kreach.init)
next
  case (2 lib vs stdin reqs jobs s w)
  obtain se s1 w1 where h: "handleSession lib vs stdin reqs new_session s w = (se, s1, w1)" by (metis prod_cases3)
  let ?n = "length (sv_keys s)"
  obtain k where k: "\<And>K. K ?n = k \<Longrightarrow> kreach ex sf lib K sops (ksession S w s) (ksession S w1 s1)"
    using handleSession_run [OF h key_inv_priv_ok [OF 2(3)]] by blast
  let ?K1 = "K(?n := k)"
  have inv: "key_inv lib s1 w1" using key_inv_session [OF h 2(3)] .
  from 2(1) [OF h [symmetric] refl _ inv] 2(2) h obtain K2 where
    K2: "agree_below (length (sv_keys s1)) ?K1 K2" "kreach ex sf lib K2 sops (ksession S w1 s1) (ksession S w' s')"
    by fastforce
  have first: "kreach ex sf lib ?K1 sops (ksession S w s) (ksession S w1 s1)" by (rule k) simp
  have len: "?n \<le> length (sv_keys s1)" using kreach_length [OF first] by (simp add: kinit_def)
  have "kreach ex sf lib K2 sops (ksession S w s) (ksession S w1 s1)"
    by (rule kreach_cong [OF first]) (use K2(1) in \<open>simp add: kinit_def\<close>)
  moreover have "agree_below ?n K K2" using K2(1) len by (auto simp: agree_below_def)
  ultimately show ?case using kreach_trans [OF K2(2)] by blast
qed

section \<open>Properties\<close>

text \<open>
  C33: The key that signs is alive. Provisioning and deprovisioning sessions and the witness interleave at every lock boundary
  and between the bytes that \<open>zero\<close> overwrites: still the witness behaves as with constant keys, the slice it signs with always
  holds the complete key derived from an uploaded seed, and whenever no session is under way the witness signs with the key the
  server owns and every other key slice is overwritten with zeros.
\<close>

theorem signing_key_is_live:
  assumes "NewServer lib cfg now = Inr s" "w_signer (ws_w S) = None" "kreach ex sf lib K sops (kinit S s) Z"
  shows "wreach (signing ex sf K) sops S (ks_sys Z)
    \<and> (\<forall>r. w_signer (ws_w (ks_sys Z)) = Some r \<longrightarrow> sv_keys (ks_srv Z) ! r = K r
         \<and> (\<exists>seed. length seed = SeedSize \<and> K r = sl_newKey lib seed))
    \<and> (ks_mu Z = Mu_Free \<and> ks_held Z = [] \<longrightarrow> w_signer (ws_w (ks_sys Z)) = sv_priv (ks_srv Z)
         \<and> (\<forall>r < length (sv_keys (ks_srv Z)). sv_priv (ks_srv Z) \<noteq> Some r \<longrightarrow> sv_keys (ks_srv Z) ! r = make_bytes (length (K r))))"
proof -
  have "kinv lib K (kinit S s)"
    using assms(1,2) by (intro kinv_init) (auto simp: NewServer_def Let_def split: if_splits option.splits)
  note inv = kinv_reach [OF assms(3) this] and run = kreach_wreach [OF assms(3) this]
  have "sv_keys (ks_srv Z) ! r = make_bytes (length (K r))"
    if "ks_mu Z = Mu_Free" "ks_held Z = []" "r < length (sv_keys (ks_srv Z))" "sv_priv (ks_srv Z) \<noteq> Some r" for r
    using kinvD(2) [OF inv] that by (auto simp: contents_ok_def slice_ok_all)
  with run signing_key_intact [OF inv] kinvD(3,4) [OF inv] show ?thesis by (auto simp: kinit_def)
qed

theorem signing_key_is_live_witness:
  "\<forall>ex sf. \<exists>Z. kreach ex sf example_lib (\<lambda>_. make_bytes 64) mem_store_ops (kinit (winit NewMemStore) example_server) Z
    \<and> wreach (signing ex sf (\<lambda>_. make_bytes 64)) mem_store_ops (winit NewMemStore) (ks_sys Z)
    \<and> w_signer (ws_w (ks_sys Z)) = Some 0 \<and> sv_keys (ks_srv Z) ! 0 = make_bytes 64"
  (is "\<forall>ex sf. \<exists>Z. ?P ex sf Z")
proof (intro allI)
  fix ex sf
  let ?S = "winit NewMemStore"
  let ?s' = "(zero_priv (example_server\<lparr>sv_keys := sv_keys example_server @ [make_bytes 64]\<rparr>))\<lparr>sv_priv := Some 0\<rparr>"
  have "length (make_bytes 32) = SeedSize" "priv_ok example_server" "make_bytes 64 = sl_newKey example_lib (make_bytes 32)"
    by (simp_all add: SeedSize_def priv_ok_def example_server_def example_lib_def make_bytes_def replicate_add [symmetric])
  then have "kreach ex sf example_lib (\<lambda>_. make_bytes 64) mem_store_ops (ksession ?S (ws_w ?S) example_server)
      (ksession ?S (SetSigner 0 (ws_w ?S)) ?s')"
    by (intro provision_installs_run) (simp_all add: example_server_def)
  then have run: "kreach ex sf example_lib (\<lambda>_. make_bytes 64) mem_store_ops (kinit ?S example_server)
      (ksession ?S (SetSigner 0 (ws_w ?S)) ?s')" by simp
  have "NewServer example_lib example_config 0 = Inr example_server"
    by (simp add: NewServer_def example_lib_def example_config_def example_server_def SeedSize_def)
  from signing_key_is_live [OF this _ run] run show "\<exists>Z. ?P ex sf Z"
    by (intro exI [of _ "ksession ?S (SetSigner 0 (ws_w ?S)) ?s'"]) (simp add: kinit_def winit_def New_def SetSigner_def)
qed

end
