(* ===== verification/Operator_Run.thy ===== *)
theory Operator_Run
  imports Host_Theorems Key_Sessions
begin

text \<open>
  The two host commands of an operator in sequence: \<open>vitrum provision\<close> (\<^verbatim>\<open>cmd/vitrum/provision.go\<close>) uploads a seed to a
  device, then \<open>vitrum feed\<close> (\<^verbatim>\<open>cmd/vitrum/feed.go\<close>) submits a checkpoint to the witness of that device and verifies the
  cosignature with the verifier key that the first command printed. The witness signs with the contents of the device's
  key slices, so the network to it depends on them.
\<close>

lemma SetSigner_ready: "\<not> w_Halted sops w \<Longrightarrow> idle w \<Longrightarrow> ready sops r (SetSigner r w)"
  by (simp add: ready_def SetSigner_def w_Halted_def idle_def)

lemma SetSigner_latest [simp]:
  "latest sops (SetSigner r w) = latest sops w" "latest_hash sops (SetSigner r w) = latest_hash sops w"
  "w_store (SetSigner r w) = w_store w"
  by (simp_all add: fun_eq_iff SetSigner_def latest_def latest_hash_def)

lemma EncodeAddCheckpoint_signing [simp]: "EncodeAddCheckpoint (signing ex sf k) = EncodeAddCheckpoint ex"
  by (simp add: fun_eq_iff EncodeAddCheckpoint_def)

lemma hash_codec_signing [simp]: "hash_codec_ok (signing ex sf k) = hash_codec_ok ex"
  by (simp add: hash_codec_ok_def)

section \<open>Properties\<close>

text \<open>
  C27: From the seed to a cosigned checkpoint. An operator provisions an honest pinned device whose witness runs and is idle, then
  feeds a log whose checkpoint extends what the witness has, verifying with the key that the first command reported: both
  commands succeed, and the device has committed the checkpoint, signed with the key of the uploaded seed.
\<close>

theorem provisioned_device_is_fed:
  fixes n :: "'s device" and sops :: "('s, 'e) store_ops"
  assumes "texts_ok lib vs sl" "fs_faults fs = []" "map_of (fs_files fs) (pf_seed pfl) = Some seed" "length seed = SeedSize"
    "sl_nameOk lib (pf_name pfl)" "pinned sl (sf_hostKey (pf_ssh pfl)) (HostPublicKey (dn_server n)) fs"
    "key_inv lib (dn_server n) (dn_witness n)"
    "pf_settime pfl" "cfg_SetTime (sv_cfg (dn_server n)) = Some g" "0 \<le> dn_host_clock n" "dn_host_clock n < 2 ^ 63"
    "\<bar>g (dn_host_clock n div time_Second) div time_Second * time_Second - dn_host_clock n\<bar> \<le> clockTolerance"
    "\<And>b. concat (dl_chunks dl b) = b" "dl_delay dl ''status'' \<noteq> None" "dl_delay dl (''provision '' @ pf_name pfl) \<noteq> None"
    and witness: "\<not> w_Halted sops (dn_witness n)" "idle (dn_witness n)"
    and key: "key = sl_verifier lib (pf_name pfl) (sl_newKey lib seed)" "ff_witnessKey fl = key" "nt_NewCosigVerifier nlib key = Some vname"
    and log: "resolveLog logs (ff_logName fl) (ff_log fl) (ff_origin fl) (ff_logKey fl) = Inr logCfg"
      "\<And>keys w. log_serves ex nlib (net keys) logCfg cp cpNote ctext w"
    and serves: "\<And>keys. witness_behind (signing ex sf ((!) keys)) sops tk (net keys) (newWitnessClient (ff_witness fl))" "hash_codec_ok ex"
    and update: "honest_update ex cp (latest sops (dn_witness n) (cp_Origin cp)) (latest_hash sops (dn_witness n) (cp_Origin cp)) pf"
      "\<And>keys w. 0 < latest sops (dn_witness n) (cp_Origin cp) \<Longrightarrow> latest sops (dn_witness n) (cp_Origin cp) < cp_N cp \<Longrightarrow>
         hn_ProveTree (net keys) (fl_MonitoringURL logCfg) cp (latest sops (dn_witness n) (cp_Origin cp)) w = (Some pf, w)"
    and fits: "length (EncodeAddCheckpoint ex 0 [] cpNote) \<le> MaxRequestSize"
      "length (EncodeAddCheckpoint ex (latest sops (dn_witness n) (cp_Origin cp)) pf cpNote) \<le> MaxRequestSize"
    and signs: "sf (length (sv_keys (dn_server n))) (sl_newKey lib seed) (tk_now tk (cp_Origin cp)) ctext = Some snote"
      "length snote \<le> maxWitnessResponse"
    and verifies: "nt_OpenCosig nlib key (cpNote @ drop (length ctext + 1) snote) = Some [(vname, sig)]" "nt_Timestamp nlib sig = Some ts"
    and commits: "st_PutBatch sops (tk_env tk) (w_store (dn_witness n))
      [(cp_Origin cp, \<lparr>ls_Size = cp_N cp, ls_Hash = cp_Hash cp, ls_Note = snote\<rparr>)] = (None, st')"
  shows "\<exists>n' w'. cmdProvision lib sl (device_net lib vs dl) pfl (n, fs) = (Inr key, n', fs)
    \<and> cmdFeed (signing ex sf ((!) (sv_keys (dn_server n')))) nlib (net (sv_keys (dn_server n'))) logs fl (dn_witness n') =
        (Inr \<lparr>fo_Origin = cp_Origin cp, fo_Size = cp_N cp, fo_Name = vname, fo_Time = ts\<rparr>, w')
    \<and> w_store w' = st'"
proof -
  obtain n' r where n': "cmdProvision lib sl (device_net lib vs dl) pfl (n, fs) = (Inr key, n', fs)"
    and r: "r = length (sv_keys (dn_server n))" "dn_witness n' = SetSigner r (dn_witness n)"
      "sv_keys (dn_server n') ! r = sl_newKey lib seed"
    using cmdProvision_device [OF assms(1-15)] unfolding key(1) by blast
  let ?ex = "signing ex sf ((!) (sv_keys (dn_server n')))"
  have cosigned: "verifyCosignature nlib key vname cpNote (drop (length ctext + 1) snote) = Inr ts"
    using verifies by (simp add: verifyCosignature_def)
  have "\<exists>w'. cmdFeed ?ex nlib (net (sv_keys (dn_server n'))) logs fl (dn_witness n') =
        (Inr \<lparr>fo_Origin = cp_Origin cp, fo_Size = cp_N cp, fo_Name = vname, fo_Time = ts\<rparr>, w') \<and> w_store w' = st'"
  proof (rule feed_passes [OF log(1) _ _ _ serves(1), where sg = r and pf = pf and snote = snote])
    show "ff_witnessKey fl \<noteq> []" using assms(1,5) key(1,2) by (auto simp: texts_ok_def)
    show "log_serves ?ex nlib (net (sv_keys (dn_server n'))) logCfg cp cpNote ctext (dn_witness n')"
      using log(2) by (simp add: log_serves_def)
    show "honest_update ?ex cp (latest sops (dn_witness n') (cp_Origin cp)) (latest_hash sops (dn_witness n') (cp_Origin cp)) pf"
      using update(1) by (simp add: honest_update_def r(2) emptyTreeHash_def)
  qed (use key fits signs cosigned commits serves(2) update(2) SetSigner_ready [OF witness] r in simp_all)
  with n' show ?thesis by blast
qed

text \<open>The example device, provisioned for the concrete world of the host commands; its verifier key is the one the feed is told.\<close>

definition toy_signer_lib :: signer_lib where
  "toy_signer_lib = example_lib\<lparr>sl_verifier := \<lambda>_ _. ''w''\<rparr>"

definition toy_sign :: signing_fn where
  "toy_sign = (\<lambda>r k t x. Some (x @ nl # ''w''))"

lemma toy_signing [simp]: "signing toy_ext toy_sign k = toy_ext"
  by (simp add: signing_def toy_sign_def toy_ext_def)

lemma toy_texts_ok: "texts_ok toy_signer_lib (\<lambda>_. ''v'') example_ssh_lib"
  using example_texts_ok by (auto simp: texts_ok_def toy_signer_lib_def graphic_def intro!: word_text_graphic)

lemma toy_device_new:
  "toy_sign r k t x = Some (x @ nl # ''w'')"
  "dn_host_clock example_device = 1752537600 * time_Second + 5" "w_store (dn_witness example_device) = NewMemStore"
  "\<not> w_Halted mem_store_ops (dn_witness example_device)" "idle (dn_witness example_device)"
  "latest mem_store_ops (dn_witness example_device) origin = 0"
  "latest_hash mem_store_ops (dn_witness example_device) origin = make_bytes 32"
  by (simp_all add: mem_latest example_device_def New_def NewMemStore_def idle_def newPool_def toy_sign_def)

theorem provisioned_device_is_fed_witness:
  "\<exists>n' w'. cmdProvision toy_signer_lib example_ssh_lib (device_net toy_signer_lib (\<lambda>_. ''v'') example_delivery) example_provision
      (example_device, example_files) = (Inr ''w'', n', example_files)
    \<and> cmdFeed toy_ext toy_lib (toy_net (toy_note toy_cp1)) [] toy_feed (dn_witness n') =
        (Inr \<lparr>fo_Origin = cp_Origin (toy_cp1), fo_Size = cp_N (toy_cp1), fo_Name = ''w'', fo_Time = 7\<rparr>, w')"
proof -
  have dev: "fs_faults example_files = []" "map_of (fs_files example_files) (pf_seed example_provision) = Some (make_bytes 32)"
    "length (make_bytes 32) = SeedSize" "sl_nameOk toy_signer_lib (pf_name example_provision)"
    "pinned example_ssh_lib (sf_hostKey (pf_ssh example_provision)) (HostPublicKey (dn_server example_device)) example_files"
    "key_inv toy_signer_lib (dn_server example_device) (dn_witness example_device)" "pf_settime example_provision"
    "cfg_SetTime (sv_cfg (dn_server example_device)) = Some (\<lambda>sec. sec * time_Second)"
    using example_pinned by (simp_all add: example_files_def example_provision_def toy_signer_lib_def example_lib_def example_device_def
      example_server_def example_config_def SeedSize_def key_inv_def New_def HostPublicKey_def graphic_def)
  have "\<exists>n' w'. cmdProvision toy_signer_lib example_ssh_lib (device_net toy_signer_lib (\<lambda>_. ''v'') example_delivery) example_provision
      (example_device, example_files) = (Inr ''w'', n', example_files)
    \<and> cmdFeed (signing toy_ext toy_sign ((!) (sv_keys (dn_server n')))) toy_lib (toy_net (toy_note toy_cp1)) [] toy_feed (dn_witness n') =
        (Inr \<lparr>fo_Origin = cp_Origin (toy_cp1), fo_Size = cp_N (toy_cp1), fo_Name = ''w'', fo_Time = 7\<rparr>, w')
    \<and> w_store w' = ms_PutBatch NewMemStore [(cp_Origin (toy_cp1),
        \<lparr>ls_Size = cp_N (toy_cp1), ls_Hash = cp_Hash (toy_cp1), ls_Note = toy_text (toy_cp1) @ nl # ''w''\<rparr>)]"
    by (rule provisioned_device_is_fed [OF toy_texts_ok dev, where net = "\<lambda>_. toy_net (toy_note toy_cp1)" and sops = mem_store_ops
          and tk = toy_tick and pf = "[]" and ctext = "toy_text (toy_cp1)" and cpNote = "toy_note toy_cp1" and logCfg = toy_feed_log])
      (use toy_serves toy_behind toy_hash_codec toy_fits [OF toy_plain(1), of "[]" 0] toy_feed_note in
        \<open>simp_all add: toy_device_new toy_feed_simps example_delivery_def toy_signer_lib_def has_prefix_def time_Second_def clockTolerance_def example_provision_def\<close>)
  then show ?thesis by auto
qed

end
