(* ===== verification/Rpmb_Card.thy ===== *)
theory Rpmb_Card
  imports Vitrum_Prelude
begin

text \<open>
  The simulated RPMB partition of \<^verbatim>\<open>internal/rpmbtest/fake.go\<close>, against which the anchor is tested.
  The layout of a frame and its codes belong to the driver package, so frames are records and codes are
  symbolic constructors; a buffer is a frame, or \<open>None\<close> when it has the wrong length. The stuff bytes and the block count
  of a frame, which the card neither reads nor sets, are left out. The MAC
  (HMAC-SHA256 over the frame from its data field on, without the MAC itself) is a parameter.
\<close>

section \<open>Frames\<close>

datatype rpmb_req =
    AuthenticationKeyProgramming
  | WriteCounterRead
  | AuthenticatedDataWrite
  | AuthenticatedDataRead
  | ResultRead
  | OtherRequest nat

datatype rpmb_result =
    OperationOK
  | GeneralFailure
  | AuthenticationFailure
  | CounterFailure
  | AuthenticationKeyNotYetProgrammed

type_synonym u16 = "16 word"

record frame =
  fr_KeyMAC :: bytes
  fr_Data :: bytes
  fr_Nonce :: bytes
  fr_WriteCounter :: u32
  fr_Address :: u16
  fr_Result :: rpmb_result
  fr_Resp :: rpmb_req
  fr_Req :: rpmb_req

type_synonym mac = "bytes \<Rightarrow> frame \<Rightarrow> bytes"

definition maxData :: nat where "maxData = 256"

text \<open>A composite literal: fields that are not given have their zero value (request code 0).\<close>

definition zero_frame :: frame where
  "zero_frame = \<lparr>fr_KeyMAC = make_bytes 32, fr_Data = make_bytes maxData, fr_Nonce = make_bytes 16,
     fr_WriteCounter = 0, fr_Address = 0, fr_Result = OperationOK, fr_Resp = OtherRequest 0, fr_Req = OtherRequest 0\<rparr>"

section \<open>The card\<close>

record card =
  fc_programmed :: bool
  fc_key :: bytes
  fc_counter :: u32
  fc_sectors :: "(u16, bytes) gomap"
  fc_pending :: "frame option"

definition NewFakeCard :: card where
  "NewFakeCard = \<lparr>fc_programmed = False, fc_key = make_bytes 32, fc_counter = 0, fc_sectors = [], fc_pending = None\<rparr>"

definition fc_Counter :: "card \<Rightarrow> u32" where
  "fc_Counter c = fc_counter c"

definition fc_Programmed :: "card \<Rightarrow> bool" where
  "fc_Programmed c = fc_programmed c"

definition fc_sector :: "card \<Rightarrow> u16 \<Rightarrow> bytes" where
  "fc_sector c a = (case map_of (fc_sectors c) a of Some d \<Rightarrow> d | None \<Rightarrow> make_bytes maxData)"

text \<open>What the MAC covers: everything but the MAC field.\<close>

definition mac_of :: "mac \<Rightarrow> bytes \<Rightarrow> frame \<Rightarrow> bytes" where
  "mac_of hm key f = hm key (f\<lparr>fr_KeyMAC := []\<rparr>)"

definition verify :: "mac \<Rightarrow> card \<Rightarrow> frame \<Rightarrow> bool" where
  "verify hm c req \<longleftrightarrow> fr_KeyMAC req = mac_of hm (fc_key c) req"

definition sign :: "mac \<Rightarrow> card \<Rightarrow> frame \<Rightarrow> frame" where
  "sign hm c res = res\<lparr>fr_KeyMAC := mac_of hm (fc_key c) res\<rparr>"

definition errFrame :: "mac \<Rightarrow> card \<Rightarrow> frame \<Rightarrow> rpmb_result \<Rightarrow> frame" where
  "errFrame hm c req result =
     (let res = zero_frame\<lparr>fr_Resp := fr_Req req, fr_Nonce := fr_Nonce req, fr_Result := result\<rparr>
      in if fc_programmed c then sign hm c res else res)"

definition stageKeyProgram :: "mac \<Rightarrow> card \<Rightarrow> frame \<Rightarrow> card" where
  "stageKeyProgram hm c req =
     (if fc_programmed c then c\<lparr>fc_pending := Some (errFrame hm c req GeneralFailure)\<rparr>
      else c\<lparr>fc_key := fr_KeyMAC req, fc_programmed := True,
             fc_pending := Some (zero_frame\<lparr>fr_Resp := fr_Req req\<rparr>)\<rparr>)"

definition stageCounterRead :: "mac \<Rightarrow> card \<Rightarrow> frame \<Rightarrow> card" where
  "stageCounterRead hm c req =
     (if \<not> fc_programmed c then c\<lparr>fc_pending := Some (errFrame hm c req AuthenticationKeyNotYetProgrammed)\<rparr>
      else
        let res = zero_frame\<lparr>fr_Resp := fr_Req req, fr_Nonce := fr_Nonce req, fr_WriteCounter := fc_counter c\<rparr>
        in c\<lparr>fc_pending := Some (sign hm c res)\<rparr>)"

definition stageWrite :: "mac \<Rightarrow> card \<Rightarrow> frame \<Rightarrow> card" where
  "stageWrite hm c req =
     (if \<not> fc_programmed c then c\<lparr>fc_pending := Some (errFrame hm c req AuthenticationKeyNotYetProgrammed)\<rparr>
      else if \<not> verify hm c req then c\<lparr>fc_pending := Some (errFrame hm c req AuthenticationFailure)\<rparr>
      else if fr_WriteCounter req \<noteq> fc_counter c then c\<lparr>fc_pending := Some (errFrame hm c req CounterFailure)\<rparr>
      else
        let c = c\<lparr>fc_sectors := AList.update (fr_Address req) (fr_Data req) (fc_sectors c),
                  fc_counter := fc_counter c + 1\<rparr>;
            res = zero_frame\<lparr>fr_Resp := fr_Req req, fr_WriteCounter := fc_counter c, fr_Address := fr_Address req\<rparr>
        in c\<lparr>fc_pending := Some (sign hm c res)\<rparr>)"

definition stageRead :: "mac \<Rightarrow> card \<Rightarrow> frame \<Rightarrow> card" where
  "stageRead hm c req =
     (if \<not> fc_programmed c then c\<lparr>fc_pending := Some (errFrame hm c req AuthenticationKeyNotYetProgrammed)\<rparr>
      else
        let res = zero_frame\<lparr>fr_Resp := fr_Req req, fr_Nonce := fr_Nonce req, fr_Address := fr_Address req,
                    fr_Data := fc_sector c (fr_Address req)\<rparr>
        in c\<lparr>fc_pending := Some (sign hm c res)\<rparr>)"

datatype card_error = FrameLength | InvalidReliable | NoStagedResponse

definition WriteRPMB :: "mac \<Rightarrow> card \<Rightarrow> frame option \<Rightarrow> bool \<Rightarrow> card_error option \<times> card" where
  "WriteRPMB hm c buf reliable =
     (case buf of
        None \<Rightarrow> (Some FrameLength, c)
      | Some req \<Rightarrow>
          if reliable \<noteq> (fr_Req req = AuthenticationKeyProgramming \<or> fr_Req req = AuthenticatedDataWrite)
          then (Some InvalidReliable, c)
          else
            (None,
             case fr_Req req of
               ResultRead \<Rightarrow> c
             | AuthenticationKeyProgramming \<Rightarrow> stageKeyProgram hm c req
             | WriteCounterRead \<Rightarrow> stageCounterRead hm c req
             | AuthenticatedDataWrite \<Rightarrow> stageWrite hm c req
             | AuthenticatedDataRead \<Rightarrow> stageRead hm c req
             | OtherRequest n \<Rightarrow> c\<lparr>fc_pending := Some (errFrame hm c req GeneralFailure)\<rparr>))"

definition ReadRPMB :: "card \<Rightarrow> bool \<Rightarrow> (card_error + frame) \<times> card" where
  "ReadRPMB c fullLength =
     (if \<not> fullLength then (Inl FrameLength, c)
      else case fc_pending c of
             None \<Rightarrow> (Inl NoStagedResponse, c)
           | Some f \<Rightarrow> (Inr f, c\<lparr>fc_pending := None\<rparr>))"

section \<open>Lemmas\<close>

lemmas stage_defs = stageKeyProgram_def stageCounterRead_def stageWrite_def stageRead_def

lemma mac_of_KeyMAC [simp]: "mac_of hm k (f\<lparr>fr_KeyMAC := m\<rparr>) = mac_of hm k f"
  by (simp add: mac_of_def)

text \<open>Which part of the card a request can change.\<close>

lemma WriteRPMB_frame:
  assumes "WriteRPMB hm c (Some req) reliable = (r, c')"
  shows "fc_programmed c' = (fc_programmed c \<or> r = None \<and> fr_Req req = AuthenticationKeyProgramming)"
    and "fc_programmed c \<Longrightarrow> fc_key c' = fc_key c"
  using assms
  by (auto simp: WriteRPMB_def stage_defs Let_def split: if_splits rpmb_req.splits)

text \<open>An accepted write, from the fact that something changed.\<close>

lemma WriteRPMB_changed:
  assumes "WriteRPMB hm c buf reliable = (r, c')" "fc_sectors c' \<noteq> fc_sectors c \<or> fc_counter c' \<noteq> fc_counter c"
  shows "\<exists>req. buf = Some req \<and> r = None \<and> reliable \<and> fr_Req req = AuthenticatedDataWrite \<and> fc_programmed c
    \<and> fr_KeyMAC req = mac_of hm (fc_key c) req \<and> fr_WriteCounter req = fc_counter c
    \<and> fc_counter c' = fc_counter c + 1
    \<and> fc_sectors c' = AList.update (fr_Address req) (fr_Data req) (fc_sectors c)"
  using assms
  by (auto simp: WriteRPMB_def stage_defs verify_def Let_def split: option.splits if_splits rpmb_req.splits)

section \<open>Histories of the card\<close>

text \<open>Any sequence of calls, by any number of driver instances.\<close>

datatype card_op = CardWrite "frame option" bool | CardRead bool

fun card_step :: "mac \<Rightarrow> card_op \<Rightarrow> card \<Rightarrow> card" where
  "card_step hm (CardWrite buf reliable) c = snd (WriteRPMB hm c buf reliable)"
| "card_step hm (CardRead fullLength) c = snd (ReadRPMB c fullLength)"

definition card_run :: "mac \<Rightarrow> card_op list \<Rightarrow> card \<Rightarrow> card" where
  "card_run hm ops c = fold (card_step hm) ops c"

lemma card_run_simps [simp]:
  "card_run hm [] c = c"
  "card_run hm (x # xs) c = card_run hm xs (card_step hm x c)"
  by (simp_all add: card_run_def)

text \<open>The arrays of the source have fixed lengths, and an unprogrammed card is empty.\<close>

definition frame_ok :: "frame \<Rightarrow> bool" where
  "frame_ok f \<longleftrightarrow> length (fr_KeyMAC f) = 32 \<and> length (fr_Data f) = maxData \<and> length (fr_Nonce f) = 16"

fun op_ok :: "card_op \<Rightarrow> bool" where
  "op_ok (CardWrite (Some f) reliable) = frame_ok f"
| "op_ok (CardWrite None reliable) = True"
| "op_ok (CardRead fullLength) = True"

definition card_ok :: "card \<Rightarrow> bool" where
  "card_ok c \<longleftrightarrow> length (fc_key c) = 32 \<and> wf_map (fc_sectors c) \<and> (\<forall>a. length (fc_sector c a) = maxData)
    \<and> (\<forall>f. fc_pending c = Some f \<longrightarrow> frame_ok f)
    \<and> (\<not> fc_programmed c \<longrightarrow> fc_sectors c = [] \<and> fc_counter c = 0)"

lemma frame_ok_zero: "frame_ok zero_frame"
  by (simp add: frame_ok_def zero_frame_def)

lemma frame_ok_upd [simp]:
  "frame_ok (f\<lparr>fr_Resp := q\<rparr>) = frame_ok f"
  "frame_ok (f\<lparr>fr_Result := s\<rparr>) = frame_ok f"
  "frame_ok (f\<lparr>fr_WriteCounter := n\<rparr>) = frame_ok f"
  "frame_ok (f\<lparr>fr_Address := a\<rparr>) = frame_ok f"
  "length x = 16 \<Longrightarrow> frame_ok f \<Longrightarrow> frame_ok (f\<lparr>fr_Nonce := x\<rparr>)"
  "length x = maxData \<Longrightarrow> frame_ok f \<Longrightarrow> frame_ok (f\<lparr>fr_Data := x\<rparr>)"
  by (simp_all add: frame_ok_def)

lemma frame_ok_sign [simp]: "(\<And>k g. length (hm k g) = 32) \<Longrightarrow> frame_ok f \<Longrightarrow> frame_ok (sign hm c f)"
  by (simp add: frame_ok_def sign_def mac_of_def)

lemma frame_ok_errFrame [simp]:
  "(\<And>k g. length (hm k g) = 32) \<Longrightarrow> frame_ok req \<Longrightarrow> frame_ok (errFrame hm c req res)"
  by (simp add: errFrame_def Let_def) (simp add: frame_ok_def zero_frame_def sign_def mac_of_def)

lemma card_ok_pending:
  "card_ok (c\<lparr>fc_pending := p\<rparr>) \<longleftrightarrow> card_ok (c\<lparr>fc_pending := None\<rparr>) \<and> (\<forall>f. p = Some f \<longrightarrow> frame_ok f)"
  by (auto simp: card_ok_def fc_sector_def)

lemma card_ok_no_pending: "card_ok c \<Longrightarrow> card_ok (c\<lparr>fc_pending := None\<rparr>)"
  by (simp add: card_ok_def fc_sector_def)

lemma card_ok_stage:
  assumes "card_ok c" "frame_ok f"
  shows "card_ok (c\<lparr>fc_pending := Some f\<rparr>)"
  using assms card_ok_pending card_ok_no_pending by blast

lemma card_step_ok:
  assumes hm: "\<And>k g. length (hm k g) = 32" and c: "card_ok c" and x: "op_ok x"
  shows "card_ok (card_step hm x c)"
proof (cases x)
  case (CardRead fullLength)
  with c show ?thesis by (auto simp: ReadRPMB_def card_ok_no_pending split: option.split)
next
  case (CardWrite buf reliable)
  show ?thesis
  proof (cases buf)
    case None
    with CardWrite c show ?thesis by (simp add: WriteRPMB_def)
  next
    case (Some req)
    with x CardWrite have req: "frame_ok req" "length (fr_KeyMAC req) = 32" "length (fr_Nonce req) = 16"
      "length (fr_Data req) = maxData" by (simp_all add: frame_ok_def)
    have sec: "length (fc_sector c a) = maxData" for a using c by (simp add: card_ok_def)
    have "card_ok (stageKeyProgram hm c req)"
      using c req hm by (auto simp: stageKeyProgram_def frame_ok_zero card_ok_stage)
        (auto simp: card_ok_def fc_sector_def frame_ok_zero)
    moreover have "card_ok (stageCounterRead hm c req)" "card_ok (stageRead hm c req)"
      using c req hm sec by (simp_all add: stageCounterRead_def stageRead_def Let_def frame_ok_zero card_ok_stage)
    moreover have "card_ok (stageWrite hm c req)"
    proof (cases "fc_programmed c")
      case True
      let ?c = "c\<lparr>fc_sectors := AList.update (fr_Address req) (fr_Data req) (fc_sectors c), fc_counter := fc_counter c + 1\<rparr>"
      have "card_ok ?c" using c True req by (auto simp: card_ok_def fc_sector_def gomap_simps)
      with c req hm show ?thesis by (auto simp: stageWrite_def Let_def frame_ok_zero intro!: card_ok_stage)
    qed (use c req hm in \<open>simp add: stageWrite_def card_ok_stage\<close>)
    ultimately show ?thesis using CardWrite Some c req hm
      by (auto simp: WriteRPMB_def card_ok_stage split: rpmb_req.split)
  qed
qed

text \<open>Along a history a programmed card keeps its key, and the counter counts the accepted writes.\<close>

lemma card_step_programmed:
  assumes "fc_programmed c"
  shows "fc_programmed (card_step hm x c)" "fc_key (card_step hm x c) = fc_key c"
    and "fc_counter (card_step hm x c) = fc_counter c \<or> fc_counter (card_step hm x c) = fc_counter c + 1"
  using assms
  by (cases x; auto simp: WriteRPMB_def ReadRPMB_def stage_defs Let_def split: option.splits rpmb_req.splits)+

lemma card_run_programmed:
  assumes "fc_programmed c"
  shows "fc_programmed (card_run hm ops c) \<and> fc_key (card_run hm ops c) = fc_key c
    \<and> (\<exists>n \<le> length ops. fc_counter (card_run hm ops c) = fc_counter c + of_nat n)"
  using assms
proof (induction ops arbitrary: c)
  case (Cons x xs)
  let ?c = "card_step hm x c"
  obtain n where n: "n \<le> length xs" "fc_counter (card_run hm xs ?c) = fc_counter ?c + of_nat n"
    using Cons.IH [OF card_step_programmed(1) [OF Cons.prems]] by blast
  from card_step_programmed(3) [OF Cons.prems]
  have "\<exists>n \<le> Suc (length xs). fc_counter (card_run hm xs ?c) = fc_counter c + of_nat n"
  proof
    assume "fc_counter ?c = fc_counter c"
    with n show ?thesis by (intro exI [of _ n]) simp
  next
    assume "fc_counter ?c = fc_counter c + 1"
    with n show ?thesis by (intro exI [of _ "Suc n"]) simp
  qed
  with Cons.IH [OF card_step_programmed(1) [OF Cons.prems]] card_step_programmed(2) [OF Cons.prems] show ?case
    by simp
qed simp

section \<open>A concrete write\<close>

definition example_hmac :: mac where
  "example_hmac k f = take 32 (k @ fr_Data f)"

definition example_programmed :: card where
  "example_programmed = NewFakeCard\<lparr>fc_programmed := True\<rparr>"

definition example_write :: frame where
  "example_write = zero_frame\<lparr>fr_Req := AuthenticatedDataWrite, fr_KeyMAC := make_bytes 32, fr_Address := 1\<rparr>"

lemma example_write_accepted:
  "\<exists>c'. WriteRPMB example_hmac example_programmed (Some example_write) True = (None, c')
     \<and> fc_counter example_programmed = 0 \<and> fc_counter c' = 1"
  by (simp add: WriteRPMB_def stageWrite_def verify_def mac_of_def example_hmac_def NewFakeCard_def
      example_programmed_def example_write_def zero_frame_def make_bytes_def replicate_add Let_def)

section \<open>Properties\<close>

text \<open>
  C34: Only an authenticated write changes the partition. Whatever request arrives, a change of the sectors or the
  counter means that the key was programmed, that the frame's MAC verifies under it, that the frame carries the
  current counter, and that exactly the addressed sector and the counter (by one) changed.
\<close>

theorem card_changes_only_authenticated:
  assumes "WriteRPMB hm c buf reliable = (r, c')" "fc_sectors c' \<noteq> fc_sectors c \<or> fc_counter c' \<noteq> fc_counter c"
  shows "\<exists>req. buf = Some req \<and> r = None \<and> reliable \<and> fr_Req req = AuthenticatedDataWrite \<and> fc_programmed c
    \<and> fr_KeyMAC req = mac_of hm (fc_key c) req \<and> fr_WriteCounter req = fc_counter c
    \<and> fc_counter c' = fc_counter c + 1
    \<and> (\<forall>a. fc_sector c' a = (if a = fr_Address req then fr_Data req else fc_sector c a))"
  using WriteRPMB_changed [OF assms] by (auto simp: fc_sector_def gomap_simps)

theorem card_changes_only_authenticated_witness:
  "\<exists>c'. WriteRPMB example_hmac example_programmed (Some example_write) True = (None, c')
     \<and> fc_sector c' 1 = make_bytes maxData"
proof -
  obtain c' where w: "WriteRPMB example_hmac example_programmed (Some example_write) True = (None, c')"
    and ch: "fc_counter c' \<noteq> fc_counter example_programmed" using example_write_accepted by auto
  from card_changes_only_authenticated [OF w disjI2 [OF ch]] w show ?thesis
    by (auto simp: example_write_def zero_frame_def)
qed

text \<open>
  C35: A replayed write is refused for the rest of the card's life. After a write was accepted, and after any further
  calls of any driver (fewer than the counter can count), presenting the same frame again changes neither the
  sectors nor the counter, and the staged answer is a counter failure.
\<close>

theorem replayed_write_refused:
  assumes "WriteRPMB hm c (Some req) True = (None, c1)" "fc_counter c1 \<noteq> fc_counter c"
    "Suc (length ops) < 2 ^ 32" "WriteRPMB hm (card_run hm ops c1) (Some req) True = (r, c2)"
  shows "fc_sectors c2 = fc_sectors (card_run hm ops c1) \<and> fc_counter c2 = fc_counter (card_run hm ops c1)
    \<and> (\<exists>f. fc_pending c2 = Some f \<and> fr_Result f = CounterFailure)"
proof -
  from WriteRPMB_changed [OF assms(1)] assms(2) have
    w: "fr_Req req = AuthenticatedDataWrite" "fc_programmed c" "fr_KeyMAC req = mac_of hm (fc_key c) req"
      "fr_WriteCounter req = fc_counter c" "fc_counter c1 = fc_counter c + 1" by auto
  have c1: "fc_programmed c1" "fc_key c1 = fc_key c"
    using WriteRPMB_frame [OF assms(1)] w(2) by simp_all
  obtain n where n: "n \<le> length ops" "fc_counter (card_run hm ops c1) = fc_counter c1 + of_nat n"
    using card_run_programmed [OF c1(1)] by blast
  have "unat (of_nat (Suc n) :: u32) = Suc n" using n(1) assms(3) by (simp add: unat_of_nat del: of_nat_Suc)
  then have "(of_nat (Suc n) :: u32) \<noteq> 0" by (metis nat.simps(3) unat_0)
  with n(2) w(5) have "fc_counter (card_run hm ops c1) \<noteq> fc_counter c" by (simp add: algebra_simps)
  with card_run_programmed [OF c1(1), of hm ops] show ?thesis using assms(4) w c1
    by (auto simp: WriteRPMB_def stageWrite_def verify_def errFrame_def sign_def Let_def)
qed

theorem replayed_write_refused_witness:
  "\<exists>c1 c2. WriteRPMB example_hmac example_programmed (Some example_write) True = (None, c1)
     \<and> WriteRPMB example_hmac (card_run example_hmac [CardRead True] c1) (Some example_write) True = (None, c2)
     \<and> (\<exists>f. fc_pending c2 = Some f \<and> fr_Result f = CounterFailure)"
proof -
  obtain c1 where w: "WriteRPMB example_hmac example_programmed (Some example_write) True = (None, c1)"
    and c1: "fc_counter c1 = 1" and ch: "fc_counter c1 \<noteq> fc_counter example_programmed"
    using example_write_accepted by auto
  obtain r c2 where w2: "WriteRPMB example_hmac (card_run example_hmac [CardRead True] c1) (Some example_write) True = (r, c2)"
    by fastforce
  have "r = None" using w2 by (simp add: WriteRPMB_def example_write_def)
  with replayed_write_refused [OF w ch _ w2] w w2 show ?thesis by auto
qed

text \<open>
  C38: The fixed sizes of the card's data are kept. After any sequence of calls on a new card, with frames whose fields have
  the lengths of the frame format, every sector, the key and the staged frame have their lengths too, no sector is
  stored twice, and as long as no key was programmed the partition is empty with counter zero.
\<close>

theorem card_stays_well_formed:
  assumes "\<And>k g. length (hm k g) = 32" "\<forall>x \<in> set ops. op_ok x"
  shows "card_ok (card_run hm ops NewFakeCard)"
proof -
  have "card_ok c \<Longrightarrow> card_ok (card_run hm ops c)" for c
    using assms(2) by (induction ops arbitrary: c) (simp_all add: card_step_ok [OF assms(1)])
  moreover have "card_ok NewFakeCard" by (simp add: card_ok_def NewFakeCard_def fc_sector_def wf_map_def)
  ultimately show ?thesis by blast
qed

theorem card_stays_well_formed_witness:
  "card_ok (card_run (\<lambda>k f. make_bytes 32)
     [CardWrite (Some (zero_frame\<lparr>fr_Req := AuthenticationKeyProgramming\<rparr>)) True, CardRead True,
      CardWrite (Some (zero_frame\<lparr>fr_Req := AuthenticatedDataWrite\<rparr>)) True] NewFakeCard)"
  by (rule card_stays_well_formed) (simp_all add: frame_ok_def zero_frame_def)

text \<open>
  A read returns the sector as it is, with the request's nonce echoed and a MAC under the programmed key; the
  partition is unchanged.
\<close>

lemma read_returns_sector:
  assumes "fc_programmed c" "fr_Req req = AuthenticatedDataRead"
  shows "\<exists>c' f. WriteRPMB hm c (Some req) False = (None, c') \<and> ReadRPMB c' True = (Inr f, c'\<lparr>fc_pending := None\<rparr>)
    \<and> fr_Data f = fc_sector c (fr_Address req) \<and> fr_Nonce f = fr_Nonce req \<and> fr_Address f = fr_Address req
    \<and> fr_Result f = OperationOK \<and> fr_KeyMAC f = mac_of hm (fc_key c) f \<and> c'\<lparr>fc_pending := fc_pending c\<rparr> = c"
  using assms by (simp add: WriteRPMB_def stageRead_def ReadRPMB_def sign_def zero_frame_def mac_of_def Let_def)

end
