(* ===== verification/Device_Key.thy ===== *)
theory Device_Key
  imports Vitrum_Prelude
begin

text \<open>
  Derivation of the device-bound keys, \<^verbatim>\<open>fw/internal/devicekey\<close>. The blocks of the SoC are arguments: an absent
  block is \<open>None\<close>, and so is the result of a derivation that fails.
\<close>

section \<open>Key derivation\<close>

definition div_State :: bytes where "div_State = ''vitrum-state-v1''"
definition div_RPMB :: bytes where "div_RPMB = ''vitrum-rpmb-v1''"
definition div_HostKey :: bytes where "div_HostKey = ''vitrum-hostkey-v1''"

definition pbkdfIter :: nat where "pbkdfIter = 4096"
definition keyLen :: nat where "keyLen = 32"

text \<open>
  The SoC as \<open>Derive\<close> sees it: whether SNVS is secure, the derivations of CAAM (into a buffer) and DCP (diversifier,
  initialisation vector, key slot), and the unique ID. PBKDF2-HMAC-SHA256 takes password, salt, iterations and length.
\<close>

type_synonym pbkdf2 = "bytes \<Rightarrow> bytes \<Rightarrow> nat \<Rightarrow> nat \<Rightarrow> bytes option"

record soc =
  so_snvs :: "bool option"
  so_caam :: "(bytes \<Rightarrow> bytes \<Rightarrow> bytes option) option"
  so_dcp :: "(bytes \<Rightarrow> bytes \<Rightarrow> int \<Rightarrow> bytes option) option"
  so_uid :: bytes

definition stretchKey :: "pbkdf2 \<Rightarrow> bytes \<Rightarrow> bytes \<Rightarrow> bytes option" where
  "stretchKey kdf dk uid = kdf dk uid pbkdfIter keyLen"

text \<open>\<open>Derive\<close> returns the key, if any, and the DEV mark.\<close>

definition Derive :: "pbkdf2 \<Rightarrow> soc \<Rightarrow> bytes \<Rightarrow> bytes option \<times> bool" where
  "Derive kdf soc diversifier =
     (let dev = (so_snvs soc = None \<or> \<not> the (so_snvs soc));
          dk = (case so_caam soc of
                  Some caam \<Rightarrow> caam diversifier (make_bytes keyLen)
                | None \<Rightarrow> (case so_dcp soc of
                             Some dcp \<Rightarrow> dcp diversifier (make_bytes 16) (- 1)
                           | None \<Rightarrow> None))
      in case dk of None \<Rightarrow> (None, dev)
         | Some k \<Rightarrow> (stretchKey kdf k (so_uid soc), dev))"

text \<open>\<open>imx6ul.SNVS != nil && imx6ul.SNVS.Available()\<close>, the test of every image for a fused unit.\<close>

definition snvs_secure :: "soc \<Rightarrow> bool" where
  "snvs_secure soc = (so_snvs soc \<noteq> None \<and> the (so_snvs soc))"

lemma Derive_dev: "snd (Derive kdf soc d) = (\<not> snvs_secure soc)"
  by (auto simp: Derive_def snvs_secure_def Let_def split: option.split)

end
