(* ===== verification/Hab.thy ===== *)
theory Hab
  imports Go_Strings
begin

text \<open>
  The secure-boot report of \<^verbatim>\<open>fw/internal/hab\<close>. The two ROM calls are arguments: the status call returns a status byte
  and two words, the event call returns for an index a status byte, the contents of the event buffer
  and the size it stored. \<open>readHABReport\<close> asks for events until the ROM refuses one; the index is a \<open>uint32\<close>, so the
  loop need not end, and the report is a partial function.
\<close>

section \<open>Names\<close>

definition eventStatus :: "bytes \<Rightarrow> nat" where
  "eventStatus event = (if length event < 5 then 0 else of_char (event ! 4))"

definition habStatusName :: "nat \<Rightarrow> bytes" where
  "habStatusName v =
     (if v = 0x00 then ''any'' else if v = 0x33 then ''failure'' else if v = 0x69 then ''warning''
      else if v = 0xF0 then ''success'' else ''unknown'')"

definition habConfigName :: "nat \<Rightarrow> bytes" where
  "habConfigName v =
     (if v = 0x33 then ''return'' else if v = 0xF0 then ''open'' else if v = 0xCC then ''closed'' else ''unknown'')"

definition habStateName :: "nat \<Rightarrow> bytes" where
  "habStateName v =
     (if v = 0x33 then ''initial'' else if v = 0x55 then ''check'' else if v = 0x66 then ''nonsecure''
      else if v = 0x99 then ''trusted'' else if v = 0xAA then ''secure'' else if v = 0xCC then ''fail-soft''
      else if v = 0xFF then ''fail-hard'' else ''unknown'')"

record hab_event =
  he_Status :: bytes
  he_Data :: bytes

definition makeHABEvent :: "bytes \<Rightarrow> hab_event" where
  "makeHABEvent event = \<lparr>he_Status = habStatusName (eventStatus event), he_Data = hex_encode event\<rparr>"

section \<open>The report\<close>

record hab_status =
  hs_Status :: bytes
  hs_Config :: bytes
  hs_State :: bytes
  hs_Failures :: int
  hs_Events :: "hab_event list"

definition habEventMax :: nat where "habEventMax = 128"
definition habSuccess :: nat where "habSuccess = 0xF0"
definition habFailure :: nat where "habFailure = 0x33"

record hab_rom =
  rom_status :: "nat \<times> u32 \<times> u32"
  rom_event :: "u32 \<Rightarrow> nat \<times> bytes \<times> u32"

text \<open>\<open>byte(x)\<close>.\<close>

definition byte_of :: "u32 \<Rightarrow> nat" where
  "byte_of x = unat x mod 256"

definition hab_init :: "hab_rom \<Rightarrow> hab_status" where
  "hab_init rom =
     (case rom_status rom of (status, config, state) \<Rightarrow>
        \<lparr>hs_Status = habStatusName status, hs_Config = habConfigName (byte_of config),
         hs_State = habStateName (byte_of state), hs_Failures = 0, hs_Events = []\<rparr>)"

text \<open>The body of the loop, for a buffer and the size the ROM claims for it; \<open>Failures\<close> is a 32-bit \<open>int\<close>.\<close>

definition hab_add_event :: "hab_status \<Rightarrow> bytes \<times> u32 \<Rightarrow> hab_status" where
  "hab_add_event rep ev =
     (case ev of (buf, sz) \<Rightarrow>
        let sz = (if of_nat habEventMax < sz then of_nat habEventMax else sz);
            event = makeHABEvent (take (unat sz) buf)
        in rep\<lparr>hs_Failures := (if he_Status event = habStatusName habFailure
                               then go_int 32 (hs_Failures rep + 1) else hs_Failures rep),
               hs_Events := hs_Events rep @ [event]\<rparr>)"

partial_function (option) hab_events :: "hab_rom \<Rightarrow> u32 \<Rightarrow> hab_status \<Rightarrow> hab_status option" where
  "hab_events rom index rep =
     (case rom_event rom index of (ret, ev) \<Rightarrow>
        if ret \<noteq> habSuccess then Some rep else hab_events rom (index + 1) (hab_add_event rep ev))"

definition readHABReport :: "hab_rom \<Rightarrow> hab_status option" where
  "readHABReport rom = hab_events rom 0 (hab_init rom)"

text \<open>\<open>Report\<close>: \<open>habOnce\<close> and \<open>habBoot\<close> are one variable, set once the report has been read.\<close>

definition Report :: "hab_rom \<Rightarrow> hab_status option \<Rightarrow> (hab_status \<times> hab_status option) option" where
  "Report rom habBoot =
     (case habBoot of
        Some rep \<Rightarrow> Some (rep, habBoot)
      | None \<Rightarrow> map_option (\<lambda>rep. (rep, Some rep)) (readHABReport rom))"

text \<open>The EVK target has no ROM to ask.\<close>

definition evk_Report :: hab_status where
  "evk_Report = \<lparr>hs_Status = ''unavailable'', hs_Config = ''unavailable'', hs_State = ''unavailable'',
     hs_Failures = 0, hs_Events = []\<rparr>"

section \<open>Lemmas\<close>

definition hab_accepts :: "hab_rom \<Rightarrow> nat \<Rightarrow> bool" where
  "hab_accepts rom i \<longleftrightarrow> fst (rom_event rom (of_nat i)) = habSuccess"

definition hab_upto :: "hab_rom \<Rightarrow> hab_status \<Rightarrow> nat \<Rightarrow> nat \<Rightarrow> hab_status" where
  "hab_upto rom rep i n = foldl hab_add_event rep (map (\<lambda>j. snd (rom_event rom (of_nat j))) [i..<n])"

lemma hab_events_step:
  "hab_events rom (of_nat i) rep =
     (if hab_accepts rom i then hab_events rom (of_nat (Suc i)) (hab_add_event rep (snd (rom_event rom (of_nat i)))) else Some rep)"
  by (subst hab_events.simps) (simp add: hab_accepts_def case_prod_unfold add.commute)

lemma hab_events_returns:
  assumes "i \<le> n" "\<not> hab_accepts rom n" "\<forall>j. i \<le> j \<and> j < n \<longrightarrow> hab_accepts rom j"
  shows "hab_events rom (of_nat i) rep = Some (hab_upto rom rep i n)"
  using assms
proof (induction "n - i" arbitrary: i rep)
  case 0
  then show ?case by (simp add: hab_events_step hab_upto_def)
next
  case (Suc k)
  then have lt: "i < n" by simp
  have "hab_events rom (of_nat (Suc i)) r = Some (hab_upto rom r (Suc i) n)" for r
    using Suc.hyps(2) Suc.prems lt by (intro Suc.hyps(1)) simp_all
  then show ?case using Suc.prems(3) lt
    by (simp add: hab_events_step [of rom i] hab_upto_def upt_conv_Cons)
qed

text \<open>When the ROM accepts every index, the loop does not return.\<close>

lemma hab_events_diverges:
  assumes "\<And>x. fst (rom_event rom x) = habSuccess"
  shows "hab_events rom index rep = None"
proof -
  have "\<exists>x. fst (rom_event rom x) \<noteq> habSuccess" if "hab_events rom index rep = Some r" for r
  proof (rule hab_events.raw_induct [where P = "\<lambda>rom _ _ _. \<exists>x. fst (rom_event rom x) \<noteq> habSuccess", OF _ that])
    fix self rom index rep r
    assume ih: "\<And>rom index rep r. self rom index rep = Some r \<Longrightarrow> \<exists>x. fst (rom_event rom x) \<noteq> habSuccess"
      and r: "(case rom_event rom index of (ret, ev) \<Rightarrow>
          if ret \<noteq> habSuccess then Some rep else self rom (index + 1) (hab_add_event rep ev)) = Some (r :: hab_status)"
    show "\<exists>x. fst (rom_event rom x) \<noteq> habSuccess"
    proof (cases "fst (rom_event rom index) = habSuccess")
      case True
      with r have "self rom (index + 1) (hab_add_event rep (snd (rom_event rom index))) = Some r"
        by (simp add: case_prod_unfold)
      then show ?thesis by (rule ih)
    qed blast
  qed
  then show ?thesis using assms by (cases "hab_events rom index rep") auto
qed

definition is_failure :: "hab_event \<Rightarrow> bool" where
  "is_failure e \<longleftrightarrow> he_Status e = ''failure''"

lemma go_int_add_go_int: "go_int w (b + go_int w a) = go_int w (b + a)"
  by (simp add: go_int_def mod_simps algebra_simps)

lemma go_int_u32_eq_0: "n < 2 ^ 32 \<Longrightarrow> go_int 32 (int n) = 0 \<longleftrightarrow> n = 0"
proof -
  assume "n < 2 ^ 32"
  then have n: "0 \<le> int n" "int n < 2 ^ 32" by simp_all
  show ?thesis
  proof (cases "int n < 2 ^ 31")
    case True
    then show ?thesis by (subst go_int_id) simp_all
  next
    case False
    with n have "(int n + 2 ^ 31) mod 2 ^ 32 = int n + 2 ^ 31 - 2 ^ 32"
      by (intro int_mod_pos_eq [of _ _ 1]) simp_all
    with n False show ?thesis by (simp add: go_int_def)
  qed
qed

lemma hab_add_event_failures:
  "hs_Failures rep = go_int 32 (int (length (filter is_failure (hs_Events rep)))) \<Longrightarrow>
   hs_Failures (hab_add_event rep ev) = go_int 32 (int (length (filter is_failure (hs_Events (hab_add_event rep ev)))))"
  by (simp add: hab_add_event_def Let_def is_failure_def habFailure_def habStatusName_def go_int_add_go_int add.commute [of _ 1]
      split: prod.split)

lemma foldl_hab_failures:
  "hs_Failures rep = go_int 32 (int (length (filter is_failure (hs_Events rep)))) \<Longrightarrow>
   hs_Failures (foldl hab_add_event rep evs) =
     go_int 32 (int (length (filter is_failure (hs_Events (foldl hab_add_event rep evs)))))"
  by (induction evs arbitrary: rep) (simp_all add: hab_add_event_failures)

lemma foldl_hab_length:
  "length (hs_Events (foldl hab_add_event rep evs)) = length (hs_Events rep) + length evs"
  by (induction evs arbitrary: rep) (simp_all add: hab_add_event_def Let_def case_prod_unfold)

section \<open>Properties\<close>

text \<open>The report of the first \<open>n\<close> events.\<close>

definition hab_report :: "hab_rom \<Rightarrow> nat \<Rightarrow> hab_status" where
  "hab_report rom n = hab_upto rom (hab_init rom) 0 n"

text \<open>
  C37: The report loop. \<open>readHABReport\<close> returns exactly when the ROM refuses some index of 32 bits; it then holds the events
  before the first refused index, in order, and since there are fewer than \<open>2 ^ 32\<close> of them, \<open>Failures\<close> is zero exactly
  when none of them is a failure.
\<close>

theorem hab_report_returns:
  "if \<exists>i < 2 ^ 32. \<not> hab_accepts rom i
   then \<exists>n < 2 ^ 32. \<not> hab_accepts rom n \<and> list_all (hab_accepts rom) [0..<n]
     \<and> readHABReport rom = Some (hab_report rom n) \<and> length (hs_Events (hab_report rom n)) = n
     \<and> (hs_Failures (hab_report rom n) = 0) = list_all (\<lambda>e. \<not> is_failure e) (hs_Events (hab_report rom n))
   else readHABReport rom = None"
proof (cases "\<exists>i < 2 ^ 32. \<not> hab_accepts rom i")
  case True
  define n where "n = (LEAST i. \<not> hab_accepts rom i)"
  from True obtain i where i: "i < 2 ^ 32" "\<not> hab_accepts rom i" by blast
  have n: "\<not> hab_accepts rom n" "n \<le> i" unfolding n_def
    using LeastI [of "\<lambda>i. \<not> hab_accepts rom i", OF i(2)] Least_le [of "\<lambda>i. \<not> hab_accepts rom i", OF i(2)] by simp_all
  have before: "\<forall>j < n. hab_accepts rom j" unfolding n_def using not_less_Least by blast
  have r: "readHABReport rom = Some (hab_report rom n)"
    using hab_events_returns [of 0 n rom "hab_init rom"] n(1) before
    by (simp add: readHABReport_def hab_report_def)
  have len: "length (hs_Events (hab_report rom n)) = n"
    by (simp add: hab_report_def hab_upto_def foldl_hab_length hab_init_def case_prod_unfold)
  let ?f = "length (filter is_failure (hs_Events (hab_report rom n)))"
  have "?f < 2 ^ 32" using length_filter_le [of is_failure "hs_Events (hab_report rom n)"] len n(2) i(1) by simp
  moreover have "hs_Failures (hab_report rom n) = go_int 32 (int ?f)" unfolding hab_report_def hab_upto_def
    by (rule foldl_hab_failures) (simp add: hab_init_def case_prod_unfold go_int_def)
  ultimately have "(hs_Failures (hab_report rom n) = 0) = (?f = 0)"
    by (simp add: go_int_u32_eq_0)
  then have "(hs_Failures (hab_report rom n) = 0) = list_all (\<lambda>e. \<not> is_failure e) (hs_Events (hab_report rom n))"
    by (simp add: list_all_iff filter_empty_conv)
  with True n i(1) before r len show ?thesis by (auto simp: list_all_iff intro!: exI [of _ n])
next
  case False
  have "fst (rom_event rom x) = habSuccess" for x
    using False unat_u32_lt [of x] by (force simp: hab_accepts_def dest: spec [of _ "unat x"])
  with False show ?thesis by (simp add: readHABReport_def hab_events_diverges)
qed

theorem hab_report_returns_witness:
  "readHABReport \<lparr>rom_status = (0xF0, 0, 0), rom_event = (\<lambda>i. (0x33, [], 0))\<rparr> \<noteq> None"
proof -
  let ?rom = "\<lparr>rom_status = (0xF0, 0, 0), rom_event = (\<lambda>i. (0x33, [], 0))\<rparr>"
  have "\<exists>i < 2 ^ 32. \<not> hab_accepts ?rom i" by (intro exI [of _ 0]) (simp add: hab_accepts_def habSuccess_def)
  with hab_report_returns [of ?rom] show ?thesis by auto
qed

end
