(* ===== verification/Rpmb_Provision.thy ===== *)
theory Rpmb_Provision
  imports Rpmb_Card Device_Key Hab
begin

text \<open>
  The one-shot image that programs the RPMB authentication key: \<open>provisionRPMB\<close> of
  \<^verbatim>\<open>fw/rpmb-provision/provision.go\<close> and \<open>main\<close> of \<^verbatim>\<open>main.go\<close>. Programming is irreversible, so what matters is when it
  is attempted. The driver that \<open>rpmb.InitWithTransport\<close> makes of a transport (\<open>Counter\<close>, \<open>ProgramKey\<close>) is a parameter over
  the state of the card; the transport is \<open>rpmbCard\<close> of \<^verbatim>\<open>hardware.go\<close>, which passes frames on to the MMC controller.
  \<open>derive\<close> is the result of the device key derivation. \<open>Counter\<close> returns a value also when it fails, and the
  code stores it.
\<close>

datatype counter_error =
    OperationError rpmb_result
  | ErrInvalidResponseMAC
  | OtherCounterError

record 'c rpmb_driver =
  rd_init :: "'c \<Rightarrow> bytes \<Rightarrow> bool"
  rd_counter :: "'c \<Rightarrow> bytes \<Rightarrow> bool \<Rightarrow> (u32 \<times> counter_error option) \<times> 'c"
  rd_program :: "'c \<Rightarrow> bytes \<Rightarrow> bool \<times> 'c"

record ('c, 'f) usdhc =
  uh_WriteRPMB :: "'c \<Rightarrow> 'f \<Rightarrow> bool \<Rightarrow> bool \<times> 'c"
  uh_ReadRPMB :: "'c \<Rightarrow> 'f option \<times> 'c"

record ('c, 'f) rpmb_transport =
  tr_WriteRPMB :: "'c \<Rightarrow> 'f \<Rightarrow> bool \<Rightarrow> bool \<times> 'c"
  tr_ReadRPMB :: "'c \<Rightarrow> 'f option \<times> 'c"

definition rpmbCard :: "('c, 'f) usdhc \<Rightarrow> ('c, 'f) rpmb_transport" where
  "rpmbCard mmc = \<lparr>tr_WriteRPMB = (\<lambda>c buf rel. uh_WriteRPMB mmc c buf rel), tr_ReadRPMB = (\<lambda>c. uh_ReadRPMB mmc c)\<rparr>"

datatype provision_error =
    MmcDetectFailed
  | ProbeInit
  | Inconclusive counter_error
  | ExistingDerive
  | ExistingInit
  | ForeignKeyProgrammed
  | DiagnosticInconclusive counter_error
  | AlreadyProgrammed
  | HabNotClean
  | SnvsNotSecure
  | DeriveFailed
  | InitFailed
  | ProgramFailed
  | CounterVerification counter_error

record provision_status =
  ps_Revision :: bytes
  ps_HAB :: hab_status
  ps_SNVSSecure :: bool
  ps_UnprogrammedBefore :: bool
  ps_ProgrammedBefore :: bool
  ps_DerivedKeyMatches :: bool
  ps_ForeignKey :: bool
  ps_Probe :: bytes
  ps_KeyProgrammed :: bool
  ps_AuthenticatedCounter :: bool
  ps_Counter :: u32
  ps_Success :: bool
  ps_Error :: "provision_error option"

definition initial_status :: "bool \<Rightarrow> hab_status \<Rightarrow> provision_status" where
  "initial_status secure boot =
     \<lparr>ps_Revision = [], ps_HAB = boot, ps_SNVSSecure = secure, ps_UnprogrammedBefore = False, ps_ProgrammedBefore = False,
      ps_DerivedKeyMatches = False, ps_ForeignKey = False, ps_Probe = [], ps_KeyProgrammed = False,
      ps_AuthenticatedCounter = False, ps_Counter = 0, ps_Success = False, ps_Error = None\<rparr>"

definition ps_fail :: "provision_error \<Rightarrow> provision_status \<Rightarrow> provision_status" where
  "ps_fail e st = st\<lparr>ps_Error := Some e\<rparr>"

text \<open>The branch for a card that already has a key: diagnosis only.\<close>

definition diagnose :: "'c rpmb_driver \<Rightarrow> bytes option \<Rightarrow> provision_status \<Rightarrow> 'c \<Rightarrow> provision_status \<times> 'c" where
  "diagnose drv derive st cd0 =
     (let st = st\<lparr>ps_ProgrammedBefore := True, ps_Probe := ''programmed''\<rparr>
      in case derive of
           None \<Rightarrow> (ps_fail ExistingDerive st, cd0)
         | Some key \<Rightarrow>
             if \<not> rd_init drv cd0 key then (ps_fail ExistingInit st, cd0)
             else
               (case rd_counter drv cd0 key True of
                  ((n, err), cd0') \<Rightarrow>
                    let st = st\<lparr>ps_Counter := n\<rparr>
                    in case err of
                         Some e \<Rightarrow>
                           if e = ErrInvalidResponseMAC
                           then (ps_fail ForeignKeyProgrammed (st\<lparr>ps_ForeignKey := True\<rparr>), cd0')
                           else (ps_fail (DiagnosticInconclusive e) st, cd0')
                       | None \<Rightarrow>
                           (ps_fail AlreadyProgrammed
                              (st\<lparr>ps_DerivedKeyMatches := True, ps_AuthenticatedCounter := True\<rparr>), cd0')))"

text \<open>The branch that programs the key.\<close>

definition program :: "'c rpmb_driver \<Rightarrow> bytes option \<Rightarrow> provision_status \<Rightarrow> 'c \<Rightarrow> provision_status \<times> 'c" where
  "program drv derive st cd0 =
     (if hs_Status (ps_HAB st) \<noteq> ''success'' \<or> hs_Failures (ps_HAB st) \<noteq> 0 then (ps_fail HabNotClean st, cd0)
      else if \<not> ps_SNVSSecure st then (ps_fail SnvsNotSecure st, cd0)
      else
        (case derive of
           None \<Rightarrow> (ps_fail DeriveFailed st, cd0)
         | Some key \<Rightarrow>
             if \<not> rd_init drv cd0 key then (ps_fail InitFailed st, cd0)
             else
               (case rd_program drv cd0 key of
                  (False, cd0') \<Rightarrow> (ps_fail ProgramFailed st, cd0')
                | (True, cd0') \<Rightarrow>
                    let st = st\<lparr>ps_KeyProgrammed := True\<rparr>
                    in case rd_counter drv cd0' key True of
                         ((n, Some e), cd0'') \<Rightarrow> (ps_fail (CounterVerification e) (st\<lparr>ps_Counter := n\<rparr>), cd0'')
                       | ((n, None), cd0'') \<Rightarrow>
                           (st\<lparr>ps_Counter := n, ps_AuthenticatedCounter := True, ps_Success := True\<rparr>, cd0''))))"

definition provisionRPMB :: "'c rpmb_driver \<Rightarrow> bool \<Rightarrow> hab_status \<Rightarrow> bytes option \<Rightarrow> 'c \<Rightarrow> provision_status \<times> 'c" where
  "provisionRPMB drv secure boot derive cd0 =
     (let st = initial_status secure boot
      in if \<not> rd_init drv cd0 (make_bytes 32) then (ps_fail ProbeInit st, cd0)
         else
           (case rd_counter drv cd0 (make_bytes 32) False of
              ((n, Some e), cd0') \<Rightarrow>
                if e = OperationError AuthenticationKeyNotYetProgrammed
                then program drv derive
                       (st\<lparr>ps_UnprogrammedBefore := True, ps_Probe := ''unprogrammed (result 0x7)''\<rparr>) cd0'
                else (ps_fail (Inconclusive e) (st\<lparr>ps_Probe := ''inconclusive''\<rparr>), cd0')
            | ((n, None), cd0') \<Rightarrow> diagnose drv derive st cd0'))"

lemmas provision_defs = provisionRPMB_def diagnose_def program_def ps_fail_def initial_status_def

section \<open>The image\<close>

text \<open>The closure that \<open>main\<close> passes as \<open>derive\<close>: a key marked DEV is refused.\<close>

definition derive_rpmb :: "pbkdf2 \<Rightarrow> soc \<Rightarrow> bytes option" where
  "derive_rpmb kdf soc =
     (case Derive kdf soc div_RPMB of (key, dev) \<Rightarrow> if dev \<and> key \<noteq> None then None else key)"

text \<open>\<open>main\<close> up to the status server; \<open>serveProvisionStatus\<close> does not return, so a failed detection ends here.\<close>

definition rpmb_main :: "(('c, 'f) rpmb_transport \<Rightarrow> 'c rpmb_driver) \<Rightarrow> ('c, 'f) usdhc \<Rightarrow> pbkdf2 \<Rightarrow> soc \<Rightarrow> hab_status \<Rightarrow> bool \<Rightarrow> bytes \<Rightarrow> 'c \<Rightarrow> provision_status \<times> 'c" where
  "rpmb_main initTransport mmc kdf soc boot mmcDetect revision cd0 =
     (let secure = snvs_secure soc
      in if \<not> mmcDetect then (ps_fail MmcDetectFailed ((initial_status secure boot)\<lparr>ps_Revision := revision\<rparr>), cd0)
         else case provisionRPMB (initTransport (rpmbCard mmc)) secure boot (derive_rpmb kdf soc) cd0 of
                (st, cd0') \<Rightarrow> (st\<lparr>ps_Revision := revision\<rparr>, cd0'))"

text \<open>The LEDs at the end, and the page that is served, if the network comes up.\<close>

datatype final_leds = BothOn | FatalPattern

definition serveProvisionStatus :: "bool \<Rightarrow> bool \<Rightarrow> provision_status \<Rightarrow> final_leds \<times> provision_status option" where
  "serveProvisionStatus netInit listen st =
     (let shown = (if ps_Success st then BothOn else FatalPattern)
      in if \<not> netInit then (FatalPattern, None)
         else if \<not> listen then (FatalPattern, None)
         else (shown, Some st))"

section \<open>Properties\<close>

text \<open>A driver that talks to the simulated card through the transport; the MAC of the example is the key itself.\<close>

definition example_mmc :: "(card, frame) usdhc" where
  "example_mmc =
     \<lparr>uh_WriteRPMB = (\<lambda>c f rel. case WriteRPMB (\<lambda>k _. k) c (Some f) rel of (e, c') \<Rightarrow> (e = None, c')),
      uh_ReadRPMB = (\<lambda>c. case ReadRPMB c True of (Inl e, c') \<Rightarrow> (None, c') | (Inr f, c') \<Rightarrow> (Some f, c'))\<rparr>"

definition example_driver :: "(card, frame) rpmb_transport \<Rightarrow> card rpmb_driver" where
  "example_driver tr =
     \<lparr>rd_init = (\<lambda>c k. True),
      rd_counter = (\<lambda>c k auth.
        case tr_WriteRPMB tr c (zero_frame\<lparr>fr_Req := WriteCounterRead\<rparr>) False of
          (False, c1) \<Rightarrow> ((0, Some OtherCounterError), c1)
        | (True, c1) \<Rightarrow>
            (case tr_ReadRPMB tr c1 of
               (None, c2) \<Rightarrow> ((0, Some OtherCounterError), c2)
             | (Some f, c2) \<Rightarrow>
                 if fr_Result f \<noteq> OperationOK then ((0, Some (OperationError (fr_Result f))), c2)
                 else if auth \<and> fr_KeyMAC f \<noteq> k then ((fr_WriteCounter f, Some ErrInvalidResponseMAC), c2)
                 else ((fr_WriteCounter f, None), c2))),
      rd_program = (\<lambda>c k.
        case tr_WriteRPMB tr c (zero_frame\<lparr>fr_Req := AuthenticationKeyProgramming, fr_KeyMAC := k\<rparr>) True of
          (False, c1) \<Rightarrow> (False, c1)
        | (True, c1) \<Rightarrow>
            (case tr_ReadRPMB tr c1 of (None, c2) \<Rightarrow> (False, c2) | (Some f, c2) \<Rightarrow> (fr_Result f = OperationOK, c2)))\<rparr>"

definition clean_boot :: hab_status where
  "clean_boot = \<lparr>hs_Status = ''success'', hs_Config = ''closed'', hs_State = ''trusted'', hs_Failures = 0, hs_Events = []\<rparr>"

text \<open>
  No one-way write without every precondition. Unless the probe reported an unprogrammed card, the boot was clean,
  SNVS is secure, and the key derivation succeeded, the outcome of the tool does not depend on \<open>ProgramKey\<close> at all,
  so it was not called.
\<close>

lemma programs_only_when_safe:
  assumes "\<not> (snd (fst (rd_counter drv cd0 (make_bytes 32) False)) = Some (OperationError AuthenticationKeyNotYetProgrammed)
      \<and> hs_Status boot = ''success'' \<and> hs_Failures boot = 0 \<and> secure \<and> derive \<noteq> None)"
  shows "provisionRPMB (drv\<lparr>rd_program := p\<rparr>) secure boot derive cd0 = provisionRPMB drv secure boot derive cd0"
  using assms
  by (auto simp: provision_defs Let_def split: prod.split sum.split option.split)

text \<open>
  What the driver does to the authentication key of the card: reading the counter leaves it, \<open>ProgramKey\<close> that succeeds has
  set it, and one that fails has set it or left it (the answer may get lost).
\<close>

definition programs_key :: "('c \<Rightarrow> bytes option) \<Rightarrow> 'c rpmb_driver \<Rightarrow> bool" where
  "programs_key key_of drv \<longleftrightarrow>
     (\<forall>c k auth. key_of (snd (rd_counter drv c k auth)) = key_of c) \<and>
     (\<forall>c k c'. rd_program drv c k = (True, c') \<longrightarrow> key_of c' = Some k) \<and>
     (\<forall>c k c'. rd_program drv c k = (False, c') \<longrightarrow> key_of c' = Some k \<or> key_of c' = key_of c)"

text \<open>The conditions for programming, and the key that is programmed: the one of this device, not marked DEV.\<close>

definition programming_safe :: "'c rpmb_driver \<Rightarrow> pbkdf2 \<Rightarrow> soc \<Rightarrow> hab_status \<Rightarrow> 'c \<Rightarrow> bytes \<Rightarrow> bool" where
  "programming_safe drv kdf soc boot cd0 key \<longleftrightarrow>
     snd (fst (rd_counter drv cd0 (make_bytes 32) False)) = Some (OperationError AuthenticationKeyNotYetProgrammed)
     \<and> hs_Status boot = ''success'' \<and> hs_Failures boot = 0 \<and> snvs_secure soc \<and> Derive kdf soc div_RPMB = (Some key, False)"

lemma derive_rpmb_SomeD: "derive_rpmb kdf soc = Some k \<Longrightarrow> Derive kdf soc div_RPMB = (Some k, False)"
  by (auto simp: derive_rpmb_def split: prod.splits if_splits)

lemma diagnose_keeps_key:
  assumes "programs_key key_of drv" "diagnose drv derive st0 cd = (st, cd')"
  shows "key_of cd' = key_of cd \<and> ps_KeyProgrammed st = ps_KeyProgrammed st0 \<and> ps_Success st = ps_Success st0 \<and> ps_Error st \<noteq> None"
proof -
  have keep: "key_of c' = key_of c" if "rd_counter drv c k auth = (x, c')" for c k auth x c'
    using assms(1) that unfolding programs_key_def by (metis snd_conv)
  show ?thesis using assms(2)
    by (auto simp: diagnose_def ps_fail_def Let_def dest: keep split: prod.splits option.splits if_splits)
qed

lemma program_outcome:
  assumes ok: "programs_key key_of drv" and p: "program drv derive st0 cd = (st, cd')"
    and st0: "\<not> ps_KeyProgrammed st0" "\<not> ps_Success st0" "ps_Error st0 = None"
  shows "(ps_KeyProgrammed st \<longrightarrow> key_of cd' = derive)
    \<and> (ps_KeyProgrammed st \<or> key_of cd' \<noteq> key_of cd \<longrightarrow> hs_Status (ps_HAB st0) = ''success'' \<and> hs_Failures (ps_HAB st0) = 0
        \<and> ps_SNVSSecure st0 \<and> derive \<noteq> None \<and> key_of cd' = derive)
    \<and> (ps_Success st \<longleftrightarrow> ps_Error st = None)
    \<and> (ps_Success st \<longrightarrow> ps_KeyProgrammed st
        \<and> (\<exists>key c2. derive = Some key \<and> rd_program drv cd key = (True, c2) \<and> fst (rd_counter drv c2 key True) = (ps_Counter st, None)))"
proof -
  have keep: "key_of c' = key_of c" if "rd_counter drv c k auth = (x, c')" for c k auth x c'
    using ok that unfolding programs_key_def by (metis snd_conv)
  have prog: "key_of c' = Some k \<or> \<not> b \<and> key_of c' = key_of c" if "rd_program drv c k = (b, c')" for c k b c'
    using ok that unfolding programs_key_def by (cases b) auto
  show ?thesis
  proof (cases "hs_Status (ps_HAB st0) \<noteq> ''success'' \<or> hs_Failures (ps_HAB st0) \<noteq> 0 \<or> \<not> ps_SNVSSecure st0
      \<or> derive = None \<or> \<not> rd_init drv cd (the derive)")
    case True
    with p st0 show ?thesis by (auto simp: program_def ps_fail_def split: if_splits option.splits)
  next
    case False
    then obtain key where key: "derive = Some key" "rd_init drv cd key" by auto
    obtain b c2 where pr: "rd_program drv cd key = (b, c2)" by fastforce
    obtain n e c3 where ct: "rd_counter drv c2 key True = ((n, e), c3)" by (metis surj_pair)
    show ?thesis using p st0 False key pr ct prog [OF pr] keep [OF ct]
      by (cases b; cases e) (auto simp: program_def ps_fail_def Let_def)
  qed
qed

text \<open>
  C36: The card and the report agree. Over any driver whose \<open>ProgramKey\<close> sets the key of the card: the key changes only if the
  eMMC answered, the probe said that the card had no key, the boot was clean and SNVS secure, and then it is the key of this
  device, not marked DEV. A run that reports a programmed key leaves the card with that key; success is the absence
  of an error, and means that after \<open>ProgramKey\<close> the reported counter was read back under authentication with the key.
\<close>

theorem rpmb_main_reports:
  assumes "rpmb_main initTransport mmc kdf soc boot mmcDetect revision cd0 = (st, cd0')" "drv = initTransport (rpmbCard mmc)"
    "programs_key key_of drv"
  shows "(key_of cd0' \<noteq> key_of cd0 \<or> ps_KeyProgrammed st \<longrightarrow>
        mmcDetect \<and> (\<exists>key. programming_safe drv kdf soc boot cd0 key \<and> key_of cd0' = Some key))
    \<and> ps_Success st = (ps_Error st = None)
    \<and> (ps_Success st \<longrightarrow> ps_KeyProgrammed st \<and>
        (\<exists>key c c'. c = snd (rd_counter drv cd0 (make_bytes 32) False) \<and> programming_safe drv kdf soc boot cd0 key
          \<and> rd_program drv c key = (True, c') \<and> fst (rd_counter drv c' key True) = (ps_Counter st, None)))"
proof (cases "mmcDetect \<and> rd_init drv cd0 (make_bytes 32)")
  case False
  with assms(1,2) show ?thesis
    by (cases mmcDetect) (auto simp: rpmb_main_def provisionRPMB_def ps_fail_def initial_status_def Let_def)
next
  case True
  let ?secure = "snvs_secure soc" and ?derive = "derive_rpmb kdf soc"
  let ?st0 = "initial_status ?secure boot"
  obtain n e c where ct: "rd_counter drv cd0 (make_bytes 32) False = ((n, e), c)" by (metis surj_pair)
  have c: "key_of c = key_of cd0" using assms(3) ct unfolding programs_key_def by (metis snd_conv)
  obtain st1 where run: "provisionRPMB drv ?secure boot ?derive cd0 = (st1, cd0')" and st: "st = st1\<lparr>ps_Revision := revision\<rparr>"
    using assms(1,2) True by (auto simp: rpmb_main_def Let_def split: prod.splits)
  consider "e = None" | "e = Some (OperationError AuthenticationKeyNotYetProgrammed)"
    | e' where "e = Some e'" "e' \<noteq> OperationError AuthenticationKeyNotYetProgrammed" by (cases e) auto
  then show ?thesis
  proof cases
    case 1
    then have "diagnose drv ?derive ?st0 c = (st1, cd0')" using run True ct by (simp add: provisionRPMB_def Let_def)
    from diagnose_keeps_key [OF assms(3) this] c st show ?thesis by (simp add: initial_status_def)
  next
    case 2
    let ?st = "?st0\<lparr>ps_UnprogrammedBefore := True, ps_Probe := ''unprogrammed (result 0x7)''\<rparr>"
    from 2 have "program drv ?derive ?st c = (st1, cd0')" using run True ct by (simp add: provisionRPMB_def Let_def)
    from program_outcome [OF assms(3) this] c st True 2 ct derive_rpmb_SomeD [of kdf soc] show ?thesis
      by (auto simp: initial_status_def programming_safe_def)
  next
    case 3
    with run True ct c st show ?thesis by (auto simp: provisionRPMB_def ps_fail_def initial_status_def Let_def)
  qed
qed

text \<open>The key of the simulated card.\<close>

definition card_key :: "card \<Rightarrow> bytes option" where
  "card_key c = (if fc_programmed c then Some (fc_key c) else None)"

lemma example_programs_key: "programs_key card_key (example_driver (rpmbCard example_mmc))"
  unfolding programs_key_def
  by (auto simp: example_driver_def rpmbCard_def example_mmc_def WriteRPMB_def ReadRPMB_def stageCounterRead_def stageKeyProgram_def
      card_key_def errFrame_def sign_def zero_frame_def Let_def split: prod.splits if_splits)

theorem rpmb_main_reports_witness:
  "\<exists>st cd0'. rpmb_main example_driver example_mmc (\<lambda>pw salt n len. Some (make_bytes len))
       \<lparr>so_snvs = Some True, so_caam = Some (\<lambda>d buf. Some buf), so_dcp = None, so_uid = []\<rparr> clean_boot True ''r1'' NewFakeCard = (st, cd0')
     \<and> ps_KeyProgrammed st \<and> ps_Success st \<and> (\<exists>key. card_key cd0' = Some key)"
proof -
  obtain st cd0' where p: "rpmb_main example_driver example_mmc (\<lambda>pw salt n len. Some (make_bytes len))
       \<lparr>so_snvs = Some True, so_caam = Some (\<lambda>d buf. Some buf), so_dcp = None, so_uid = []\<rparr> clean_boot True ''r1'' NewFakeCard = (st, cd0')"
    by fastforce
  have "ps_Success st" using p
    by (auto simp: rpmb_main_def derive_rpmb_def Derive_def snvs_secure_def stretchKey_def provision_defs example_driver_def
        example_mmc_def rpmbCard_def WriteRPMB_def ReadRPMB_def stageCounterRead_def errFrame_def sign_def mac_of_def zero_frame_def
        NewFakeCard_def stageKeyProgram_def clean_boot_def Let_def split: prod.splits)
  with rpmb_main_reports [OF p refl example_programs_key] p show ?thesis by blast
qed

text \<open>
  A card that already has a key is only diagnosed: the tool reports a foreign key exactly when the authenticated
  counter read fails with an invalid response MAC, never claims success, and never programs.
\<close>

lemma programmed_card_is_diagnosed:
  assumes "rd_init drv cd0 (make_bytes 32)" "rd_counter drv cd0 (make_bytes 32) False = ((n, None), cd1)"
    "derive = Some key" "rd_init drv cd1 key" "provisionRPMB drv secure boot derive cd0 = (st, cd0')"
  shows "\<not> ps_Success st \<and> \<not> ps_KeyProgrammed st \<and> ps_ProgrammedBefore st
    \<and> ps_ForeignKey st = (snd (fst (rd_counter drv cd1 key True)) = Some ErrInvalidResponseMAC)
    \<and> ps_DerivedKeyMatches st = (snd (fst (rd_counter drv cd1 key True)) = None)"
  using assms
  by (auto simp: provision_defs Let_def split: prod.splits option.splits if_splits)

end
