(* ===== verification/Store_Morphism.thy ===== *)
theory Store_Morphism
  imports Witness_Theorems
begin

text \<open>
  The witness does not see through its store: when a store embeds into another one method by method, every run of the
  witness on the embedded store is the image of a run on the original one. The locale states what an embedding keeps;
  \<open>to_env\<close> translates what a commit draws from its environment.
\<close>

definition map_witness :: "('s \<Rightarrow> 't) \<Rightarrow> 's witness \<Rightarrow> 't witness" where
  "map_witness f w = \<lparr>w_signer = w_signer w, w_epoch = w_epoch w, w_store = f (w_store w),
     w_batchesCommitted = w_batchesCommitted w, w_batchesFailed = w_batchesFailed w, w_lastCommit = w_lastCommit w,
     w_currentPool = w_currentPool w, w_inSequencing = w_inSequencing w, w_running = w_running w, w_heap = w_heap w\<rparr>"

definition map_wsys :: "('s \<Rightarrow> 't) \<Rightarrow> 's wsys \<Rightarrow> 't wsys" where
  "map_wsys f S = \<lparr>ws_w = map_witness f (ws_w S), ws_phase = ws_phase S, ws_log = ws_log S\<rparr>"

lemma map_witness_sel [simp]:
  "w_signer (map_witness f w) = w_signer w" "w_epoch (map_witness f w) = w_epoch w"
  "w_store (map_witness f w) = f (w_store w)" "w_currentPool (map_witness f w) = w_currentPool w"
  "w_inSequencing (map_witness f w) = w_inSequencing w" "w_running (map_witness f w) = w_running w"
  "w_heap (map_witness f w) = w_heap w" "w_batchesFailed (map_witness f w) = w_batchesFailed w"
  "w_batchesCommitted (map_witness f w) = w_batchesCommitted w" "w_lastCommit (map_witness f w) = w_lastCommit w"
  by (simp_all add: map_witness_def)

lemma map_wsys_sel [simp]:
  "ws_w (map_wsys f S) = map_witness f (ws_w S)" "ws_phase (map_wsys f S) = ws_phase S" "ws_log (map_wsys f S) = ws_log S"
  by (simp_all add: map_wsys_def)

lemma map_witness_pool [simp]:
  "(map_witness f w)\<lparr>w_heap := h, w_currentPool := p\<rparr> = map_witness f (w\<lparr>w_heap := h, w_currentPool := p\<rparr>)"
  by (simp add: map_witness_def)

lemma map_witness_New: "map_witness f (New s) = New (f s)"
  by (simp add: map_witness_def New_def)

text \<open>The operations that do not touch the store.\<close>

lemma map_witness_ops:
  "SetSigner sg (map_witness f w) = map_witness f (SetSigner sg w)"
  "ClearSigner (map_witness f w) = map_witness f (ClearSigner w)"
  "run_start (map_witness f w) = map_option (map_witness f) (run_start w)"
  "seq_begin (map_witness f w) = map_witness f (seq_begin w)"
  "seq_end p (map_witness f w) = map_witness f (seq_end p w)"
  "run_stop (map_witness f w) = map_witness f (run_stop w)"
  "fail_pool code resp p (map_witness f w) = map_witness f (fail_pool code resp p w)"
  by (simp_all add: map_witness_def SetSigner_def ClearSigner_def run_start_def seq_begin_def seq_end_def run_stop_def
      stopPools_def fail_pool_def Let_def)

text \<open>A commit of the witness on a store, with a translated environment.\<close>

definition commit_step :: "external \<Rightarrow> ('s, 'e) store_ops \<Rightarrow> ('f \<Rightarrow> 'e) \<Rightarrow> 's wsys \<Rightarrow> 's wsys \<Rightarrow> bool" where
  "commit_step ex sops to_env S S' \<longleftrightarrow>
     (\<exists>p env now t. ws_phase S = Seq_Swapped p \<and>
        S' = S\<lparr>ws_w := sequencePool ex sops (to_env env) now t p (ws_w S), ws_phase := Seq_Committed p,
               ws_log := ws_log S @ committed_batch ex sops (to_env env) now p (ws_w S)\<rparr>)"

locale store_morphism =
  fixes sops :: "('s, 'e) store_ops"
    and sops' :: "('t, 'f) store_ops"
    and embed :: "'s \<Rightarrow> 't"
    and to_env :: "'f \<Rightarrow> 'e"
  assumes get: "st_Get sops' (embed s) = st_Get sops s"
    and halted: "st_Halted sops' (embed s) = st_Halted sops s"
    and put: "st_PutBatch sops' env (embed s) ups = map_prod id embed (st_PutBatch sops (to_env env) s ups)"
begin

lemma Halted_map [simp]: "w_Halted sops' (map_witness embed w) = w_Halted sops w"
  by (simp add: w_Halted_def halted)

lemma latest_map [simp]:
  "latest sops' (map_witness embed w) origin = latest sops w origin"
  "latest_hash sops' (map_witness embed w) origin = latest_hash sops w origin"
  by (simp_all add: latest_def latest_hash_def get)

lemma matchPending_map [simp]: "matchPending sops' (map_witness embed w) r c = matchPending sops w r c"
  by (simp add: matchPending_def Let_def)

lemma addToPool_map:
  "addToPool ex sops' (map_witness embed w) req c = map_prod id (map_witness embed) (addToPool ex sops w req c)"
  by (simp add: addToPool_def Let_def split: option.split)

lemma AddCheckpoint_map:
  "AddCheckpoint ex sops' (map_witness embed w) body = map_prod id (map_witness embed) (AddCheckpoint ex sops w body)"
  by (simp add: AddCheckpoint_def addToPool_map split: option.split sum.split)

lemma sequencePool_map:
  "sequencePool ex sops' env now t p (map_witness embed w) = map_witness embed (sequencePool ex sops (to_env env) now t p w)"
proof -
  have heap: "(map_witness embed w)\<lparr>w_heap := h\<rparr> = map_witness embed (w\<lparr>w_heap := h\<rparr>)" for w h
    by (simp add: map_witness_def)
  have store: "(map_witness embed w)\<lparr>w_store := embed s\<rparr> = map_witness embed (w\<lparr>w_store := s\<rparr>)" for w s
    by (simp add: map_witness_def)
  have commit: "(map_witness embed w)\<lparr>w_store := embed s, w_batchesCommitted := n, w_lastCommit := t\<rparr> =
      map_witness embed (w\<lparr>w_store := s, w_batchesCommitted := n, w_lastCommit := t\<rparr>)" for w s n t
    by (simp add: map_witness_def)
  have failed: "(map_witness embed w)\<lparr>w_batchesFailed := n\<rparr> = map_witness embed (w\<lparr>w_batchesFailed := n\<rparr>)" for w n
    by (simp add: map_witness_def)
  show ?thesis
    by (simp add: sequencePool_def Let_def put heap store commit failed map_witness_ops map_prod_def
        split: option.split prod.split)
qed

lemma pool_batch_map [simp]: "pool_batch ex sops' now p (map_witness embed w) = pool_batch ex sops now p w"
  by (simp add: pool_batch_def Let_def split: option.split)

lemma committed_batch_map:
  "committed_batch ex sops' env now p (map_witness embed w) = committed_batch ex sops (to_env env) now p w"
  by (simp add: committed_batch_def put split: option.split)

lemma step_lift:
  assumes "wstep ex sops' (map_wsys embed S) T"
  shows "\<exists>S'. T = map_wsys embed S' \<and>
    (commit_step ex sops to_env S S' \<or> wstep ex sops S S' \<and> w_store (ws_w S') = w_store (ws_w S) \<and> ws_log S' = ws_log S)"
  using assms
proof (cases rule: wstep.cases)
  case (set_signer sg)
  have "wstep ex sops S (S\<lparr>ws_w := SetSigner sg (ws_w S)\<rparr>)" by (rule wstep.set_signer)
  with set_signer show ?thesis
    by (intro exI [of _ "S\<lparr>ws_w := SetSigner sg (ws_w S)\<rparr>"])
      (simp add: map_wsys_def map_witness_ops, simp add: SetSigner_def)
next
  case clear_signer
  have "wstep ex sops S (S\<lparr>ws_w := ClearSigner (ws_w S)\<rparr>)" by (rule wstep.clear_signer)
  with clear_signer show ?thesis
    by (intro exI [of _ "S\<lparr>ws_w := ClearSigner (ws_w S)\<rparr>"])
      (simp add: map_wsys_def map_witness_ops, simp add: ClearSigner_def)
next
  case (submit tx cp req sg ep res w')
  let ?c = "\<lparr>cd_cp = cp, cd_text = tx, cd_signer = sg, cd_epoch = ep\<rparr>"
  obtain w1 where a: "addToPool ex sops (ws_w S) req ?c = (res, w1)" "w' = map_witness embed w1"
    using submit(6) by (cases "addToPool ex sops (ws_w S) req ?c") (auto simp: addToPool_map)
  have "wstep ex sops S (S\<lparr>ws_w := w1\<rparr>)" by (rule wstep.submit [OF submit(2-5) a(1)])
  moreover have "w_store w1 = w_store (ws_w S)" using a(1) by (cases rule: addToPool_cases) simp_all
  ultimately show ?thesis using submit(1) a(2) by (intro exI [of _ "S\<lparr>ws_w := w1\<rparr>"]) (simp add: map_wsys_def)
next
  case (seq_start w')
  then obtain w1 where w1: "run_start (ws_w S) = Some w1" "w' = map_witness embed w1" by (auto simp: map_witness_ops)
  then have "wstep ex sops S (S\<lparr>ws_w := w1\<rparr>)" "w_store w1 = w_store (ws_w S)"
    by (auto intro: wstep.seq_start simp: run_start_def split: if_splits)
  then show ?thesis using seq_start(1) w1(2) by (intro exI [of _ "S\<lparr>ws_w := w1\<rparr>"]) (simp add: map_wsys_def)
next
  case seq_swap
  let ?S = "S\<lparr>ws_w := seq_begin (ws_w S), ws_phase := Seq_Swapped (w_currentPool (ws_w S))\<rparr>"
  have "wstep ex sops S ?S" using seq_swap by (intro wstep.seq_swap) simp_all
  with seq_swap(1) show ?thesis
    by (intro exI [of _ ?S]) (simp add: map_wsys_def map_witness_ops, simp add: seq_begin_def)
next
  case (seq_commit p env now t)
  let ?S = "S\<lparr>ws_w := sequencePool ex sops (to_env env) now t p (ws_w S), ws_phase := Seq_Committed p,
    ws_log := ws_log S @ committed_batch ex sops (to_env env) now p (ws_w S)\<rparr>"
  have "commit_step ex sops to_env S ?S" using seq_commit(2) unfolding commit_step_def by auto
  with seq_commit(1) show ?thesis
    by (intro exI [of _ ?S]) (simp add: map_wsys_def sequencePool_map committed_batch_map)
next
  case (seq_retire p)
  let ?S = "S\<lparr>ws_w := seq_end p (ws_w S), ws_phase := Seq_Idle\<rparr>"
  have "wstep ex sops S ?S" using seq_retire by (intro wstep.seq_retire) simp_all
  with seq_retire(1) show ?thesis
    by (intro exI [of _ ?S]) (simp add: map_wsys_def map_witness_ops, simp add: seq_end_def)
next
  case seq_stop
  let ?S = "S\<lparr>ws_w := run_stop (ws_w S)\<rparr>"
  have "wstep ex sops S ?S" using seq_stop by (intro wstep.seq_stop) simp_all
  with seq_stop(1) show ?thesis
    by (intro exI [of _ ?S]) (simp add: map_wsys_def map_witness_ops, simp add: run_stop_def stopPools_def Let_def)
qed

end

end
