(* ===== verification/Firmware.thy ===== *)
theory Firmware
  imports Rollback_Store Device_Key Store_Morphism
begin

text \<open>
  Storage bring-up and LEDs of the firmware image: the SD card wrapper, \<open>newRPMBAnchor\<close>, \<open>newStorage\<close> and the host key of
  \<^verbatim>\<open>fw/vitrum/target_usbarmory.go\<close>, the constants of \<^verbatim>\<open>target_mx6ullevk.go\<close>, and from \<^verbatim>\<open>main.go\<close> the choice of the
  store and the status LED. Hardware probes are arguments; a call that never returns (\<open>fatal\<close>) is a result of its
  own. Warnings on the console are left out.
\<close>

section \<open>The SD card\<close>

text \<open>
  \<open>sdDevice\<close> over the driver of the card: the driver takes block numbers as \<open>int\<close>, which has 32 bits on this
  target, and reports the number of blocks as one.
\<close>

definition sdDevice :: "'c block_ops \<Rightarrow> 'c block_ops" where
  "sdDevice sd = \<lparr>dv_info = (\<lambda>c. case dv_info sd c of (bs, blocks) \<Rightarrow> (bs, int64 blocks)),
     dv_read = (\<lambda>c lba n. dv_read sd c (go_int 32 lba) n),
     dv_write = (\<lambda>c lba buf. dv_write sd c (go_int 32 lba) buf)\<rparr>"

text \<open>The driver is a device whose number of blocks is a non-negative \<open>int\<close>.\<close>

definition sd_driver_ok :: "'c block_ops \<Rightarrow> ('c \<Rightarrow> int \<Rightarrow> byte) \<Rightarrow> bool" where
  "sd_driver_ok sd mem \<longleftrightarrow> block_device sd mem \<and> (\<forall>c. 0 \<le> snd (dv_info sd c) \<and> snd (dv_info sd c) < 2 ^ 31)"

lemma sdDevice_info:
  assumes "sd_driver_ok sd mem"
  shows "dv_info (sdDevice sd) = dv_info sd"
proof
  fix c
  have "0 \<le> snd (dv_info sd c)" "snd (dv_info sd c) < 2 ^ 31" using assms by (auto simp: sd_driver_ok_def)
  then have "int64 (snd (dv_info sd c)) = snd (dv_info sd c)" by (intro go_int_id) auto
  then show "dv_info (sdDevice sd) c = dv_info sd c" by (simp add: sdDevice_def case_prod_unfold)
qed

text \<open>Within the device a block number fits the 32-bit \<open>int\<close>.\<close>

lemma sdDevice_lba:
  assumes "sd_driver_ok sd mem" "block_region (sdDevice sd) c lba n addr"
  shows "block_region sd c lba n addr" "go_int 32 lba = lba"
proof -
  show r: "block_region sd c lba n addr" using assms(2) by (simp add: block_region_def sdDevice_info [OF assms(1)])
  obtain bs blocks where i: "dv_info sd c = (bs, blocks)" by fastforce
  from assms(1) i have "blocks < 2 ^ 31" by (metis sd_driver_ok_def snd_conv)
  moreover from r i have b: "0 < bs" "0 \<le> lba" "lba * bs + int n \<le> blocks * bs" by (auto simp: block_region_def)
  from b(3) have "lba * bs \<le> blocks * bs" by linarith
  with b(1) have "lba \<le> blocks" by (simp add: mult_le_cancel_right)
  ultimately show "go_int 32 lba = lba" using b(2) by (intro go_int_id) auto
qed

lemma sdDevice_ops:
  "dv_read (sdDevice sd) c lba n = dv_read sd c (go_int 32 lba) n"
  "dv_write (sdDevice sd) c lba buf = dv_write sd c (go_int 32 lba) buf"
  by (simp_all add: sdDevice_def)

section \<open>Storage bring-up\<close>

text \<open>
  The board: what the probes answer, and the driver of the RPMB. \<open>InitWithTransport\<close> gives a driver instance for a key,
  a dummy sector and the choice of a dummy write; \<open>Counter(false)\<close> probes it.
\<close>

record ('c, 'r) board =
  bd_native :: bool
  bd_soc :: soc
  bd_sd :: 'c
  bd_sdDetect :: bool
  bd_mmcDetect :: bool
  bd_rpmbInit :: "bytes \<Rightarrow> nat \<Rightarrow> bool \<Rightarrow> 'r option"
  bd_rpmbCounter :: "'r \<Rightarrow> bool \<Rightarrow> bool \<times> 'r"

definition rpmbDummySector :: nat where "rpmbDummySector = 0"

datatype anchor_bringup_error = EmmcDetect | RpmbKeyDerivation | RpmbInit | RpmbNotUsable

text \<open>\<open>newRPMBAnchor\<close>: the driver behind the anchor, its description and the DEV mark.\<close>

definition newRPMBAnchor :: "pbkdf2 \<Rightarrow> ('c, 'r) board \<Rightarrow> anchor_bringup_error + 'r \<times> bytes \<times> bool" where
  "newRPMBAnchor kdf b =
     (if \<not> bd_mmcDetect b then Inl EmmcDetect
      else case Derive kdf (bd_soc b) div_RPMB of
             (None, dev) \<Rightarrow> Inl RpmbKeyDerivation
           | (Some rpmbKey, dev) \<Rightarrow>
               (case bd_rpmbInit b rpmbKey rpmbDummySector False of
                  None \<Rightarrow> Inl RpmbInit
                | Some p \<Rightarrow>
                    (case bd_rpmbCounter b p False of
                       (False, p') \<Rightarrow> Inl RpmbNotUsable
                     | (True, p') \<Rightarrow> Inr (p', ''eMMC RPMB'', dev))))"

datatype degrade_reason = SdDetectFailed | StateKeyFailed | AnchorUnavailable anchor_bringup_error

datatype ('c, 'r) storage =
    NoStorage
  | FatalStorage degrade_reason
  | Storage (sg_dev: 'c) (sg_anchor: 'r) (sg_key: bytes) (sg_desc: bytes)

definition degrade :: "soc \<Rightarrow> degrade_reason \<Rightarrow> ('c, 'r) storage" where
  "degrade soc reason = (if snvs_secure soc then FatalStorage reason else NoStorage)"

definition newStorage :: "pbkdf2 \<Rightarrow> ('c, 'r) board \<Rightarrow> ('c, 'r) storage" where
  "newStorage kdf b =
     (if \<not> bd_native b then NoStorage
      else if \<not> bd_sdDetect b then degrade (bd_soc b) SdDetectFailed
      else case Derive kdf (bd_soc b) div_State of
             (None, dev) \<Rightarrow> degrade (bd_soc b) StateKeyFailed
           | (Some stateKey, devKeys) \<Rightarrow>
               (case newRPMBAnchor kdf b of
                  Inl e \<Rightarrow> degrade (bd_soc b) (AnchorUnavailable e)
                | Inr (anc, anchorDesc, rpmbDev) \<Rightarrow>
                    Storage (bd_sd b) anc stateKey
                      (''microSD blob + '' @ anchorDesc @ '' anchor'' @
                       (if devKeys then '' [DEV keys: unfused unit]'' else []))))"

text \<open>\<open>hostKeySeed\<close>: the seed and its source, or a failed derivation.\<close>

definition hostKeySeed :: "pbkdf2 \<Rightarrow> soc \<Rightarrow> (bytes \<times> bytes) option" where
  "hostKeySeed kdf soc =
     (case Derive kdf soc div_HostKey of
        (None, dev) \<Rightarrow> None
      | (Some seed, dev) \<Rightarrow> Some (seed, ''HUK-derived'' @ (if dev then '' [DEV: unfused, non-unique HUK]'' else [])))"

definition securityStatus :: "soc \<Rightarrow> bool \<times> bool" where
  "securityStatus soc = (let secure = snvs_secure soc in (secure, \<not> secure))"

text \<open>The choice of the target is a build tag: each target supplies these three.\<close>

record ('c, 'r) target =
  ta_name :: bytes
  ta_storage :: "('c, 'r) storage"
  ta_hostKeySeed :: "(bytes \<times> bytes) option"
  ta_security :: "bool \<times> bool"

definition usbarmory :: "pbkdf2 \<Rightarrow> ('c, 'r) board \<Rightarrow> ('c, 'r) target" where
  "usbarmory kdf b = \<lparr>ta_name = ''usbarmory'', ta_storage = newStorage kdf b, ta_hostKeySeed = hostKeySeed kdf (bd_soc b),
     ta_security = securityStatus (bd_soc b)\<rparr>"

definition mx6ullevk :: "bytes \<Rightarrow> ('c, 'r) target" where
  "mx6ullevk sshHostSeed = \<lparr>ta_name = ''mx6ullevk'', ta_storage = NoStorage,
     ta_hostKeySeed = Some (sshHostSeed, ''build-time seed (emulation)''), ta_security = (False, True)\<rparr>"

section \<open>The store of the witness\<close>

text \<open>The interface value \<open>store\<close> of \<open>main\<close>: one of the two implementations, with dynamic dispatch.\<close>

datatype ('d, 'a) any_store = AnyMem log_states | AnyRollback "('d, 'a) rollback_store"

text \<open>\<open>rand.Read\<close> fills the nonce buffer of \<open>save\<close> or fails.\<close>

definition rand_read :: "bytes option \<Rightarrow> bytes option" where
  "rand_read rnd = map_option (\<lambda>b. take nonceLen (b @ make_bytes nonceLen)) rnd"

definition any_store_ops :: "crypto \<Rightarrow> 'd block_ops \<Rightarrow> 'a anchor_ops \<Rightarrow> (('d, 'a) any_store, bytes option) store_ops" where
  "any_store_ops cr dops aops =
     (let rs = rollback_store_ops cr dops aops in
      \<lparr>st_Get = (\<lambda>s. case s of AnyMem m \<Rightarrow> st_Get mem_store_ops m | AnyRollback r \<Rightarrow> st_Get rs r),
       st_PutBatch = (\<lambda>e s ups. case s of
           AnyMem m \<Rightarrow> map_prod id AnyMem (st_PutBatch mem_store_ops () m ups)
         | AnyRollback r \<Rightarrow> map_prod id AnyRollback (st_PutBatch rs (rand_read e) r ups)),
       st_All = (\<lambda>s. case s of AnyMem m \<Rightarrow> st_All mem_store_ops m | AnyRollback r \<Rightarrow> st_All rs r),
       st_Halted = (\<lambda>s. case s of AnyMem m \<Rightarrow> st_Halted mem_store_ops m | AnyRollback r \<Rightarrow> st_Halted rs r),
       st_Generation = (\<lambda>s. case s of AnyMem m \<Rightarrow> st_Generation mem_store_ops m | AnyRollback r \<Rightarrow> st_Generation rs r)\<rparr>)"

definition any_inv :: "('d, 'a) any_store \<Rightarrow> bool" where
  "any_inv s = (case s of AnyMem m \<Rightarrow> wf_map m | AnyRollback r \<Rightarrow> wf_map (rs_mem r))"

lemma any_store_simps [simp]:
  "st_Get (any_store_ops cr dops aops) (AnyMem m) = st_Get mem_store_ops m"
  "st_Get (any_store_ops cr dops aops) (AnyRollback r) = st_Get (rollback_store_ops cr dops aops) r"
  "st_All (any_store_ops cr dops aops) (AnyMem m) = st_All mem_store_ops m"
  "st_All (any_store_ops cr dops aops) (AnyRollback r) = st_All (rollback_store_ops cr dops aops) r"
  "st_Halted (any_store_ops cr dops aops) (AnyMem m) = st_Halted mem_store_ops m"
  "st_Halted (any_store_ops cr dops aops) (AnyRollback r) = st_Halted (rollback_store_ops cr dops aops) r"
  "st_PutBatch (any_store_ops cr dops aops) e (AnyMem m) ups = map_prod id AnyMem (st_PutBatch mem_store_ops () m ups)"
  "st_PutBatch (any_store_ops cr dops aops) e (AnyRollback r) ups =
     map_prod id AnyRollback (st_PutBatch (rollback_store_ops cr dops aops) (rand_read e) r ups)"
  "any_inv (AnyMem m) = wf_map m" "any_inv (AnyRollback r) = wf_map (rs_mem r)"
  by (simp_all add: any_store_ops_def any_inv_def Let_def)

interpretation anystore: store "any_store_ops cr dops aops :: (('d, 'a) any_store, bytes option) store_ops" any_inv
proof unfold_locales
  fix s :: "('d, 'a) any_store"
  assume "any_inv s"
  then show "map_of (st_All (any_store_ops cr dops aops) s) = st_Get (any_store_ops cr dops aops) s"
    by (cases s) (simp_all add: memstore.all_get rollbackstore.all_get)
next
  fix s s' :: "('d, 'a) any_store" and ups :: log_states and e
  assume "any_inv s" "wf_map ups" "st_PutBatch (any_store_ops cr dops aops) e s ups = (None, s')"
  then show "st_Get (any_store_ops cr dops aops) s' = st_Get (any_store_ops cr dops aops) s ++ map_of ups"
    by (cases s) (auto simp: map_prod_def memstore.put_ok rollbackstore.put_ok split: prod.splits)
next
  fix s s' :: "('d, 'a) any_store" and ups :: log_states and e err
  assume "any_inv s" "wf_map ups" "st_PutBatch (any_store_ops cr dops aops) e s ups = (Some err, s')"
  then show "st_Get (any_store_ops cr dops aops) s' = st_Get (any_store_ops cr dops aops) s"
    by (cases s) (auto simp: map_prod_def memstore.put_err rollbackstore.put_err split: prod.splits)
next
  fix s :: "('d, 'a) any_store" and ups :: log_states and e
  assume "any_inv s" "wf_map ups"
  then show "any_inv (snd (st_PutBatch (any_store_ops cr dops aops) e s ups))"
    by (cases s) (simp_all add: memstore.put_inv rollbackstore.put_inv)
next
  fix s :: "('d, 'a) any_store" and ups :: log_states and e
  assume "any_inv s" "st_Halted (any_store_ops cr dops aops) s"
  then show "fst (st_PutBatch (any_store_ops cr dops aops) e s ups) \<noteq> None \<and>
      st_Halted (any_store_ops cr dops aops) (snd (st_PutBatch (any_store_ops cr dops aops) e s ups))"
    by (cases s) (simp_all add: memstore.put_halted rollbackstore.put_halted)
qed

interpretation anywitness: witness_store "any_store_ops cr dops aops :: (('d, 'a) any_store, bytes option) store_ops" any_inv
  by unfold_locales

interpretation anymem: store_morphism mem_store_ops "any_store_ops cr dops aops :: (('d, 'a) any_store, bytes option) store_ops"
  AnyMem "\<lambda>_. ()"
  by unfold_locales simp_all

interpretation anyrollback: store_morphism "rollback_store_ops cr dops aops"
  "any_store_ops cr dops aops :: (('d, 'a) any_store, bytes option) store_ops" AnyRollback rand_read
  by unfold_locales simp_all

text \<open>The store and the persistence text of \<open>main\<close>.\<close>

datatype boot_error =
    StorageFatal degrade_reason
  | OpenFailed open_error

definition main_store :: "external \<Rightarrow> 'c block_ops \<Rightarrow> 'r rpmb_ops \<Rightarrow> ('c, 'r) target \<Rightarrow>
    boot_error + ('c, 'r) any_store \<times> bytes" where
  "main_store ex sd rops tgt =
     (case ta_storage tgt of
        FatalStorage reason \<Rightarrow> Inl (StorageFatal reason)
      | NoStorage \<Rightarrow> Inr (AnyMem NewMemStore, ''none (RAM only)'')
      | Storage dev anc key desc \<Rightarrow>
          (case Open ex 32 (sdDevice sd) (rpmb_anchor_ops rops) dev Offset key anc of
             Inl e \<Rightarrow> Inl (OpenFailed e)
           | Inr rs \<Rightarrow> Inr (AnyRollback rs, if rs_Halted rs then desc @ '' - HALTED (rollback/tamper)'' else desc)))"

section \<open>The status LED\<close>

text \<open>Times in milliseconds.\<close>

record led_state =
  le_blue :: bool
  le_white :: bool
  le_halted :: bool
  le_haltOn :: bool
  le_lastBlueToggle :: int
  le_lastHaltToggle :: int
  le_whiteUntil :: int

datatype led_event = CosignPulse int | Tick int bool bool

definition led_step :: "led_state \<Rightarrow> led_event \<Rightarrow> led_state" where
  "led_step s ev =
     (case ev of
        CosignPulse now \<Rightarrow> s\<lparr>le_whiteUntil := now + 100\<rparr>
      | Tick now halted provisioned \<Rightarrow>
          if halted then
            let s = (if \<not> le_halted s then s\<lparr>le_halted := True, le_haltOn := True, le_lastHaltToggle := now\<rparr>
                     else if 150 \<le> now - le_lastHaltToggle s
                       then s\<lparr>le_haltOn := \<not> le_haltOn s, le_lastHaltToggle := now\<rparr>
                     else s)
            in s\<lparr>le_blue := le_haltOn s, le_white := le_haltOn s\<rparr>
          else
            let s = (if provisioned then s\<lparr>le_blue := True\<rparr>
                     else if 500 \<le> now - le_lastBlueToggle s
                       then s\<lparr>le_blue := \<not> le_blue s, le_lastBlueToggle := now\<rparr>
                     else s)
            in s\<lparr>le_white := (now < le_whiteUntil s)\<rparr>)"

text \<open>\<open>cosignLED\<close>: an accepted submission sends a pulse unless one is already queued.\<close>

definition cosignLED :: "bool \<Rightarrow> nat \<Rightarrow> bool \<Rightarrow> bool" where
  "cosignLED isPost code queued = (queued \<or> isPost \<and> code = StatusOK)"

text \<open>\<open>fatal\<close>: the two LEDs in each half period, for ever; the RPMB tool shows the same pattern.\<close>

definition fatal_leds :: "nat \<Rightarrow> bool \<times> bool" where
  "fatal_leds k = (even k, odd k)"

text \<open>
  A halted store takes precedence on the LEDs: after any tick that sees a halt both LEDs show the halt pattern
  together, whatever happened before, and the pattern toggles only every 150 ms.
\<close>

lemma led_halt_precedence:
  "le_blue (led_step s (Tick now True prov)) = le_white (led_step s (Tick now True prov))
   \<and> le_halted (led_step s (Tick now True prov))
   \<and> (\<not> le_halted s \<longrightarrow> le_blue (led_step s (Tick now True prov)))
   \<and> (le_halted s \<and> now - le_lastHaltToggle s < 150 \<longrightarrow>
        le_blue (led_step s (Tick now True prov)) = le_haltOn s)"
  by (simp add: led_step_def Let_def)


section \<open>Storage of a fused unit\<close>

lemma fused_storage:
  assumes "bd_native b" "snvs_secure (bd_soc b)" "main_store ex sd rops (usbarmory kdf b) = Inr (st, persistence)"
  shows "\<exists>rs key anc. st = AnyRollback rs \<and> Derive kdf (bd_soc b) div_State = (Some key, False)
      \<and> newRPMBAnchor kdf b = Inr (anc, ''eMMC RPMB'', False)
      \<and> Open ex 32 (sdDevice sd) (rpmb_anchor_ops rops) (bd_sd b) Offset key anc = Inr rs
      \<and> persistence = ''microSD blob + eMMC RPMB anchor'' @ (if rs_Halted rs then '' - HALTED (rollback/tamper)'' else [])"
proof -
  from assms obtain anc key where
    n: "newStorage kdf b = Storage (bd_sd b) anc key ''microSD blob + eMMC RPMB anchor''"
      "Derive kdf (bd_soc b) div_State = (Some key, False)" "newRPMBAnchor kdf b = Inr (anc, ''eMMC RPMB'', False)"
    using Derive_dev [of kdf "bd_soc b" div_State] Derive_dev [of kdf "bd_soc b" div_RPMB]
    by (auto simp: main_store_def usbarmory_def newStorage_def newRPMBAnchor_def degrade_def
        split: prod.splits option.splits sum.splits if_splits bool.splits)
  with assms(3) show ?thesis by (auto simp: main_store_def usbarmory_def split: sum.splits if_splits)
qed

section \<open>Properties\<close>

text \<open>
  The SD wrapper keeps the contract of a block device although it truncates block numbers to 32 bits, for every driver
  that keeps it and reports its size as an \<open>int\<close>. The store's guarantees therefore hold on it.
\<close>

lemma sdDevice_contract:
  assumes "sd_driver_ok sd mem"
  shows "block_device (sdDevice sd) mem"
proof -
  have bd: "block_device sd mem" using assms by (simp add: sd_driver_ok_def)
  note info = sdDevice_info [OF assms] and lba = sdDevice_lba [OF assms]
  show ?thesis
  proof unfold_locales
    show "dv_info (sdDevice sd) (snd (dv_read (sdDevice sd) d l n)) = dv_info (sdDevice sd) d" for d l n
      by (simp add: info sdDevice_ops block_device.info_read [OF bd])
    show "dv_info (sdDevice sd) (snd (dv_write (sdDevice sd) d l buf)) = dv_info (sdDevice sd) d" for d l buf
      by (simp add: info sdDevice_ops block_device.info_write [OF bd])
    show "mem (snd (dv_read (sdDevice sd) d l n)) = mem d" for d l n
      by (simp add: sdDevice_ops block_device.mem_read [OF bd])
  next
    fix d l n b d' addr
    assume "dv_read (sdDevice sd) d l n = (Some b, d')" and r: "block_region (sdDevice sd) d l n addr"
    then show "b = mem_slice (mem d) addr n"
      using lba [OF r] block_device.read_ok [OF bd] by (metis sdDevice_ops(1))
  next
    fix d l buf d' addr
    assume "dv_write (sdDevice sd) d l buf = (True, d')" and r: "block_region (sdDevice sd) d l (length buf) addr"
    then show "mem_slice (mem d') addr (length buf) = buf"
      using lba [OF r] block_device.write_ok [OF bd] by (metis sdDevice_ops(2))
  next
    fix d l buf ok d' addr a
    assume "dv_write (sdDevice sd) d l buf = (ok, d')" and r: "block_region (sdDevice sd) d l (length buf) addr"
      and "\<not> in_range addr (length buf) a"
    then show "mem d' a = mem d a"
      using lba [OF r] block_device.write_frame [OF bd] by (metis sdDevice_ops(2))
  qed
qed

text \<open>A card of a million blocks of 512 bytes whose contents are a function.\<close>

definition example_sd :: "(int \<Rightarrow> byte) block_ops" where
  "example_sd = \<lparr>dv_info = (\<lambda>m. (512, 2 ^ 20)), dv_read = (\<lambda>m lba n. (Some (mem_slice m (lba * 512) n), m)),
     dv_write = (\<lambda>m lba buf. (True, \<lambda>a. if in_range (lba * 512) (length buf) a then buf ! nat (a - lba * 512) else m a))\<rparr>"

lemma example_sd_ok: "sd_driver_ok example_sd (\<lambda>m. m)"
proof -
  have "block_device example_sd (\<lambda>m. m)"
    by unfold_locales
      (auto simp: example_sd_def block_region_def in_range_def mem_slice_def intro!: nth_equalityI)
  then show ?thesis by (simp add: sd_driver_ok_def) (simp add: example_sd_def)
qed

end
