(* ===== verification/Ram_Log.thy ===== *)
theory Ram_Log
  imports Witness_Store
begin

text \<open>
  The RAM log behind \<open>/logz\<close>, \<^verbatim>\<open>fw/vitrum/logz.go\<close>, and the copy that the RPMB image has of it,
  \<^verbatim>\<open>fw/rpmb-provision/logz.go\<close>, which is proved equal. The time stamp of a line is an argument of \<open>ring_Write\<close>.
\<close>

section \<open>The RAM log\<close>

definition logRingLines :: nat where "logRingLines = 512"

record log_ring =
  lr_lines :: "bytes list"
  lr_n :: u64

definition new_ring :: log_ring where
  "new_ring = \<lparr>lr_lines = replicate logRingLines [], lr_n = 0\<rparr>"

text \<open>\<open>strings.TrimRight(s, "\n")\<close>.\<close>

definition trim_newlines :: "bytes \<Rightarrow> bytes" where
  "trim_newlines s = rev (dropWhile (\<lambda>c. c = nl) (rev s))"

definition ring_Write :: "bytes \<Rightarrow> bytes \<Rightarrow> log_ring \<Rightarrow> log_ring" where
  "ring_Write now p r =
     (let line = now @ '' '' @ trim_newlines p
      in r\<lparr>lr_lines := (lr_lines r)[unat (lr_n r) mod logRingLines := line], lr_n := lr_n r + 1\<rparr>)"

definition ring_lines :: "log_ring \<Rightarrow> bytes list" where
  "ring_lines r =
     (let n = unat (lr_n r); start = (if logRingLines < n then n - logRingLines else 0)
      in map (\<lambda>i. lr_lines r ! (i mod logRingLines)) [start..<n])"

definition ring_ServeHTTP :: "log_ring \<Rightarrow> bytes" where
  "ring_ServeHTTP r = concat (map (\<lambda>line. line @ [nl]) (ring_lines r))"

section \<open>The copy in the RPMB image\<close>

definition rpmb_logRingLines :: nat where "rpmb_logRingLines = 512"

definition rpmb_ring_Write :: "bytes \<Rightarrow> bytes \<Rightarrow> log_ring \<Rightarrow> log_ring" where
  "rpmb_ring_Write now p r =
     (let line = now @ '' '' @ trim_newlines p
      in r\<lparr>lr_lines := (lr_lines r)[unat (lr_n r) mod rpmb_logRingLines := line], lr_n := lr_n r + 1\<rparr>)"

definition rpmb_ring_ServeHTTP :: "log_ring \<Rightarrow> bytes" where
  "rpmb_ring_ServeHTTP r =
     (let n = unat (lr_n r); start = (if rpmb_logRingLines < n then n - rpmb_logRingLines else 0);
          out = map (\<lambda>i. lr_lines r ! (i mod rpmb_logRingLines)) [start..<n]
      in concat (map (\<lambda>line. line @ [nl]) out))"

lemma rpmb_ring_same: "rpmb_ring_Write = ring_Write" "rpmb_ring_ServeHTTP = ring_ServeHTTP"
  by (simp_all add: fun_eq_iff rpmb_ring_Write_def ring_Write_def rpmb_ring_ServeHTTP_def ring_ServeHTTP_def ring_lines_def
      rpmb_logRingLines_def logRingLines_def Let_def)

section \<open>Lemmas on the ring\<close>

lemma length_ring_Write [simp]: "length (lr_lines (ring_Write now p r)) = length (lr_lines r)"
  by (simp add: ring_Write_def Let_def)

text \<open>The ring holds the last lines of everything written.\<close>

definition ring_ok :: "log_ring \<Rightarrow> bytes list \<Rightarrow> bool" where
  "ring_ok r written \<longleftrightarrow> length (lr_lines r) = logRingLines \<and> unat (lr_n r) = length written
     \<and> (\<forall>i < length written. length written \<le> i + logRingLines \<longrightarrow> lr_lines r ! (i mod logRingLines) = written ! i)"

lemma ring_ok_new: "ring_ok new_ring []"
  by (simp add: ring_ok_def new_ring_def)

lemma mod_ring_distinct:
  assumes "i < n" "n < i + k" "0 < (k :: nat)"
  shows "n mod k \<noteq> i mod k"
proof
  assume "n mod k = i mod k"
  then have "(n - i) mod k = 0" using assms(1) by (simp add: mod_eq_dvd_iff_nat less_imp_le dvd_imp_mod_0)
  moreover have "0 < n - i" "n - i < k" using assms by linarith+
  ultimately show False by simp
qed

lemma ring_ok_Write:
  assumes "ring_ok r written" "length written < 2 ^ 64 - 1"
  shows "ring_ok (ring_Write now p r) (written @ [now @ '' '' @ trim_newlines p])"
proof -
  let ?n = "length written"
  have n: "unat (lr_n r) = ?n" "length (lr_lines r) = logRingLines" using assms(1) by (simp_all add: ring_ok_def)
  have "unat (lr_n r + 1) = ?n + 1"
    using assms(2) n(1) by (simp add: unat_plus_if')
  moreover have "lr_lines (ring_Write now p r) ! (i mod logRingLines) = (written @ [now @ '' '' @ trim_newlines p]) ! i"
    if i: "i < ?n + 1" "?n + 1 \<le> i + logRingLines" for i
  proof (cases "i = ?n")
    case True
    then show ?thesis using n by (simp add: ring_Write_def Let_def logRingLines_def)
  next
    case False
    then have lt: "i < ?n" "?n < i + logRingLines" using i by linarith+
    then have "?n mod logRingLines \<noteq> i mod logRingLines"
      by (intro mod_ring_distinct) (simp_all add: logRingLines_def)
    then show ?thesis using assms(1) lt n
      by (simp add: ring_Write_def Let_def ring_ok_def nth_append nth_list_update)
  qed
  ultimately show ?thesis using n by (simp add: ring_ok_def) (simp add: ring_Write_def Let_def)
qed

lemma ring_lines_ok:
  assumes "ring_ok r written"
  shows "ring_lines r = drop (length written - logRingLines) written"
proof (rule nth_equalityI)
  show "length (ring_lines r) = length (drop (length written - logRingLines) written)"
    using assms by (simp add: ring_lines_def ring_ok_def Let_def)
  fix j assume j: "j < length (ring_lines r)"
  have n: "unat (lr_n r) = length written" using assms by (simp add: ring_ok_def)
  let ?start = "length written - logRingLines"
  have "ring_lines r ! j = lr_lines r ! ((?start + j) mod logRingLines)"
    using j n by (auto simp: ring_lines_def Let_def)
  moreover have "?start + j < length written" "length written \<le> ?start + j + logRingLines"
    using j n by (auto simp: ring_lines_def Let_def split: if_splits)
  ultimately show "ring_lines r ! j = drop ?start written ! j"
    using assms by (simp add: ring_ok_def)
qed

lemma ring_fold_ok:
  "ring_ok r written \<Longrightarrow> length written + length ws < 2 ^ 64 \<Longrightarrow>
   ring_ok (foldl (\<lambda>r (now, p). ring_Write now p r) r ws)
     (written @ map (\<lambda>(now, p). now @ '' '' @ trim_newlines p) ws)"
proof (induction ws arbitrary: r written)
  case (Cons a ws)
  obtain now p where a: "a = (now, p)" by (cases a)
  have "length written < 2 ^ 64 - 1" using Cons.prems(2) by simp
  with Cons.prems(1) have "ring_ok (ring_Write now p r) (written @ [now @ '' '' @ trim_newlines p])"
    by (rule ring_ok_Write)
  from Cons.IH [OF this] Cons.prems(2) show ?case by (simp add: a)
qed simp

text \<open>
  The RAM log serves exactly the last 512 lines in the order they were written, each stamped and without its
  trailing newlines, for every sequence of writes that does not wrap the 64-bit line counter.
\<close>

lemma logz_serves_last_lines:
  assumes "length ws < 2 ^ 64"
  shows "ring_ServeHTTP (foldl (\<lambda>r (now, p). ring_Write now p r) new_ring ws) =
    concat (map (\<lambda>(now, p). now @ '' '' @ trim_newlines p @ [nl]) (drop (length ws - logRingLines) ws))"
proof -
  have "ring_ok (foldl (\<lambda>r (now, p). ring_Write now p r) new_ring ws) (map (\<lambda>(now, p). now @ '' '' @ trim_newlines p) ws)"
    using ring_fold_ok [OF ring_ok_new, of ws] assms by simp
  from ring_lines_ok [OF this] show ?thesis
    by (simp add: ring_ServeHTTP_def drop_map comp_def case_prod_unfold)
qed

end
