(* ===== verification/Firmware_Services.thy ===== *)
theory Firmware_Services
  imports Firmware Hab Ram_Log Provision_Server Example_Run
begin

text \<open>
  The services of the firmware image and its start: \<open>startSSH\<close> of \<^verbatim>\<open>fw/vitrum/ssh.go\<close>, \<open>main\<close> and the health page of
  \<^verbatim>\<open>fw/vitrum/main.go\<close>. Network bring-up and the two listeners are arguments (whether they succeed); the JSON
  encoding of the page is left out, so the page is a record.
\<close>

section \<open>The SSH server\<close>

datatype ssh_error = HostKeyDerivation | ServerConfig config_error | SshListen

text \<open>\<open>imx6ul.ARM.SetTime(sec * int64(time.Second))\<close>: the product is an \<open>int64\<close>.\<close>

definition arm_SetTime :: "int \<Rightarrow> int" where
  "arm_SetTime sec = int64 (sec * time_Second)"

definition startSSH :: "signer_lib \<Rightarrow> ('c, 'r) target \<Rightarrow> bool \<Rightarrow> int \<Rightarrow> int \<Rightarrow> ssh_error + server" where
  "startSSH lib tgt listen22 start now =
     (case ta_hostKeySeed tgt of
        None \<Rightarrow> Inl HostKeyDerivation
      | Some (seed, src) \<Rightarrow>
          (case NewServer lib \<lparr>cfg_HostSeed = seed, cfg_Witness = True, cfg_SetTime = Some arm_SetTime, cfg_Start = Some start\<rparr> now of
             Inl e \<Rightarrow> Inl (ServerConfig e)
           | Inr srv \<Rightarrow> if \<not> listen22 then Inl SshListen else Inr srv))"

section \<open>The start of the image\<close>

datatype fatal_error = FatalStore boot_error | FatalNetInit | FatalListen | FatalSSH ssh_error

text \<open>
  \<open>main\<close> up to the interrupt loop. \<open>fatal\<close> blocks only the calling goroutine: after the HTTP listener is up, the witness
  goes on serving HTTP while the LEDs show the failure.
\<close>

datatype ('c, 'r) image =
    Halted_Image fatal_error
  | Http_Only fatal_error "('c, 'r) any_store witness" bytes
  | Running "('c, 'r) any_store witness" bytes server

definition image_main :: "external \<Rightarrow> 'c block_ops \<Rightarrow> 'r rpmb_ops \<Rightarrow> signer_lib \<Rightarrow> ('c, 'r) target \<Rightarrow>
    bool \<Rightarrow> bool \<Rightarrow> bool \<Rightarrow> int \<Rightarrow> int \<Rightarrow> ('c, 'r) image" where
  "image_main ex sd rops lib tgt netInit listen80 listen22 start now =
     (case main_store ex sd rops tgt of
        Inl e \<Rightarrow> Halted_Image (FatalStore e)
      | Inr (st, persistence) \<Rightarrow>
          let w = New st
          in if \<not> netInit then Halted_Image FatalNetInit
             else if \<not> listen80 then Halted_Image FatalListen
             else case startSSH lib tgt listen22 start now of
                    Inl e \<Rightarrow> Http_Only (FatalSSH e) w persistence
                  | Inr srv \<Rightarrow> Running w persistence srv)"

fun image_witness :: "('c, 'r) image \<Rightarrow> (('c, 'r) any_store witness \<times> bytes) option" where
  "image_witness (Halted_Image e) = None"
| "image_witness (Http_Only e w p) = Some (w, p)"
| "image_witness (Running w p srv) = Some (w, p)"

section \<open>The health page\<close>

text \<open>What the page takes from the platform: build texts, the two clocks as text, and the format of a time stamp.\<close>

record platform_texts =
  pt_banner :: bytes
  pt_revision :: bytes
  pt_now :: bytes
  pt_uptime :: bytes
  pt_rfc3339nano :: "int \<Rightarrow> bytes"

record health =
  hz_banner :: bytes
  hz_target :: bytes
  hz_snvs_secure :: bool
  hz_dev :: bool
  hz_provisioned :: bool
  hz_halted :: bool
  hz_witness_key :: bytes
  hz_persistence :: bytes
  hz_time :: bytes
  hz_uptime :: bytes
  hz_revision :: bytes
  hz_logs :: "(bytes, int) gomap"
  hz_hab :: hab_status
  hz_running :: bool
  hz_pending :: nat
  hz_sequencing :: nat
  hz_committed :: u64
  hz_failed :: u64
  hz_last_commit :: bytes
  hz_generation :: "u32 option"

definition healthz :: "platform_texts \<Rightarrow> ('c, 'r) target \<Rightarrow> ('s, 'e) store_ops \<Rightarrow> (signer_ref \<Rightarrow> bytes) \<Rightarrow> hab_status \<Rightarrow>
    bytes \<Rightarrow> 's witness \<Rightarrow> health" where
  "healthz pt tgt sops vs hab persistence w =
     (let (snvsSecure, dev) = ta_security tgt;
          sizes = map_put_all [] (map (\<lambda>(origin, s). (origin, ls_Size s)) (Logs sops w));
          st = Status sops w;
          lastCommit = (case sx_LastCommit st of None \<Rightarrow> [] | Some t \<Rightarrow> pt_rfc3339nano pt t)
      in \<lparr>hz_banner = pt_banner pt, hz_target = ta_name tgt, hz_snvs_secure = snvsSecure, hz_dev = dev,
          hz_provisioned = Provisioned w, hz_halted = w_Halted sops w, hz_witness_key = Verifier vs w,
          hz_persistence = persistence, hz_time = pt_now pt, hz_uptime = pt_uptime pt, hz_revision = pt_revision pt,
          hz_logs = sizes, hz_hab = hab,
          hz_running = sx_SequencerRunning st, hz_pending = sx_Pending st, hz_sequencing = sx_Sequencing st,
          hz_committed = sx_BatchesCommitted st, hz_failed = sx_BatchesFailed st, hz_last_commit = lastCommit,
          hz_generation = (if sx_HasGeneration st then Some (sx_Generation st) else None)\<rparr>)"

section \<open>Routing\<close>

text \<open>
  The handler of the image: the log and the health page on their own paths, everything else to the witness, whose accepted
  submissions queue a pulse of the white LED. An admitted submission is answered when its entry is done.
\<close>

datatype page = PageLog bytes | PageHealth health | PageWitness http_response | PagePending entry_ref

definition image_handler :: "external \<Rightarrow> ('s, 'e) store_ops \<Rightarrow> log_ring \<Rightarrow> ('s witness \<Rightarrow> health) \<Rightarrow> http_request \<Rightarrow>
    's witness \<Rightarrow> bool \<Rightarrow> page \<times> 's witness \<times> bool" where
  "image_handler ex sops logz page rq w pulse =
     (if is_get rq \<and> hq_path rq = ''/logz'' then (PageLog (ring_ServeHTTP logz), w, pulse)
      else if is_get rq \<and> hq_path rq = ''/healthz'' then (PageHealth (page w), w, pulse)
      else case Handler ex sops rq w of
             (Inl r, w') \<Rightarrow> (PageWitness r, w', cosignLED (hq_method rq = ''POST'') (hr_code r) pulse)
           | (Inr e, w') \<Rightarrow> (PagePending e, w', pulse))"

definition image_answer :: "'s witness \<Rightarrow> entry_ref \<Rightarrow> bool \<Rightarrow> (http_response \<times> bool) option" where
  "image_answer w r pulse = map_option (\<lambda>res. (res, cosignLED True (hr_code res) pulse)) (await_response w r)"

text \<open>The LED pulses for cosigned submissions only: an answer that was not waited for queues no pulse.\<close>

lemma no_pulse_without_wait:
  assumes "image_handler ex sops logz page rq w pulse = (p, w', pulse')"
  shows "pulse' = pulse"
  using assms Handler_direct(2) [of ex sops rq w]
  by (auto simp: image_handler_def cosignLED_def split: if_splits prod.splits sum.splits)

section \<open>Lemmas\<close>

lemma arm_SetTime_exact: "0 \<le> sec \<Longrightarrow> sec < 2 ^ 63 \<Longrightarrow> arm_SetTime sec = sec * time_Second \<longleftrightarrow> sec \<le> 9223372036"
proof -
  assume sec: "0 \<le> sec" "sec < 2 ^ 63"
  show ?thesis
  proof (cases "sec \<le> 9223372036")
    case True
    then have "int64 (sec * time_Second) = sec * time_Second" using sec(1) by (intro go_int_id) (auto simp: time_Second_def)
    with True show ?thesis by (simp add: arm_SetTime_def)
  next
    case False
    then have "2 ^ 63 \<le> sec * time_Second" by (simp add: time_Second_def)
    moreover have "int64 (sec * time_Second) < 2 ^ 63" using go_int_bounds [of 64 "sec * time_Second"] by simp
    ultimately show ?thesis using False by (auto simp: arm_SetTime_def)
  qed
qed

lemma startSSH_InrD:
  assumes "startSSH lib tgt listen22 start now = Inr srv"
  shows "cfg_SetTime (sv_cfg srv) = Some arm_SetTime" "sv_start srv = start" "sv_priv srv = None"
    "\<exists>seed src. ta_hostKeySeed tgt = Some (seed, src) \<and> length seed = SeedSize \<and> sl_hostKey lib seed = Some (sv_hostKey srv)"
  using assms by (auto simp: startSSH_def NewServer_def Let_def split: option.splits sum.splits if_splits)

lemma map_of_sizes: "wf_map m \<Longrightarrow> map_of (map_put_all [] (map (\<lambda>(origin, s). (origin, ls_Size s)) m)) = map_option ls_Size \<circ> map_of m"
proof -
  assume m: "wf_map m"
  have "map fst (map (\<lambda>(origin, s). (origin, ls_Size s)) m) = map fst m" by (simp add: case_prod_unfold)
  with m have "wf_map (map (\<lambda>(origin, s). (origin, ls_Size s)) m)" by (simp only: wf_map_def)
  then show ?thesis by (simp add: gomap_simps map_of_map)
qed

text \<open>A fused image that serves requests: its witness is fresh and on the store that \<open>Open\<close> gave.\<close>

lemma image_witness_fused:
  assumes "bd_native b" "snvs_secure (bd_soc b)"
    "image_witness (image_main ex sd rops lib (usbarmory kdf b) netInit listen80 listen22 start now) = Some (w, persistence)"
  shows "\<exists>rs key anc. w = New (AnyRollback rs) \<and> Derive kdf (bd_soc b) div_State = (Some key, False)
      \<and> newRPMBAnchor kdf b = Inr (anc, ''eMMC RPMB'', False)
      \<and> Open ex 32 (sdDevice sd) (rpmb_anchor_ops rops) (bd_sd b) Offset key anc = Inr rs
      \<and> persistence = ''microSD blob + eMMC RPMB anchor'' @ (if rs_Halted rs then '' - HALTED (rollback/tamper)'' else [])"
proof -
  from assms(3) obtain st where st: "main_store ex sd rops (usbarmory kdf b) = Inr (st, persistence)" "w = New st"
    by (auto simp: image_main_def Let_def split: sum.splits prod.splits if_splits)
  from fused_storage [OF assms(1,2) st(1)] show ?thesis using st(2) by blast
qed

section \<open>Properties\<close>

text \<open>
  C11: A fused unit never runs without rollback protection or with a weaker identity: on native hardware with a secure SNVS,
  whenever the image serves requests at all, its witness is on the persistent store, opened on the SD card with the state
  key of this device and the RPMB anchor under its RPMB key, neither marked DEV; and when the SSH server runs, it
  presents the host key derived on this device.
\<close>

theorem fused_never_ram_only:
  assumes "bd_native b" "snvs_secure (bd_soc b)"
    "image_witness (image_main ex sd rops lib (usbarmory kdf b) netInit listen80 listen22 start now) = Some (w, persistence)"
  shows "(\<exists>rs key anc. w = New (AnyRollback rs) \<and> Derive kdf (bd_soc b) div_State = (Some key, False)
      \<and> newRPMBAnchor kdf b = Inr (anc, ''eMMC RPMB'', False)
      \<and> Open ex 32 (sdDevice sd) (rpmb_anchor_ops rops) (bd_sd b) Offset key anc = Inr rs
      \<and> persistence = ''microSD blob + eMMC RPMB anchor'' @ (if rs_Halted rs then '' - HALTED (rollback/tamper)'' else []))
    \<and> (\<forall>srv. image_main ex sd rops lib (usbarmory kdf b) netInit listen80 listen22 start now = Running w persistence srv \<longrightarrow>
        (\<exists>seed. Derive kdf (bd_soc b) div_HostKey = (Some seed, False) \<and> sl_hostKey lib seed = Some (HostPublicKey srv)))"
proof
  let ?tgt = "usbarmory kdf b"
  show "\<exists>rs key anc. w = New (AnyRollback rs) \<and> Derive kdf (bd_soc b) div_State = (Some key, False)
      \<and> newRPMBAnchor kdf b = Inr (anc, ''eMMC RPMB'', False)
      \<and> Open ex 32 (sdDevice sd) (rpmb_anchor_ops rops) (bd_sd b) Offset key anc = Inr rs
      \<and> persistence = ''microSD blob + eMMC RPMB anchor'' @ (if rs_Halted rs then '' - HALTED (rollback/tamper)'' else [])"
    by (rule image_witness_fused [OF assms])
  show "\<forall>srv. image_main ex sd rops lib ?tgt netInit listen80 listen22 start now = Running w persistence srv \<longrightarrow>
      (\<exists>seed. Derive kdf (bd_soc b) div_HostKey = (Some seed, False) \<and> sl_hostKey lib seed = Some (HostPublicKey srv))"
  proof (intro allI impI)
    fix srv
    assume "image_main ex sd rops lib ?tgt netInit listen80 listen22 start now = Running w persistence srv"
    then have "startSSH lib ?tgt listen22 start now = Inr srv"
      by (auto simp: image_main_def Let_def split: sum.splits prod.splits if_splits)
    from startSSH_InrD(4) [OF this] show "\<exists>seed. Derive kdf (bd_soc b) div_HostKey = (Some seed, False) \<and> sl_hostKey lib seed = Some (HostPublicKey srv)"
      using Derive_dev [of kdf "bd_soc b" div_HostKey] assms(2)
      by (auto simp: usbarmory_def hostKeySeed_def HostPublicKey_def split: prod.splits option.splits)
  qed
qed

text \<open>A fused board with a blank card and a factory-new anchor.\<close>

definition blank_card :: "int \<Rightarrow> byte" where
  "blank_card = (\<lambda>_. CHR 0x00)"

definition example_board :: "(int \<Rightarrow> byte, nat \<Rightarrow> bytes) board" where
  "example_board = \<lparr>bd_native = True,
     bd_soc = \<lparr>so_snvs = Some True, so_caam = Some (\<lambda>d buf. Some buf), so_dcp = None, so_uid = []\<rparr>,
     bd_sd = blank_card, bd_sdDetect = True, bd_mmcDetect = True, bd_rpmbInit = (\<lambda>key s dummy. Some example_card),
     bd_rpmbCounter = (\<lambda>r auth. (True, r))\<rparr>"

definition example_kdf :: pbkdf2 where
  "example_kdf = (\<lambda>pw salt n len. Some (make_bytes len))"

definition example_opened :: "(int \<Rightarrow> byte, nat \<Rightarrow> bytes) rollback_store" where
  "example_opened = \<lparr>rs_mem = [], rs_dev = blank_card, rs_off = Offset, rs_key = make_bytes 32,
     rs_anchor = example_card, rs_gen = 0, rs_halted = False\<rparr>"

lemma example_sd_slotLBA: "slot < 2 \<Longrightarrow> slotLBA (sdDevice example_sd) m Offset slot = Inr (32768 + int slot * 128)"
  by (cases slot) (auto simp: slotLBA_def sdDevice_def example_sd_def Offset_def SlotSize_def go_int_def signed_modulo_int_def
      signed_divide_int_def Let_def less_Suc_eq numeral_2_eq_2)

lemma blank_card_slice: "mem_slice blank_card base n = make_bytes n"
  by (simp add: mem_slice_def blank_card_def make_bytes_def map_replicate_const)

lemma example_sd_load: "load cr 32 (sdDevice example_sd) blank_card Offset (make_bytes 32) = (Inl ErrNoState, blank_card)"
proof -
  have "loadSlot cr 32 (sdDevice example_sd) blank_card Offset slot (make_bytes 32) = (Inl BadMagic, blank_card)" if "slot < 2" for slot
    using that by (simp add: loadSlot_def example_sd_slotLBA sdDevice_ops) (simp add: example_sd_def blank_card_slice parseSlot_blank)
  then show ?thesis by (simp add: load_def newer_def StateKeyLen_def make_bytes_def)
qed

lemma example_board_runs:
  "\<exists>srv. image_main example_ext example_sd sector_ops example_lib (usbarmory example_kdf example_board) True True True 0 0
     = Running (New (AnyRollback example_opened)) ''microSD blob + eMMC RPMB anchor'' srv"
proof -
  have "Open example_ext 32 (sdDevice example_sd) (rpmb_anchor_ops sector_ops) blank_card Offset (make_bytes 32) example_card
      = Inr example_opened"
    by (simp add: Open_def rpmb_anchor_ops_def example_Anchor example_sd_load fresh_anchor_def example_opened_def NewMemStore_def)
  then show ?thesis
    by (simp add: image_main_def main_store_def usbarmory_def newStorage_def newRPMBAnchor_def example_board_def Derive_def
        stretchKey_def example_kdf_def keyLen_def rs_Halted_def startSSH_def hostKeySeed_def NewServer_def SeedSize_def
        example_lib_def Let_def) (simp add: example_opened_def make_bytes_def)
qed

theorem fused_never_ram_only_witness:
  "\<exists>w srv rs. image_main example_ext example_sd sector_ops example_lib (usbarmory example_kdf example_board) True True True 0 0
     = Running w ''microSD blob + eMMC RPMB anchor'' srv \<and> w = New (AnyRollback rs) \<and> \<not> rs_Halted rs"
proof -
  obtain w srv where r: "image_main example_ext example_sd sector_ops example_lib (usbarmory example_kdf example_board)
      True True True 0 0 = Running w ''microSD blob + eMMC RPMB anchor'' srv" using example_board_runs by blast
  have iw: "image_witness (image_main example_ext example_sd sector_ops example_lib (usbarmory example_kdf example_board)
      True True True 0 0) = Some (w, ''microSD blob + eMMC RPMB anchor'')" using r by simp
  have b: "bd_native example_board" "snvs_secure (bd_soc example_board)"
    by (simp_all add: example_board_def snvs_secure_def)
  from fused_never_ram_only [OF b iw] r show ?thesis by (auto split: if_splits)
qed

text \<open>
  C39: The clock of the firmware wraps. A \<open>settime\<close> that the server accepts (any non-negative int64) reports success, and the
  clock then shows the given time exactly when the seconds are at most 9223372036 (the year 2262); beyond that the
  product with the nanoseconds of a second overflows.
\<close>

theorem settime_exact_until_2262:
  assumes "startSSH lib tgt True start now = Inr srv" "0 \<le> sec" "sec < 2 ^ 63" "settime lib [format_int sec] srv = (r, srv')"
  shows "r = Inr (''time '' @ now_text lib srv' @ [nl]) \<and> (sv_clock srv' = sec * time_Second) = (sec \<le> 9223372036)"
proof -
  have "parse_int64 (format_int sec) = Some sec" using assms(2,3) by (intro parse_int64_format_int) auto
  with assms startSSH_InrD(1) [OF assms(1)] have "srv' = srv\<lparr>sv_clock := arm_SetTime sec\<rparr>" "r = Inr (''time '' @ now_text lib srv' @ [nl])"
    by (auto simp: settime_def Let_def)
  with arm_SetTime_exact [OF assms(2,3)] show ?thesis by simp
qed

theorem settime_exact_until_2262_witness:
  "\<exists>srv srv' out. startSSH example_lib (mx6ullevk (make_bytes 32) :: (unit, unit) target) True 0 0 = Inr srv
     \<and> settime example_lib [format_int 9223372037] srv = (Inr out, srv') \<and> sv_clock srv' \<noteq> 9223372037 * time_Second"
proof -
  obtain srv where s: "startSSH example_lib (mx6ullevk (make_bytes 32) :: (unit, unit) target) True 0 0 = Inr srv"
    by (simp add: startSSH_def mx6ullevk_def NewServer_def SeedSize_def example_lib_def make_bytes_def Let_def)
  obtain r srv' where t: "settime example_lib [format_int 9223372037] srv = (r, srv')" by fastforce
  from settime_exact_until_2262 [OF s _ _ t] s t show ?thesis by auto
qed

text \<open>
  C40: The health page tells the truth about the witness: the size it shows for a log is the size of the committed state
  and no log is missing; when it shows the witness halted or not provisioned, every submission is answered with 503; and a
  generation is shown exactly for the persistent store, whose generation it is.
\<close>

theorem health_page_truthful:
  fixes w :: "('c, 'r) any_store witness"
  assumes "any_inv (w_store w)" "sops = any_store_ops (ex_crypto ex) dops aops" "h = healthz pt tgt sops vs hab persistence w"
  shows "map_of (hz_logs h) = map_option ls_Size \<circ> st_Get sops (w_store w)
    \<and> (hz_halted h \<or> \<not> hz_provisioned h \<longrightarrow> (\<exists>resp. AddCheckpoint ex sops w body = (Inl (StatusServiceUnavailable, resp), w)))
    \<and> hz_generation h = (case w_store w of AnyMem m \<Rightarrow> None | AnyRollback rs \<Rightarrow> Some (rs_gen rs))"
proof (intro conjI)
  have wf: "wf_map (st_All sops (w_store w))"
    using assms(1) unfolding assms(2)
    by (cases "w_store w") (simp_all add: mem_store_ops_def rollback_store_ops_def rs_All_def ms_All_def)
  show "map_of (hz_logs h) = map_option ls_Size \<circ> st_Get sops (w_store w)"
    using anystore.all_get [OF assms(1), of "ex_crypto ex" dops aops] map_of_sizes [OF wf]
    by (simp add: assms(2,3) healthz_def Logs_def Let_def case_prod_unfold)
  show "hz_halted h \<or> \<not> hz_provisioned h \<longrightarrow> (\<exists>resp. AddCheckpoint ex sops w body = (Inl (StatusServiceUnavailable, resp), w))"
    by (auto simp: assms(3) healthz_def AddCheckpoint_def Provisioned_def Let_def split: prod.splits option.splits)
  show "hz_generation h = (case w_store w of AnyMem m \<Rightarrow> None | AnyRollback rs \<Rightarrow> Some (rs_gen rs))"
    by (simp add: assms(2,3) healthz_def Status_def any_store_ops_def mem_store_ops_def rollback_store_ops_def rs_Generation_def
        Let_def case_prod_unfold split: any_store.split)
qed

definition example_texts :: platform_texts where
  "example_texts = \<lparr>pt_banner = ''vitrum'', pt_revision = ''unknown'', pt_now = [], pt_uptime = [], pt_rfc3339nano = format_int\<rparr>"

theorem health_page_truthful_witness:
  "map_of (hz_logs (healthz example_texts (mx6ullevk [] :: (mem_device, nat \<Rightarrow> bytes) target)
       (any_store_ops example_crypto mem_ops (rpmb_anchor_ops sector_ops)) (\<lambda>_. []) evk_Report ''none (RAM only)''
       (New (AnyMem [(''o'', example_state)]) :: (mem_device, nat \<Rightarrow> bytes) any_store witness))) ''o'' = Some 1"
proof -
  let ?w = "New (AnyMem [(''o'', example_state)]) :: (mem_device, nat \<Rightarrow> bytes) any_store witness"
  let ?sops = "any_store_ops example_crypto mem_ops (rpmb_anchor_ops sector_ops)"
  have inv: "any_inv (w_store ?w)" by (simp add: New_def wf_map_def)
  have "map_of (hz_logs (healthz example_texts (mx6ullevk [] :: (mem_device, nat \<Rightarrow> bytes) target) ?sops (\<lambda>_. []) evk_Report
      ''none (RAM only)'' ?w)) = map_option ls_Size \<circ> st_Get ?sops (w_store ?w)"
    by (rule conjunct1 [OF health_page_truthful [where ex = example_ext, OF inv _ refl]]) simp
  then show ?thesis by (simp add: New_def mem_store_ops_def ms_Get_def example_state_def)
qed

end
