(* ===== verification/Firmware_Device.thy ===== *)
theory Firmware_Device
  imports Firmware_Services
begin

text \<open>
  The firmware image against the life of a device: on fused hardware, everything the running image does is a run of
  \<open>dstep\<close> on the platform that the image assembled (SD wrapper, RPMB anchor, derived state key). So the
  guarantees of the device model, across boots and under an adversary on the medium, hold of the image.
\<close>

definition image_start :: "('c, 'r) any_store witness \<Rightarrow> ('c, 'r) any_store wsys" where
  "image_start w = \<lparr>ws_w = w, ws_phase = Seq_Idle, ws_log = []\<rparr>"

lemma nonce_ok_rand_read: "nonce_ok (rand_read rnd)"
  by (auto simp: nonce_ok_def rand_read_def make_bytes_def)

lemma dreach_trans: "dreach ex pf D1 D2 \<Longrightarrow> dreach ex pf D0 D1 \<Longrightarrow> dreach ex pf D0 D2"
  by (induction rule: dreach.induct) (auto intro: dreach.step)

text \<open>One step of the witness on the interface value is one step of the device.\<close>

lemma image_step:
  assumes "ds_power D = On S"
    "wstep ex (any_store_ops (ex_crypto ex) (pf_dops pf) (pf_aops pf)) (map_wsys AnyRollback S) T"
  shows "\<exists>S' D'. T = map_wsys AnyRollback S' \<and> dstep ex pf D D' \<and> ds_power D' = On S' \<and> ds_past D' = ds_past D"
proof -
  have pf: "pf_sops ex pf = rollback_store_ops (ex_crypto ex) (pf_dops pf) (pf_aops pf)" by (simp add: pf_sops_def)
  from anyrollback.step_lift [OF assms(2)] obtain S' where S': "T = map_wsys AnyRollback S'"
    "commit_step ex (pf_sops ex pf) rand_read S S'
     \<or> wstep ex (pf_sops ex pf) S S' \<and> w_store (ws_w S') = w_store (ws_w S) \<and> ws_log S' = ws_log S"
    unfolding pf by blast
  from S'(2) have "\<exists>D'. dstep ex pf D D' \<and> ds_power D' = On S' \<and> ds_past D' = ds_past D"
  proof (elim disjE conjE)
    assume "commit_step ex (pf_sops ex pf) rand_read S S'"
    then obtain p env now t where c: "ws_phase S = Seq_Swapped p"
      "S' = S\<lparr>ws_w := sequencePool ex (pf_sops ex pf) (rand_read env) now t p (ws_w S), ws_phase := Seq_Committed p,
         ws_log := ws_log S @ committed_batch ex (pf_sops ex pf) (rand_read env) now p (ws_w S)\<rparr>"
      unfolding commit_step_def by blast
    let ?D' = "D\<lparr>ds_power := On S', ds_sealed := ds_sealed D \<union> run_seals ex pf (rand_read env) now p (ws_w S)\<rparr>"
    have "dstep ex pf D ?D'" by (rule dstep.commit [OF assms(1) c(1) nonce_ok_rand_read c(2)])
    then show ?thesis by (intro exI [of _ ?D']) simp
  next
    assume "wstep ex (pf_sops ex pf) S S'" "w_store (ws_w S') = w_store (ws_w S)" "ws_log S' = ws_log S"
    then have "dstep ex pf D (D\<lparr>ds_power := On S'\<rparr>)" by (rule dstep.run [OF assms(1)])
    then show ?thesis by (intro exI [of _ "D\<lparr>ds_power := On S'\<rparr>"]) simp
  qed
  with S'(1) show ?thesis by blast
qed

lemma image_reach:
  assumes "wreach ex (any_store_ops (ex_crypto ex) (pf_dops pf) (pf_aops pf)) (map_wsys AnyRollback S0) T" "ds_power D0 = On S0"
  shows "\<exists>S D. T = map_wsys AnyRollback S \<and> dreach ex pf D0 D \<and> ds_power D = On S \<and> ds_past D = ds_past D0"
  using assms(1)
proof (induction rule: wreach.induct)
  case init
  then show ?case using assms(2) dreach.init by blast
next
  case (step T T')
  then obtain S D where T: "T = map_wsys AnyRollback S" "dreach ex pf D0 D" "ds_power D = On S" "ds_past D = ds_past D0"
    by blast
  from image_step [OF T(3)] step.hyps(2) T(1) obtain S' D' where
    "T' = map_wsys AnyRollback S'" "dstep ex pf D D'" "ds_power D' = On S'" "ds_past D' = ds_past D" by metis
  with T show ?case by (auto intro: dreach.step)
qed

lemma image_simulation:
  assumes "bd_native b" "snvs_secure (bd_soc b)" "Derive kdf (bd_soc b) div_State = (Some key, dev)"
    "newRPMBAnchor kdf b = Inr (anc, desc, dev')" "pf = device_platform (sdDevice sd) mem rops content key"
    "ds_power D = Off (bd_sd b) anc" "medium_ok ex pf (ds_sealed D) (bd_sd b)" "collision_free ex pf (ds_sealed D)"
    "image_witness (image_main ex sd rops lib (usbarmory kdf b) netInit listen80 listen22 start now) = Some (w, persistence)"
    "wreach ex (any_store_ops (ex_crypto ex) (sdDevice sd) (rpmb_anchor_ops rops)) (image_start w) T"
  shows "\<exists>S D'. T = map_wsys AnyRollback S \<and> dreach ex pf D D' \<and> ds_power D' = On S \<and> ds_past D' = ds_past D"
proof -
  from image_witness_fused [OF assms(1,2,9)] assms(3,4) obtain rs where
    w: "w = New (AnyRollback rs)" and o: "Open ex 32 (sdDevice sd) (rpmb_anchor_ops rops) (bd_sd b) Offset key anc = Inr rs"
    by auto
  let ?D = "D\<lparr>ds_power := On (winit rs)\<rparr>"
  have "pf_Open ex pf (bd_sd b) anc = Inr rs" using o by (simp add: pf_Open_def assms(5))
  then have boot: "dstep ex pf D ?D" by (rule dstep.boot [OF assms(6-8)])
  have "image_start w = map_wsys AnyRollback (winit rs)" by (simp add: image_start_def map_wsys_def winit_def w map_witness_New)
  then have "wreach ex (any_store_ops (ex_crypto ex) (pf_dops pf) (pf_aops pf)) (map_wsys AnyRollback (winit rs)) T"
    using assms(10) by (simp add: assms(5))
  from image_reach [OF this, of ?D] obtain S D' where
    "T = map_wsys AnyRollback S" "dreach ex pf ?D D'" "ds_power D' = On S" "ds_past D' = ds_past D" by auto
  with boot show ?thesis by (blast intro: dreach_trans dreach.step dreach.init)
qed

text \<open>The log of all power cycles, the running one included, is a chain per origin.\<close>

lemma image_log_ok:
  assumes "bd_native b" "snvs_secure (bd_soc b)" "Derive kdf (bd_soc b) div_State = (Some key, dev)"
    "newRPMBAnchor kdf b = Inr (anc, desc, dev')" "pf = device_platform (sdDevice sd) mem rops content key"
    "ds_power D = Off (bd_sd b) anc" "medium_ok ex pf (ds_sealed D) (bd_sd b)" "collision_free ex pf (ds_sealed D)"
    "image_witness (image_main ex sd rops lib (usbarmory kdf b) netInit listen80 listen22 start now) = Some (w, persistence)"
    "wreach ex (any_store_ops (ex_crypto ex) (sdDevice sd) (rpmb_anchor_ops rops)) (image_start w) T"
    and contracts: "sd_driver_ok sd mem" "rpmb_driver_ok rops content" "sign_ok ex" "crypto_ok (ex_crypto ex)"
    and history: "dinv ex pf D"
  shows "\<exists>V. log_ok ex V (ds_past D @ ws_log T)"
proof -
  from image_simulation [OF assms(1-10)] obtain S D' where
    D': "T = map_wsys AnyRollback S" "dreach ex pf D D'" "ds_power D' = On S" "ds_past D' = ds_past D" by blast
  have "rollback_platform pf"
    unfolding assms(5) by (rule device_platform_contract [OF sdDevice_contract [OF contracts(1)] contracts(2)])
  from rollback_platform.dinv_dreach [OF this D'(2) history contracts(3,4)]
  obtain V where "log_ok ex V (ds_log D')" by (auto simp: dinv_def)
  moreover have "ds_log D' = ds_past D @ ws_log T" using D' by (simp add: ds_log_def)
  ultimately show ?thesis by auto
qed

section \<open>The example board\<close>

text \<open>The example board, powered off since the factory.\<close>

abbreviation example_image_pf :: "(int \<Rightarrow> byte, nat \<Rightarrow> bytes) platform" where
  "example_image_pf \<equiv> device_platform (sdDevice example_sd) (\<lambda>m. m) sector_ops (\<lambda>r. r) (make_bytes 32)"

abbreviation example_off :: "(int \<Rightarrow> byte, nat \<Rightarrow> bytes) device_sys" where
  "example_off \<equiv> factory blank_card example_card"

lemma example_board_facts:
  "bd_native example_board" "snvs_secure (bd_soc example_board)"
  "Derive example_kdf (bd_soc example_board) div_State = (Some (make_bytes 32), False)"
  "newRPMBAnchor example_kdf example_board = Inr (example_card, ''eMMC RPMB'', False)"
  by (simp_all add: example_board_def snvs_secure_def Derive_def stretchKey_def example_kdf_def keyLen_def newRPMBAnchor_def)

lemma example_off_facts:
  "ds_power example_off = Off (bd_sd example_board) example_card"
  "medium_ok example_ext example_image_pf (ds_sealed example_off) (bd_sd example_board)"
  "collision_free example_ext example_image_pf (ds_sealed example_off)"
  by (simp_all add: factory_def example_board_def collision_free_def medium_ok_def slot_bytes_def blank_card_slice
      blank_slot_forgery_free)

lemma example_image_witness:
  "image_witness (image_main example_ext example_sd sector_ops example_lib (usbarmory example_kdf example_board) True True True 0 0)
     = Some (New (AnyRollback example_opened), ''microSD blob + eMMC RPMB anchor'')"
  using example_board_runs by auto

lemma example_opened_PutBatch:
  "fst (st_PutBatch (any_store_ops example_crypto (sdDevice example_sd) (rpmb_anchor_ops sector_ops)) (Some example_nonce)
     (AnyRollback example_opened) example_ups) = None"
proof -
  have enc: "encode (next_notes (rs_All example_opened) example_ups) = Inr (encode_entry ''o'' (ls_Note example_state))"
    by (simp add: encode_def next_notes_def rs_All_def ms_All_def example_opened_def encode_keys_Cons state_of_def
        example_state_def example_text_def)
  have "length (cr_seal example_crypto k n (encode_entry ''o'' (ls_Note example_state)) aad) = 27" for k n aad
    by (simp add: example_crypto_def encode_entry_def example_state_def example_text_def)
  moreover have "slotLBA (sdDevice example_sd) blank_card Offset (unat (1 :: u32) mod 2) = Inr 32896"
    using example_sd_slotLBA [of 1] by simp
  moreover have "newAEAD (make_bytes 32) = None" by (simp add: newAEAD_def StateKeyLen_def make_bytes_def)
  moreover have "\<exists>nonce. rand_read (Some example_nonce) = Some nonce" by (simp add: rand_read_def)
  moreover have "fst (dv_write (sdDevice example_sd) c lba buf)" for c lba buf
    by (simp add: sdDevice_ops) (simp add: example_sd_def)
  ultimately have "\<exists>h d'. save example_crypto (sdDevice example_sd) blank_card Offset (make_bytes 32)
      (rand_read (Some example_nonce)) 1 (next_notes (rs_All example_opened) example_ups) = (Inr h, d')"
    unfolding save_def enc by (auto simp: Let_def layout_defs split: prod.split bool.split) (metis fst_conv)+
  then obtain h d' where sv: "save example_crypto (sdDevice example_sd) blank_card Offset (make_bytes 32)
      (rand_read (Some example_nonce)) 1 (next_notes (rs_All example_opened) example_ups) = (Inr h, d')" by blast
  obtain r where sa: "rpmb_SetAnchor sector_ops example_card \<lparr>as_gen = 1, as_hash = h, as_bound = True\<rparr> = (None, r)"
    using example_SetAnchor by blast
  have st: "\<not> rs_halted example_opened" "rs_gen example_opened = 0" "rs_dev example_opened = blank_card"
    "rs_off example_opened = Offset" "rs_key example_opened = make_bytes 32" "rs_anchor example_opened = example_card"
    by (simp_all add: example_opened_def)
  have "fst (rs_PutBatch example_crypto (sdDevice example_sd) (rpmb_anchor_ops sector_ops) (rand_read (Some example_nonce))
      example_opened example_ups) = None"
    by (simp add: rs_PutBatch_def st sv sa max_u32_def rpmb_anchor_ops_def Let_def)
  then show ?thesis by (simp add: rollback_store_ops_def)
qed

end
