(* ===== verification/Image_System.thy ===== *)
theory Image_System
  imports Firmware_Device Key_Sessions
begin

text \<open>
  The running image as a whole: the provisioning sessions of \<^verbatim>\<open>internal/provision\<close> and the witness of
  \<^verbatim>\<open>internal/witness\<close>, interleaved at their locks, over the store that \<^verbatim>\<open>fw/vitrum\<close> opened. Keys live in RAM, so every
  power cycle has key slices of its own; \<open>dlife\<close> is the life of a device through such cycles.
\<close>

section \<open>Only signing depends on the keys\<close>

lemma emptyTreeHash_signing [simp]: "emptyTreeHash (signing ex sf k) = emptyTreeHash ex"
  by (simp add: emptyTreeHash_def)

lemma RestoreNote_signing [simp]: "RestoreNote (signing ex sf k) = RestoreNote ex"
  by (intro ext) (unfold RestoreNote_def signing_simps, rule refl)

lemma admit_loop_signing [simp]: "admit_loop (signing ex sf k) bs acc = admit_loop ex bs acc"
  by (induction bs arbitrary: acc) (auto split: sum.split)

lemma admit_signing [simp]: "admit (signing ex sf k) = admit ex"
  by (intro ext) (unfold admit_def admit_loop_signing, rule refl)

lemma Open_signing [simp]: "Open (signing ex sf k) = Open ex"
  by (intro ext) (unfold Open_def signing_simps admit_signing, rule refl)

lemma image_main_signing [simp]: "image_main (signing ex sf k) = image_main ex"
  by (intro ext) (unfold image_main_def main_store_def Open_signing, rule refl)

lemma order_signing [simp]:
  "consistent (signing ex sf k) = consistent ex" "valid_state (signing ex sf k) = valid_state ex"
  by (unfold consistent_def valid_state_def emptyTreeHash_signing signing_simps, (rule refl)+)

lemma views_signing [simp]:
  "reaches (signing ex sf k) = reaches ex" "batch_ok (signing ex sf k) = batch_ok ex"
  "valid_view (signing ex sf k) = valid_view ex" "blob_view (signing ex sf k) = blob_view ex"
  by (unfold reaches_def follows_def [abs_def] batch_ok_def valid_view_def blob_view_def order_signing RestoreNote_signing admit_loop_signing, (rule refl)+)

lemma log_ok_signing [simp]: "log_ok (signing ex sf k) = log_ok ex"
  by (intro ext) (unfold log_ok_def views_signing, rule refl)

lemma storage_signing [simp]:
  "good_view (signing ex sf k) = good_view ex" "extends (signing ex sf k) = extends ex"
  by (unfold good_view_def extends_def views_signing RestoreNote_signing, (rule refl)+)

lemma relations_signing [simp]:
  "anchor_rel (signing ex sf k) = anchor_rel ex" "medium_ok (signing ex sf k) = medium_ok ex"
  "collision_free (signing ex sf k) = collision_free ex" "pf_sops (signing ex sf k) = pf_sops ex"
  by (unfold anchor_rel_def medium_ok_def collision_free_def pf_sops_def signing_simps views_signing storage_signing, (rule refl)+)

lemma store_rel_signing [simp]: "store_rel (signing ex sf k) = store_rel ex"
  by (intro ext) (unfold store_rel_def relations_signing storage_signing, rule refl)

lemma pool_ok_signing [simp]: "pool_ok (signing ex sf k) = pool_ok ex"
  by (intro ext) (unfold pool_ok_def entry_ok_def signing_simps, rule refl)

lemma pool_consistent_signing [simp]: "pool_consistent (signing ex sf k) = pool_consistent ex"
  by (intro ext) (unfold pool_consistent_def order_signing, rule refl)

lemma winv_signing [simp]: "winv (signing ex sf k) = winv ex"
  by (intro ext) (unfold winv_def phase_ok_def pools_ok_def views_signing pool_ok_signing pool_consistent_signing log_ok_signing, rule refl)

lemma dinv_signing [simp]: "dinv (signing ex sf k) = dinv ex"
  by (intro ext) (unfold dinv_def storage_signing log_ok_signing relations_signing store_rel_signing winv_signing, rule refl)

section \<open>The life of a device\<close>

inductive dlife :: "external \<Rightarrow> signing_fn \<Rightarrow> ('d, 'a) platform \<Rightarrow> ('d, 'a) device_sys \<Rightarrow> ('d, 'a) device_sys \<Rightarrow> bool"
  for ex sf pf D0 where
  init: "dlife ex sf pf D0 D0"
| cycle: "dlife ex sf pf D0 D \<Longrightarrow> dreach (signing ex sf K) pf D D' \<Longrightarrow> dlife ex sf pf D0 D'"

lemma dlife_dinv:
  assumes "rollback_platform pf" "dlife ex sf pf D0 D" "dinv ex pf D0" "signing_fn_ok sf" "crypto_ok (ex_crypto ex)"
  shows "dinv ex pf D"
  using assms(2)
proof (induction rule: dlife.induct)
  case init
  show ?case by (rule assms(3))
next
  case (cycle D K D')
  with rollback_platform.dinv_dreach [OF assms(1) cycle(2)] assms(4,5) show ?case by (simp add: sign_ok_signing)
qed

lemma image_main_Running:
  assumes "image_main ex sd rops lib tgt netInit listen80 listen22 start now = Running w persistence srv"
  shows "sv_priv srv = None" "sv_keys srv = []" "w_signer w = None"
    "image_witness (image_main ex sd rops lib tgt netInit listen80 listen22 start now) = Some (w, persistence)"
proof -
  from assms obtain st where w: "w = New st" and srv: "startSSH lib tgt listen22 start now = Inr srv"
    by (auto simp: image_main_def Let_def split: sum.splits prod.splits if_splits)
  from srv show "sv_priv srv = None" "sv_keys srv = []"
    by (auto simp: startSSH_def NewServer_def Let_def split: option.splits sum.splits if_splits prod.splits)
  show "w_signer w = None" by (simp add: w New_def)
qed (simp add: assms)

section \<open>An example run\<close>

text \<open>
  The example: an operator installs a key on the example board, then the witness on any store that does not know the origin and
  accepts the batch commits the example checkpoint.
\<close>

definition example_sign :: signing_fn where
  "example_sign = (\<lambda>r k t txt. Some (txt @ nl # ''s''))"

lemma signing_example [simp]: "signing example_ext example_sign k = example_ext"
  by (simp add: signing_def example_sign_def example_ext_def)

lemma example_commit_run:
  assumes "st_Get sops s ''o'' = None" "\<not> st_Halted sops s" "fst (st_PutBatch sops env s example_ups) = None"
  shows "\<exists>T. (quiet_step example_ext sops)\<^sup>*\<^sup>* ((winit s)\<lparr>ws_w := SetSigner sg (New s)\<rparr>) T \<and> ws_log T = example_ups"
proof -
  let ?c = "\<lparr>cd_cp = example_cp, cd_text = example_text, cd_signer = sg, cd_epoch = 1\<rparr>"
  let ?e = "\<lparr>pe_candidate = ?c, pe_done = False, pe_code = 0, pe_resp = []\<rparr>"
  let ?W1 = "SetSigner sg (New s)"
  let ?W2 = "?W1\<lparr>w_heap := [?e], w_currentPool := [(''o'', 0)]\<rparr>"
  let ?W3 = "?W2\<lparr>w_running := True\<rparr>"
  let ?S = "\<lambda>w. (winit s)\<lparr>ws_w := w\<rparr>"
  have "text_ok example_text" by (rule note_text_SomeD(1) [OF example_note_text])
  moreover have "ex_ParseCheckpoint example_ext example_text = Some example_cp" by (simp add: example_ext_def)
  moreover have "addToPool example_ext sops ?W1 \<lparr>rq_old = 0, rq_proof = [], rq_note = ls_Note example_state\<rparr> ?c = (Inr 0, ?W2)"
    using assms(1) by (simp add: addToPool_def SetSigner_def New_def newPool_def maxPoolSize_def latest_def
        consistency_check_def example_cp_def Let_def)
  ultimately have s2: "wstep example_ext sops (?S ?W1) (?S ?W2)"
    using wstep.submit [of example_text example_ext example_cp "\<lparr>rq_old = 0, rq_proof = [], rq_note = ls_Note example_state\<rparr>"
        sops "?S ?W1" sg 1 "Inr 0" ?W2] by (simp add: example_cp_def)
  have s3: "wstep example_ext sops (?S ?W2) (?S ?W3)"
    using wstep.seq_start [of "?S ?W2" ?W3] by (simp add: run_start_def New_def SetSigner_def)
  let ?S4 = "(?S ?W3)\<lparr>ws_w := seq_begin ?W3, ws_phase := Seq_Swapped [(''o'', 0)]\<rparr>"
  have s4: "wstep example_ext sops (?S ?W3) ?S4"
    using wstep.seq_swap [of "?S ?W3"] by (simp add: winit_def)
  let ?now = "\<lambda>_. 0"
  let ?S5 = "?S4\<lparr>ws_w := sequencePool example_ext sops env ?now 0 [(''o'', 0)] (ws_w ?S4), ws_phase := Seq_Committed [(''o'', 0)],
    ws_log := ws_log ?S4 @ committed_batch example_ext sops env ?now [(''o'', 0)] (ws_w ?S4)\<rparr>"
  have s5: "wstep example_ext sops ?S4 ?S5" by (rule wstep.seq_commit) simp
  have "pool_batch example_ext sops ?now [(''o'', 0)] (ws_w ?S4) = Some example_ups"
    using assms(2) by (simp add: pool_batch_def seq_begin_def SetSigner_def New_def w_Halted_def sign_entries_Cons
        entry_result_def signed_state_def key_current_def example_ext_def example_state_def example_cp_def Let_def)
  then have "ws_log ?S5 = example_ups"
    using assms(3) by (simp add: committed_batch_def winit_def seq_begin_def SetSigner_def New_def)
  moreover have "w_signer (ws_w ?S5) = w_signer (ws_w ?S4) \<and> w_epoch (ws_w ?S5) = w_epoch (ws_w ?S4)"
    by (simp add: sequencePool_frame)
  then have "quiet_step example_ext sops ?S4 ?S5" using s5 by (simp add: quiet_step_def)
  moreover have "quiet_step example_ext sops (?S ?W1) (?S ?W2)" "quiet_step example_ext sops (?S ?W2) (?S ?W3)"
    "quiet_step example_ext sops (?S ?W3) ?S4"
    using s2 s3 s4 by (simp_all add: quiet_step_def seq_begin_def)
  ultimately show ?thesis by (meson rtranclp.rtrancl_into_rtrancl rtranclp.rtrancl_refl)
qed

lemma example_sign_ok': "signing_fn_ok example_sign"
  by (auto simp: signing_fn_ok_def example_sign_def)

lemma example_image_run:
  "\<exists>srv K Z. image_main example_ext example_sd sector_ops example_lib (usbarmory example_kdf example_board) True True True 0 0
      = Running (New (AnyRollback example_opened)) ''microSD blob + eMMC RPMB anchor'' srv
    \<and> kreach example_ext example_sign example_lib K (any_store_ops example_crypto (sdDevice example_sd) (rpmb_anchor_ops sector_ops))
       (kinit (image_start (New (AnyRollback example_opened))) srv) Z
    \<and> ws_log (ks_sys Z) = example_ups"
proof -
  let ?sops = "any_store_ops example_crypto (sdDevice example_sd) (rpmb_anchor_ops sector_ops)"
  let ?S = "image_start (New (AnyRollback example_opened))" and ?k = "sl_newKey example_lib (make_bytes 32)"
  have S: "?S = winit (AnyRollback example_opened)" by (simp add: image_start_def winit_def)
  obtain srv where main: "image_main example_ext example_sd sector_ops example_lib (usbarmory example_kdf example_board) True True True 0 0
      = Running (New (AnyRollback example_opened)) ''microSD blob + eMMC RPMB anchor'' srv"
    using example_board_runs by blast
  let ?s' = "(zero_priv (srv\<lparr>sv_keys := sv_keys srv @ [?k]\<rparr>))\<lparr>sv_priv := Some 0\<rparr>"
  let ?Z1 = "ksession ?S (SetSigner 0 (ws_w ?S)) ?s'"
  have fresh: "sv_priv srv = None" "sv_keys srv = []" using image_main_Running [OF main] by auto
  then have "kreach example_ext example_sign example_lib (\<lambda>_. ?k) ?sops (ksession ?S (ws_w ?S) srv) ?Z1"
    by (intro provision_installs_run [of _ "make_bytes 32"]) (simp_all add: priv_ok_def SeedSize_def)
  then have first: "kreach example_ext example_sign example_lib (\<lambda>_. ?k) ?sops (kinit ?S srv) ?Z1" by simp
  have "st_Get ?sops (AnyRollback example_opened) ''o'' = None" "\<not> st_Halted ?sops (AnyRollback example_opened)"
    by (simp_all add: rollback_store_ops_def rs_Get_def ms_Get_def rs_Halted_def example_opened_def)
  from example_commit_run [OF this example_opened_PutBatch, of 0] obtain T where
    T: "(quiet_step example_ext ?sops)\<^sup>*\<^sup>* ((winit (AnyRollback example_opened))\<lparr>ws_w := SetSigner 0 (New (AnyRollback example_opened))\<rparr>) T"
      "ws_log T = example_ups" by blast
  have "ks_sys ?Z1 = (winit (AnyRollback example_opened))\<lparr>ws_w := SetSigner 0 (New (AnyRollback example_opened))\<rparr>"
    by (simp add: S kinit_def winit_def)
  with T(1) have "kreach example_ext example_sign example_lib (\<lambda>_. ?k) ?sops ?Z1 (?Z1\<lparr>ks_sys := T\<rparr>)"
    by (intro quiet_run) simp
  from kreach_trans [OF this first] main T(2) show ?thesis
    by (intro exI [of _ srv] exI [of _ "\<lambda>_. ?k"] exI [of _ "?Z1\<lparr>ks_sys := T\<rparr>"]) simp
qed

text \<open>Seen from the witness, the running image is a run of the witness with constant keys.\<close>

lemma image_sessions_wreach:
  assumes "image_main ex sd rops' lib tgt netInit listen80 listen22 start now = Running w persistence srv"
    "kreach ex sf lib K sops (kinit (image_start w) srv) Z"
  shows "wreach (signing ex sf K) sops (image_start w) (ks_sys Z)"
proof -
  have "kinv lib K (kinit (image_start w) srv)"
    using image_main_Running [OF assms(1)] by (intro kinv_init) (simp_all add: image_start_def)
  from kreach_wreach [OF assms(2) this] show ?thesis by (simp add: kinit_def)
qed

section \<open>Properties\<close>

text \<open>
  C14: The image refines the device model. On native fused hardware, for any history of the device that ends powered off with
  this medium and anchor, every state that the running image reaches, with its provisioning sessions interleaved, is the image
  of a state that the device model reaches from that history by a boot and steps of one power cycle, with constant keys.
\<close>

theorem image_sessions_run_device_model:
  assumes "bd_native b" "snvs_secure (bd_soc b)" "Derive kdf (bd_soc b) div_State = (Some key, dev)"
    "newRPMBAnchor kdf b = Inr (anc, desc, dev')" "pf = device_platform (sdDevice sd) mem rops content key"
    "ds_power D = Off (bd_sd b) anc" "medium_ok ex pf (ds_sealed D) (bd_sd b)" "collision_free ex pf (ds_sealed D)"
    "image_main ex sd rops lib (usbarmory kdf b) netInit listen80 listen22 start now = Running w persistence srv"
    "kreach ex sf lib K (any_store_ops (ex_crypto ex) (sdDevice sd) (rpmb_anchor_ops rops)) (kinit (image_start w) srv) Z"
  shows "\<exists>S D'. ks_sys Z = map_wsys AnyRollback S \<and> dreach (signing ex sf K) pf D D' \<and> ds_power D' = On S \<and> ds_past D' = ds_past D"
  using image_simulation [OF assms(1-6), of "signing ex sf K" lib netInit listen80 listen22 start now w persistence "ks_sys Z"]
    assms(7,8) image_main_Running(4) [OF assms(9)] image_sessions_wreach [OF assms(9,10)]
  by simp

theorem image_sessions_run_device_model_witness:
  "\<exists>srv K Z S D'. kreach example_ext example_sign example_lib K (any_store_ops example_crypto (sdDevice example_sd) (rpmb_anchor_ops sector_ops))
       (kinit (image_start (New (AnyRollback example_opened))) srv) Z
     \<and> ws_log (ks_sys Z) = example_ups \<and> ks_sys Z = map_wsys AnyRollback S
     \<and> dreach example_ext example_image_pf example_off D' \<and> ds_power D' = On S"
proof -
  obtain srv K Z where main: "image_main example_ext example_sd sector_ops example_lib (usbarmory example_kdf example_board) True True True 0 0
      = Running (New (AnyRollback example_opened)) ''microSD blob + eMMC RPMB anchor'' srv"
    and run: "kreach example_ext example_sign example_lib K (any_store_ops (ex_crypto example_ext) (sdDevice example_sd) (rpmb_anchor_ops sector_ops))
      (kinit (image_start (New (AnyRollback example_opened))) srv) Z" and log: "ws_log (ks_sys Z) = example_ups"
    using example_image_run by auto
  from image_sessions_run_device_model [OF example_board_facts refl example_off_facts main run]
  obtain S D' where "ks_sys Z = map_wsys AnyRollback S" "dreach example_ext example_image_pf example_off D'" "ds_power D' = On S"
    by auto
  with run [unfolded example_ext_crypto] log show ?thesis by blast
qed

text \<open>
  C2: No split view, for the whole image. On native fused hardware, in a power cycle of the device after any life since the
  factory (with an adversary on the medium and other witness keys in every cycle), with operators that provision, rotate and
  destroy keys at any moment while the witness serves: no two committed checkpoints of one origin and size, in this or an
  earlier cycle, differ in their root hash.
\<close>

theorem image_sessions_no_split_view:
  assumes "bd_native b" "snvs_secure (bd_soc b)" "Derive kdf (bd_soc b) div_State = (Some key, dev)"
    "newRPMBAnchor kdf b = Inr (anc, desc, dev')" "pf = device_platform (sdDevice sd) mem rops content key"
    "ds_power D = Off (bd_sd b) anc" "medium_ok ex pf (ds_sealed D) (bd_sd b)" "collision_free ex pf (ds_sealed D)"
    "image_main ex sd rops lib (usbarmory kdf b) netInit listen80 listen22 start now = Running w persistence srv"
    "kreach ex sf lib K (any_store_ops (ex_crypto ex) (sdDevice sd) (rpmb_anchor_ops rops)) (kinit (image_start w) srv) Z"
    and contracts: "sd_driver_ok sd mem" "rpmb_driver_ok rops content" "rpmb_view content a0 = fresh_anchor"
      "signing_fn_ok sf" "crypto_ok (ex_crypto ex)"
    and history: "dlife ex sf pf (factory d0 a0) D"
    and log: "(origin, s1) \<in> set (ds_past D @ ws_log (ks_sys Z))" "(origin, s2) \<in> set (ds_past D @ ws_log (ks_sys Z))"
      "ls_Size s1 = ls_Size s2"
  shows "ls_Hash s1 = ls_Hash s2"
proof -
  note run = image_main_Running [OF assms(9)] and reach = image_sessions_wreach [OF assms(9,10)]
  have "rollback_platform pf"
    unfolding assms(5) by (rule device_platform_contract [OF sdDevice_contract [OF contracts(1)] contracts(2)])
  from dlife_dinv [OF this history _ contracts(4,5)] have "dinv ex pf D"
    using dinv_factory contracts(3) assms(5) by (metis device_platform_simps(4))
  with image_log_ok [OF assms(1-6), of "signing ex sf K" lib netInit listen80 listen22 start now w persistence "ks_sys Z"]
    assms(7,8) run(4) reach contracts(1,2,5) sign_ok_signing [OF contracts(4), of ex K]
  obtain V where "log_ok ex V (ds_past D @ ws_log (ks_sys Z))" by auto
  then show ?thesis using log_ok_same_size log by metis
qed

theorem image_sessions_no_split_view_witness:
  "\<exists>srv K Z. kreach example_ext example_sign example_lib K (any_store_ops example_crypto (sdDevice example_sd) (rpmb_anchor_ops sector_ops))
       (kinit (image_start (New (AnyRollback example_opened))) srv) Z
     \<and> ws_log (ks_sys Z) = example_ups
     \<and> (\<forall>s1 s2. (''o'', s1) \<in> set (ws_log (ks_sys Z)) \<and> (''o'', s2) \<in> set (ws_log (ks_sys Z)) \<and> ls_Size s1 = ls_Size s2
         \<longrightarrow> ls_Hash s1 = ls_Hash s2)"
proof -
  obtain srv K Z where main: "image_main example_ext example_sd sector_ops example_lib (usbarmory example_kdf example_board) True True True 0 0
      = Running (New (AnyRollback example_opened)) ''microSD blob + eMMC RPMB anchor'' srv"
    and run: "kreach example_ext example_sign example_lib K (any_store_ops (ex_crypto example_ext) (sdDevice example_sd) (rpmb_anchor_ops sector_ops))
      (kinit (image_start (New (AnyRollback example_opened))) srv) Z" and log: "ws_log (ks_sys Z) = example_ups"
    using example_image_run by auto
  have "ls_Hash s1 = ls_Hash s2" if "(''o'', s1) \<in> set (ws_log (ks_sys Z))" "(''o'', s2) \<in> set (ws_log (ks_sys Z))" "ls_Size s1 = ls_Size s2"
    for s1 s2
    using image_sessions_no_split_view [OF example_board_facts refl example_off_facts main run example_sd_ok sector_driver_ok
        example_card_fresh example_sign_ok' example_crypto_ok dlife.init, of "''o''" s1 s2] that by simp
  with run [unfolded example_ext_crypto] log show ?thesis by blast
qed

end
