(* ===== verification/Firmware_Net.thy ===== *)
theory Firmware_Net
  imports Vitrum_Prelude
begin

text \<open>
  Network bring-up and the interrupt service of the two images: \<^verbatim>\<open>fw/vitrum/net.go\<close>, \<open>netInit\<close> of the targets and
  \<^verbatim>\<open>fw/rpmb-provision/hardware.go\<close>. The hardware is written to only, so a routine is the list of the calls it makes;
  the Ethernet controller is a parameter with a state. Receiving goes on until the controller has no frame left, which
  the environment decides, so the loop is a partial function.
\<close>

section \<open>Hardware calls\<close>

datatype usb_irq = IRQ_URI | IRQ_PCI | IRQ_UI

datatype eth_port = ENET1 | ENET2

datatype hw_call =
    StackInit "eth_port option" bytes bytes bytes
  | HandleStackErr
  | EnableICMP
  | HookSocket
  | EcmInit bytes bytes
  | UsbInit
  | UsbDeviceMode
  | UsbEnable usb_irq
  | EthInit eth_port bytes
  | EthStart
  | EthEnableRXF
  | GicInit
  | GicEnable nat
  | SetAlarm int
  | WaitInterrupt
  | UsbService
  | Deliver bytes
  | EthClearRXF
  | UnexpectedIRQ nat

text \<open>The calls made so far, and whether the routine reported success.\<close>

type_synonym hw_result = "hw_call list \<times> bool"

section \<open>Bring-up\<close>

text \<open>
  \<open>StackInit\<close> carries the network device of the interface, the address, the MAC and the gateway, \<open>EcmInit\<close> the MACs of the host
  and of the device.
\<close>

definition MAC :: bytes where "MAC = ''1a:55:89:a2:69:41''"
definition HostMAC :: bytes where "HostMAC = ''1a:55:89:a2:69:42''"
definition device_IP :: bytes where "device_IP = ''10.0.0.1''"
definition device_CIDR :: bytes where "device_CIDR = ''/24''"
definition Gateway :: bytes where "Gateway = ''10.0.0.2''"

definition newInterface :: "eth_port option \<Rightarrow> bool \<Rightarrow> hw_result" where
  "newInterface dev stackOk =
     (let init = StackInit dev (device_IP @ device_CIDR) MAC Gateway
      in if \<not> stackOk then ([init], False) else ([init, HandleStackErr, EnableICMP, HookSocket], True))"

text \<open>The armory: Ethernet over USB.\<close>

definition usb_netInit :: "bool \<Rightarrow> bool \<Rightarrow> hw_result" where
  "usb_netInit stackOk ecmOk =
     (case newInterface None stackOk of
        (calls, False) \<Rightarrow> (calls, False)
      | (calls, True) \<Rightarrow>
          if \<not> ecmOk then (calls @ [EcmInit HostMAC MAC], False)
          else (calls @ [EcmInit HostMAC MAC, UsbInit, UsbDeviceMode, UsbEnable IRQ_URI, UsbEnable IRQ_PCI, UsbEnable IRQ_UI], True))"

text \<open>The EVK: the Ethernet controller first, then the stack on it; the emulated machine has the first controller.\<close>

definition eth_netInit :: "bool \<Rightarrow> bool \<Rightarrow> bool \<Rightarrow> hw_result" where
  "eth_netInit native ethOk stackOk =
     (let eth = (if \<not> native then ENET1 else ENET2)
      in if \<not> ethOk then ([EthInit eth MAC], False)
         else case newInterface (Some eth) stackOk of
                (calls, False) \<Rightarrow> (EthInit eth MAC # calls, False)
              | (calls, True) \<Rightarrow> (EthInit eth MAC # calls @ [EthStart, EthEnableRXF], True))"

text \<open>The RPMB image has its own copy of the bring-up of the armory.\<close>

definition rpmb_deviceMAC :: bytes where "rpmb_deviceMAC = ''1a:55:89:a2:69:41''"
definition rpmb_hostMAC :: bytes where "rpmb_hostMAC = ''1a:55:89:a2:69:42''"

definition rpmb_netInit :: "bool \<Rightarrow> bool \<Rightarrow> hw_result" where
  "rpmb_netInit stackOk ecmOk =
     (let calls = [StackInit None ''10.0.0.1/24'' rpmb_deviceMAC ''10.0.0.2'']
      in if \<not> stackOk then (calls, False)
         else let calls = calls @ [HandleStackErr, EnableICMP, HookSocket, EcmInit rpmb_hostMAC rpmb_deviceMAC]
              in if \<not> ecmOk then (calls, False)
                 else (calls @ [UsbInit, UsbDeviceMode, UsbEnable IRQ_URI, UsbEnable IRQ_PCI, UsbEnable IRQ_UI], True))"

section \<open>The interrupt service\<close>

text \<open>A port that is absent has no interrupt.\<close>

definition service_init :: "nat \<Rightarrow> nat option \<Rightarrow> nat option \<Rightarrow> hw_call list" where
  "service_init timer usb eth =
     [GicInit, GicEnable timer] @ (case usb of None \<Rightarrow> [] | Some i \<Rightarrow> [GicEnable i])
       @ (case eth of None \<Rightarrow> [] | Some i \<Rightarrow> [GicEnable i])"

definition rpmb_service_init :: "nat \<Rightarrow> nat \<Rightarrow> hw_call list" where
  "rpmb_service_init timer usb = [GicInit, GicEnable timer, GicEnable usb]"

text \<open>
  The receive loop. \<open>Receive\<close> fills the one buffer of the service from its start and returns the length of the frame, or an
  error; the whole buffer goes to the stack.
\<close>

type_synonym 'e receive = "'e \<Rightarrow> bytes \<Rightarrow> nat option \<times> bytes \<times> 'e"

partial_function (option) eth_drain :: "'e receive \<Rightarrow> 'e \<Rightarrow> bytes \<Rightarrow> hw_call list \<Rightarrow> (hw_call list \<times> bytes \<times> 'e) option" where
  "eth_drain recv e buf calls =
     (case recv e buf of (n, buf', e') \<Rightarrow>
        if n = None \<or> n = Some 0 then Some (calls, buf', e')
        else eth_drain recv e' buf' (calls @ [Deliver buf', EthClearRXF]))"

text \<open>One interrupt of the witness image.\<close>

definition isr :: "'e receive \<Rightarrow> nat \<Rightarrow> nat option \<Rightarrow> nat option \<Rightarrow> nat \<Rightarrow> 'e \<Rightarrow> bytes \<Rightarrow>
    (hw_call list \<times> bytes \<times> 'e) option" where
  "isr recv timer usb eth irq e buf =
     (if irq = timer then Some ([SetAlarm 0], buf, e)
      else if usb = Some irq then Some ([UsbService], buf, e)
      else if eth = Some irq then eth_drain recv e buf []
      else Some ([UnexpectedIRQ irq], buf, e))"

definition idle :: "int \<Rightarrow> hw_call list" where
  "idle pollUntil = (if pollUntil = 0 then [] else [SetAlarm pollUntil, WaitInterrupt])"

text \<open>The RPMB image serves the USB port only and programs the alarm relative to the timer offset.\<close>

definition rpmb_isr :: "nat \<Rightarrow> nat \<Rightarrow> nat \<Rightarrow> hw_call list" where
  "rpmb_isr timer usb irq = (if irq = timer then [SetAlarm 0] else if irq = usb then [UsbService] else [UnexpectedIRQ irq])"

definition rpmb_idle :: "int \<Rightarrow> int \<Rightarrow> hw_call list" where
  "rpmb_idle timerOffset pollUntil = (if pollUntil = 0 then [] else [SetAlarm (int64 (pollUntil - timerOffset)), WaitInterrupt])"

section \<open>Lemmas\<close>

text \<open>Both images bring the armory up with the same calls, and serve the same interrupts.\<close>

lemma rpmb_netInit_usb: "rpmb_netInit stackOk ecmOk = usb_netInit stackOk ecmOk"
  by (simp add: rpmb_netInit_def usb_netInit_def newInterface_def rpmb_deviceMAC_def rpmb_hostMAC_def MAC_def HostMAC_def
      device_IP_def device_CIDR_def Gateway_def Let_def)

lemma rpmb_service_init_usb: "rpmb_service_init timer usb = service_init timer (Some usb) None"
  by (simp add: rpmb_service_init_def service_init_def)

lemma rpmb_isr_usb: "isr recv timer (Some usb) None irq e buf = Some (rpmb_isr timer usb irq, buf, e)"
  by (simp add: isr_def rpmb_isr_def)

text \<open>A controller that holds a queue of frames, none longer than the buffer.\<close>

fun queue_receive :: "bytes list receive" where
  "queue_receive [] buf = (None, buf, [])"
| "queue_receive (f # fs) buf = (Some (length f), f @ drop (length f) buf, fs)"

definition starts_with :: "bytes \<Rightarrow> hw_call \<Rightarrow> bool" where
  "starts_with f c \<longleftrightarrow> (\<exists>tail. c = Deliver (f @ tail))"

text \<open>
  Draining the queue ends; every frame is delivered once, in order, at the start of a buffer of the same length as
  before, and each delivery is followed by clearing the interrupt.
\<close>

lemma eth_drain_queue:
  assumes "[] \<notin> set fs" "\<forall>f \<in> set fs. length f \<le> length buf"
  shows "\<exists>ds buf'. eth_drain queue_receive fs buf calls = Some (calls @ concat (map (\<lambda>d. [d, EthClearRXF]) ds), buf', [])
    \<and> list_all2 starts_with fs ds \<and> length buf' = length buf"
  using assms
proof (induction fs arbitrary: buf calls)
  case Nil
  then show ?case by (subst eth_drain.simps) simp
next
  case (Cons f fs)
  let ?buf = "f @ drop (length f) buf"
  have len: "length ?buf = length buf" using Cons.prems(2) by simp
  have n: "f \<noteq> []" using Cons.prems(1) by auto
  have "eth_drain queue_receive (f # fs) buf calls = eth_drain queue_receive fs ?buf (calls @ [Deliver ?buf, EthClearRXF])"
    using n by (subst eth_drain.simps) simp
  moreover obtain ds buf' where "eth_drain queue_receive fs ?buf (calls @ [Deliver ?buf, EthClearRXF]) =
      Some ((calls @ [Deliver ?buf, EthClearRXF]) @ concat (map (\<lambda>d. [d, EthClearRXF]) ds), buf', [])"
      "list_all2 starts_with fs ds" "length buf' = length ?buf"
    using Cons.IH [of ?buf "calls @ [Deliver ?buf, EthClearRXF]"] Cons.prems len by auto
  moreover have "starts_with f (Deliver ?buf)" by (auto simp: starts_with_def)
  ultimately show ?case using len
    by (intro exI [of _ "Deliver ?buf # ds"] exI [of _ buf']) simp
qed

end
