(* ===== verification/Sequencer.thy ===== *)
theory Sequencer
  imports Witness_Theorems
begin

text \<open>
  \<open>RunSequencer\<close> against the state machine: a call of the loop, with any number of ticks before its context is done, is an
  execution of \<open>wstep\<close>, one swap, commit and retirement per tick. So everything that is proved about the
  reachable states of the state machine holds of the running program.
\<close>

lemma wreach_trans: "wreach ex sops S1 S2 \<Longrightarrow> wreach ex sops S0 S1 \<Longrightarrow> wreach ex sops S0 S2"
  by (induction rule: wreach.induct) (auto intro: wreach.step)

lemma wreach_step: "wstep ex sops S S' \<Longrightarrow> wreach ex sops S S'"
  by (blast intro: wreach.intros)

lemma running_sequencePool [simp]: "w_running (sequencePool ex sops env now t p w) = w_running w"
  by (auto simp: sequencePool_def fail_pool_def Let_def split: option.split prod.split)

lemma running_sequence [simp]: "w_running (sequence ex sops env now t w) = w_running w"
  by (simp add: sequence_def Let_def seq_end_def seq_begin_def)

text \<open>One tick is three steps.\<close>

lemma sequence_wreach:
  assumes "ws_phase S = Seq_Idle" "w_running (ws_w S)"
  shows "\<exists>S'. wreach ex sops S S' \<and> ws_w S' = sequence ex sops env now t (ws_w S) \<and> ws_phase S' = Seq_Idle"
proof -
  let ?p = "w_currentPool (ws_w S)"
  let ?S1 = "S\<lparr>ws_w := seq_begin (ws_w S), ws_phase := Seq_Swapped ?p\<rparr>"
  let ?S2 = "?S1\<lparr>ws_w := sequencePool ex sops env now t ?p (ws_w ?S1), ws_phase := Seq_Committed ?p,
    ws_log := ws_log ?S1 @ committed_batch ex sops env now ?p (ws_w ?S1)\<rparr>"
  let ?S3 = "?S2\<lparr>ws_w := seq_end ?p (ws_w ?S2), ws_phase := Seq_Idle\<rparr>"
  have "wstep ex sops S ?S1" using assms by (rule wstep.seq_swap)
  moreover have "wstep ex sops ?S1 ?S2" by (rule wstep.seq_commit) simp
  moreover have "wstep ex sops ?S2 ?S3" by (rule wstep.seq_retire) simp
  ultimately have "wreach ex sops S ?S3" by (blast intro: wreach.intros)
  moreover have "ws_w ?S3 = sequence ex sops env now t (ws_w S)" by (simp add: sequence_def Let_def)
  ultimately show ?thesis by (intro exI [of _ ?S3]) simp
qed

lemma sequencer_loop_wreach:
  assumes "ws_phase S = Seq_Idle" "w_running (ws_w S)"
  shows "\<exists>S'. wreach ex sops S S' \<and> ws_w S' = (sequencer_loop ex sops ticks (ws_w S))\<lparr>w_running := False\<rparr>
    \<and> ws_phase S' = Seq_Idle"
  using assms
proof (induction ticks arbitrary: S)
  case Nil
  then have "wstep ex sops S (S\<lparr>ws_w := run_stop (ws_w S)\<rparr>)" by (rule wstep.seq_stop)
  with Nil show ?case
    by (intro exI [of _ "S\<lparr>ws_w := run_stop (ws_w S)\<rparr>"]) (simp add: wreach_step run_stop_def)
next
  case (Cons tk ticks)
  from sequence_wreach [OF Cons.prems, of ex sops "tk_env tk" "tk_now tk" "tk_commit tk"] obtain S1 where
    S1: "wreach ex sops S S1" "ws_w S1 = sequence ex sops (tk_env tk) (tk_now tk) (tk_commit tk) (ws_w S)" "ws_phase S1 = Seq_Idle"
    by (elim exE conjE)
  with Cons.IH [of S1] Cons.prems(2) show ?case by (auto intro: wreach_trans)
qed

lemma sequencer_loop_empty: "w_currentPool (sequencer_loop ex sops ticks w) = []"
  by (induction ticks arbitrary: w) (simp_all add: stopPools_def newPool_def Let_def)

text \<open>
  C13: \<open>RunSequencer\<close> refines the state machine. A second call while one is running returns at once and changes nothing;
  otherwise, whatever ticks arrive before the context is done, the call ends in a state that the state machine reaches from the
  same start, with no sequencer running and nothing pending.
\<close>

theorem RunSequencer_refines:
  assumes "ws_phase S = Seq_Idle" "RunSequencer ex sops ticks (ws_w S) = (out, w')"
  shows "if w_running (ws_w S) then out = AlreadyRunning \<and> w' = ws_w S
    else out = ContextDone \<and> w_currentPool w' = [] \<and> \<not> w_running w'
      \<and> (\<exists>S'. wreach ex sops S S' \<and> ws_w S' = w' \<and> ws_phase S' = Seq_Idle)"
proof (cases "w_running (ws_w S)")
  case True
  with assms(2) show ?thesis by (simp add: RunSequencer_def run_start_def)
next
  case False
  let ?S1 = "S\<lparr>ws_w := (ws_w S)\<lparr>w_running := True\<rparr>\<rparr>"
  have start: "run_start (ws_w S) = Some (ws_w ?S1)" using False by (simp add: run_start_def)
  then have step: "wreach ex sops S ?S1" by (intro wreach_step) (rule wstep.seq_start, simp)
  have w': "out = ContextDone" "w' = (sequencer_loop ex sops ticks (ws_w ?S1))\<lparr>w_running := False\<rparr>"
    using assms(2) start by (simp_all add: RunSequencer_def)
  have "\<exists>S'. wreach ex sops ?S1 S' \<and> ws_w S' = w' \<and> ws_phase S' = Seq_Idle"
    unfolding w'(2) by (rule sequencer_loop_wreach) (simp_all add: assms(1))
  with step False w' show ?thesis by (auto simp: sequencer_loop_empty intro: wreach_trans)
qed

theorem RunSequencer_refines_witness:
  "\<forall>ex. \<exists>S' w'. RunSequencer ex mem_store_ops [\<lparr>tk_env = (), tk_now = \<lambda>_. 1, tk_commit = 1\<rparr>] (New NewMemStore) = (ContextDone, w')
    \<and> wreach ex mem_store_ops (winit NewMemStore) S' \<and> ws_w S' = w'"
proof
  fix ex
  let ?ticks = "[\<lparr>tk_env = (), tk_now = \<lambda>_. 1, tk_commit = 1\<rparr>]"
  obtain out w' where r: "RunSequencer ex mem_store_ops ?ticks (New NewMemStore) = (out, w')" by fastforce
  have "\<not> w_running (ws_w (winit NewMemStore))" "ws_phase (winit NewMemStore) = Seq_Idle" by (simp_all add: winit_def New_def)
  with RunSequencer_refines [of "winit NewMemStore" ex mem_store_ops ?ticks out w'] r
  show "\<exists>S' w'. RunSequencer ex mem_store_ops ?ticks (New NewMemStore) = (ContextDone, w')
      \<and> wreach ex mem_store_ops (winit NewMemStore) S' \<and> ws_w S' = w'"
    by (auto simp: winit_def)
qed

end
