(* ===== verification/Blob_Parser.thy ===== *)
theory Blob_Parser
  imports Blob
begin

text \<open>
  The decoder of \<^verbatim>\<open>internal/state/blob.go\<close> against a declarative format: a payload is accepted exactly when it is a
  concatenation of well-formed entries, and what is returned is the map those entries denote, a later entry of the
  same origin replacing an earlier one. The parse is unique.
\<close>

type_synonym entry = "bytes \<times> bytes"

text \<open>The lengths an entry can carry; the third bound is the one of a non-negative \<open>int\<close>.\<close>

definition entry_range :: "nat \<Rightarrow> entry \<Rightarrow> bool" where
  "entry_range w e \<longleftrightarrow> length (fst e) \<le> 65535 \<and> length (snd e) \<le> 4294967295 \<and> length (snd e) < 2 ^ (w - 1)"

definition payload_of :: "entry list \<Rightarrow> bytes" where
  "payload_of es = concat (map (\<lambda>e. encode_entry (fst e) (snd e)) es)"

lemma payload_of_Cons [simp]: "payload_of (e # es) = encode_entry (fst e) (snd e) @ payload_of es"
  and payload_of_Nil [simp]: "payload_of [] = []"
  by (simp_all add: payload_of_def)

lemma decode_loop_payload:
  assumes "0 < w" "\<forall>e \<in> set es. entry_range w e"
  shows "decode_loop w (payload_of es) m = Inr (map_put_all m es)"
  using assms(2)
proof (induction es arbitrary: m)
  case (Cons e es)
  then show ?case using decode_loop_entry [OF assms(1), of "fst e" "snd e"] by (cases e) (simp add: entry_range_def)
qed simp

text \<open>The round of the loop that reads a length field.\<close>

lemma decode_loop_round:
  assumes "length origin \<le> 65535" "n < 2 ^ 32"
  shows "decode_loop w (put_le 2 (length origin) @ origin @ put_le 4 n @ rest) m =
    (if int (length rest) < go_int w (int n) then Inl TruncatedNote
     else if go_int w (int n) < 0 then Inl SliceBoundsPanic
     else decode_loop w (drop (nat (go_int w (int n))) rest) (AList.update origin (take (nat (go_int w (int n))) rest) m))"
proof -
  have "get_le (put_le 2 (length origin)) = length origin" "get_le (put_le 4 n) = n"
    using assms by (simp_all add: get_le_put_le)
  then show ?thesis by (subst decode_loop.simps) (simp add: codec_simps Let_def)
qed

text \<open>A payload long enough for the two length fields is laid out as the format says.\<close>

lemma payload_layout:
  assumes "2 \<le> length payload" "get_le (take 2 payload) + 4 \<le> length (drop 2 payload)"
  obtains origin n rest where "payload = put_le 2 (length origin) @ origin @ put_le 4 n @ rest"
    "length origin \<le> 65535" "n < 2 ^ 32"
proof -
  define n1 where "n1 = get_le (take 2 payload)"
  define p1 where "p1 = drop 2 payload"
  define n2 where "n2 = get_le (take 4 (drop n1 p1))"
  have l: "2 \<le> length payload" "n1 + 4 \<le> length p1" using assms by (simp_all add: n1_def p1_def)
  have n1: "n1 < 65536" using get_le_less [of "take 2 payload"] l(1) by (simp add: n1_def)
  have n2: "n2 < 2 ^ 32" using get_le_less [of "take 4 (drop n1 p1)"] l(2) by (simp add: n2_def)
  have len: "length (take n1 p1) = n1" using l(2) by simp
  have "payload = take 2 payload @ take n1 p1 @ take 4 (drop n1 p1) @ drop 4 (drop n1 p1)"
    by (simp add: p1_def flip: drop_drop)
  moreover have "put_le 2 n1 = take 2 payload" unfolding n1_def using l(1) by (intro put_le_get_le) simp
  moreover have "put_le 4 n2 = take 4 (drop n1 p1)" unfolding n2_def using l(2) by (intro put_le_get_le) simp
  ultimately have "payload = put_le 2 (length (take n1 p1)) @ take n1 p1 @ put_le 4 n2 @ drop 4 (drop n1 p1)"
    by (simp only: len)
  with n1 n2 len show thesis by (intro that [of "take n1 p1" n2]) simp_all
qed

text \<open>The other direction: one round of the loop takes one entry off the front.\<close>

lemma decode_loop_front:
  assumes w: "int_width w" and r: "decode_loop w payload m = r" "payload \<noteq> []" "r = Inr m' \<or> r = Inl SliceBoundsPanic"
  obtains (entry) e rest where "payload = encode_entry (fst e) (snd e) @ rest" "entry_range w e" "length rest < length payload"
      "decode_loop w rest (AList.update (fst e) (snd e) m) = r"
    | (negative) origin n rest where "payload = put_le 2 (length origin) @ origin @ put_le 4 n @ rest" "length origin \<le> 65535"
      "n < 2 ^ 32" "go_int w (int n) < 0" "r = Inl SliceBoundsPanic"
proof -
  from r have "2 \<le> length payload" "get_le (take 2 payload) + 4 \<le> length (drop 2 payload)"
    by (auto simp: decode_loop.simps [of w payload] Let_def split: if_splits)
  then obtain origin n rest where p: "payload = put_le 2 (length origin) @ origin @ put_le 4 n @ rest"
    and o: "length origin \<le> 65535" and n: "n < 2 ^ 32" by (rule payload_layout)
  note round = decode_loop_round [OF o n, of w rest m, folded p]
  show thesis
  proof (cases "go_int w (int n) < 0")
    case True
    with r round have "r = Inl SliceBoundsPanic" by (auto split: if_splits)
    with p o n True show thesis by (rule negative)
  next
    case False
    then have g: "go_int w (int n) = int n" using go_int_u32_nonneg [OF w n] by simp
    with r round have le: "n \<le> length rest"
      and d: "decode_loop w (drop n rest) (AList.update origin (take n rest) m) = r" by (auto split: if_splits)
    have "w = 32 \<or> w = 64" using w by (simp add: int_width_def)
    then have "go_int w (int n) < 2 ^ (w - 1)" using go_int_bounds [of w "int n"] by auto
    then have "n < 2 ^ (w - 1)" unfolding g by (metis of_nat_less_iff of_nat_numeral of_nat_power)
    then have "entry_range w (origin, take n rest)" using o n le by (simp add: entry_range_def)
    moreover have "payload = encode_entry (fst (origin, take n rest)) (snd (origin, take n rest)) @ drop n rest"
      using le by (simp add: p encode_entry_def)
    moreover have "length (drop n rest) < length payload" by (simp add: p)
    ultimately show thesis using d entry [of "(origin, take n rest)" "drop n rest"] by simp
  qed
qed

lemma decode_loop_InrD:
  assumes "int_width w" "decode_loop w payload m = Inr m'"
  shows "\<exists>es. payload = payload_of es \<and> (\<forall>e \<in> set es. entry_range w e) \<and> m' = map_put_all m es"
  using assms(2)
proof (induction "length payload" arbitrary: payload m rule: less_induct)
  case less
  show ?case
  proof (cases "payload = []")
    case True
    with less.prems show ?thesis by (intro exI [of _ "[]"]) simp
  next
    case False
    obtain e rest where
      e: "payload = encode_entry (fst e) (snd e) @ rest" "entry_range w e" "length rest < length payload"
        "decode_loop w rest (AList.update (fst e) (snd e) m) = Inr m'"
      by (rule decode_loop_front [OF assms(1) less.prems False, of m']) auto
    from less.hyps [OF e(3,4)] obtain es where
      "rest = payload_of es" "\<forall>e \<in> set es. entry_range w e" "m' = map_put_all (AList.update (fst e) (snd e) m) es" by blast
    with e(1,2) show ?thesis by (intro exI [of _ "e # es"]) (cases e, simp)
  qed
qed

text \<open>An entry is self-delimiting, so a payload is a list of entries in one way only.\<close>

lemma encode_entry_inject:
  assumes "encode_entry a b @ r = encode_entry a' b' @ r'" "length a \<le> 65535" "length a' \<le> 65535"
    "length b \<le> 4294967295" "length b' \<le> 4294967295"
  shows "a = a' \<and> b = b' \<and> r = r'"
proof -
  have two: "put_le 2 (length a) = put_le 2 (length a')"
    and t1: "a @ put_le 4 (length b) @ b @ r = a' @ put_le 4 (length b') @ b' @ r'"
    using assms(1) by (simp_all add: encode_entry_def append_eq_append_conv)
  from two have "length a mod 256 ^ 2 = length a' mod 256 ^ 2" by (metis get_le_put_le)
  then have a: "length a = length a'" using assms(2,3) by simp
  with t1 have "a = a'" "put_le 4 (length b) = put_le 4 (length b')" and t2: "b @ r = b' @ r'"
    by (simp_all add: append_eq_append_conv)
  from this(2) have "length b mod 256 ^ 4 = length b' mod 256 ^ 4" by (metis get_le_put_le)
  then have "length b = length b'" using assms(4,5) by simp
  with t2 \<open>a = a'\<close> show ?thesis by simp
qed

lemma payload_of_inject:
  assumes "payload_of es = payload_of es'" "\<forall>e \<in> set es. entry_range w e" "\<forall>e \<in> set es'. entry_range w e"
  shows "es = es'"
  using assms
proof (induction es arbitrary: es')
  case Nil
  then show ?case by (cases es') (simp_all add: encode_entry_def)
next
  case (Cons e es)
  obtain e' fs where es': "es' = e' # fs" using Cons.prems(1) by (cases es') (simp_all add: encode_entry_def)
  have "fst e = fst e' \<and> snd e = snd e' \<and> payload_of es = payload_of fs"
    using Cons.prems es' by (intro encode_entry_inject) (simp_all add: entry_range_def)
  with Cons.IH [of fs] Cons.prems(2,3) es' show ?case by (simp add: prod_eq_iff)
qed

section \<open>Note lengths of $2^{31}$ and more\<close>

text \<open>The payload has, after some well-formed entries, an entry whose length field \<open>n\<close> is not an \<open>int32\<close>.\<close>

definition large_note :: "bytes \<Rightarrow> entry list \<Rightarrow> bytes \<Rightarrow> nat \<Rightarrow> bytes \<Rightarrow> bool" where
  "large_note payload es origin n rest \<longleftrightarrow>
     payload = payload_of es @ put_le 2 (length origin) @ origin @ put_le 4 n @ rest
     \<and> (\<forall>e \<in> set es. entry_range 32 e) \<and> length origin \<le> 65535 \<and> 2 ^ 31 \<le> n \<and> n < 2 ^ 32"

lemma decode_loop_skip:
  assumes "0 < w" "\<forall>e \<in> set es. entry_range w e"
  shows "decode_loop w (payload_of es @ rest) m = decode_loop w rest (map_put_all m es)"
  using assms(2)
proof (induction es arbitrary: m)
  case (Cons e es)
  then show ?case using decode_loop_entry [OF assms(1), of "fst e" "snd e" "payload_of es @ rest"]
    by (cases e) (simp add: entry_range_def)
qed simp

lemma go_int_32_large: "2 ^ 31 \<le> n \<Longrightarrow> n < 2 ^ 32 \<Longrightarrow> go_int 32 (int n) < 0"
proof -
  assume "2 ^ 31 \<le> n" "n < 2 ^ 32"
  then have n: "2 ^ 31 \<le> int n" "int n < 2 ^ 32"
    by (metis of_nat_le_iff of_nat_numeral of_nat_power, metis of_nat_less_iff of_nat_numeral of_nat_power)
  have "(int n + 2 ^ 31 - 2 ^ 32) mod 2 ^ 32 = int n + 2 ^ 31 - 2 ^ 32"
    using n by (intro mod_pos_pos_trivial) auto
  then have "(int n + 2 ^ 31) mod 2 ^ 32 = int n + 2 ^ 31 - 2 ^ 32" by (simp only: minus_mod_self2)
  then show ?thesis using n by (simp add: go_int_def)
qed

lemma go_int_64_u32: "n < 2 ^ 32 \<Longrightarrow> go_int 64 (int n) = int n"
  by (intro go_int_id) auto

text \<open>
  C15: The decoder implements the format. For both widths of \<open>int\<close>, \<open>decode\<close> returns a map exactly when the payload is a
  concatenation of well-formed entries, which is then unique, and the map is the one of these entries with the
  last note of each origin.
\<close>

theorem decode_iff_entries:
  assumes "int_width w"
  shows "decode w payload = Inr m \<longleftrightarrow>
    (\<exists>!es. payload = payload_of es \<and> (\<forall>e \<in> set es. entry_range w e) \<and> m = map_put_all [] es)"
proof
  assume "decode w payload = Inr m"
  then obtain es where es: "payload = payload_of es" "\<forall>e \<in> set es. entry_range w e" "m = map_put_all [] es"
    unfolding decode_def using decode_loop_InrD [OF assms] by blast
  then show "\<exists>!es. payload = payload_of es \<and> (\<forall>e \<in> set es. entry_range w e) \<and> m = map_put_all [] es"
    by (intro ex1I [of _ es]) (auto intro: payload_of_inject)
next
  assume "\<exists>!es. payload = payload_of es \<and> (\<forall>e \<in> set es. entry_range w e) \<and> m = map_put_all [] es"
  then obtain es where "payload = payload_of es" "\<forall>e \<in> set es. entry_range w e" "m = map_put_all [] es"
    by (elim ex1E conjE)
  moreover have "0 < w" using assms by (auto simp: int_width_def)
  ultimately show "decode w payload = Inr m" by (simp add: decode_def decode_loop_payload)
qed

theorem decode_iff_entries_witness:
  "\<exists>!es. put_le 2 1 @ ''o'' @ put_le 4 2 @ ''nn'' = payload_of es \<and> (\<forall>e \<in> set es. entry_range 32 e)
     \<and> [(''o'', ''nn'')] = map_put_all [] es"
proof -
  have w: "int_width 32" by (simp add: int_width_def)
  have "decode 32 (payload_of [(''o'', ''nn'')]) = Inr (map_put_all [] [(''o'', ''nn'')])"
    unfolding decode_def by (rule decode_loop_payload) (simp_all add: entry_range_def)
  moreover have "payload_of [(''o'', ''nn'')] = put_le 2 1 @ ''o'' @ put_le 4 2 @ ''nn''"
    by (simp add: encode_entry_def numeral_2_eq_2)
  ultimately have "decode 32 (put_le 2 1 @ ''o'' @ put_le 4 2 @ ''nn'') = Inr [(''o'', ''nn'')]" by simp
  then show ?thesis by (rule iffD1 [OF decode_iff_entries [OF w]])
qed

text \<open>A large length is met only on a 32-bit platform, where it is negative.\<close>

lemma decode_loop_panicD:
  assumes "int_width w" "decode_loop w payload m = Inl SliceBoundsPanic"
  shows "w = 32 \<and> (\<exists>es origin n rest. large_note payload es origin n rest)"
  using assms(2)
proof (induction "length payload" arbitrary: payload m rule: less_induct)
  case less
  from less.prems have "payload \<noteq> []" by (subst (asm) decode_loop.simps) auto
  then consider
      (entry) e rest where "payload = encode_entry (fst e) (snd e) @ rest" "entry_range w e" "length rest < length payload"
        "decode_loop w rest (AList.update (fst e) (snd e) m) = Inl SliceBoundsPanic"
    | (negative) origin n rest where "payload = put_le 2 (length origin) @ origin @ put_le 4 n @ rest" "length origin \<le> 65535"
        "n < 2 ^ 32" "go_int w (int n) < 0"
    by (rule decode_loop_front [OF assms(1) less.prems, of m]) auto
  then show ?case
  proof cases
    case (entry e rest)
    from less.hyps [OF entry(3,4)] obtain es origin n rest' where
      w: "w = 32" and l: "large_note rest es origin n rest'" by blast
    from l entry(1,2) w have "large_note payload (e # es) origin n rest'" by (simp add: large_note_def)
    with w show ?thesis by blast
  next
    case (negative origin n rest)
    have "w \<noteq> 64" using go_int_64_u32 [OF negative(3)] negative(4) by auto
    with assms(1) have w: "w = 32" by (simp add: int_width_def)
    have "2 ^ 31 \<le> n"
    proof (rule ccontr)
      assume "\<not> 2 ^ 31 \<le> n"
      then have "go_int 32 (int n) = int n" by (intro go_int_id_nat) simp_all
      with negative(4) w show False by simp
    qed
    with negative have "large_note payload [] origin n rest" by (simp add: large_note_def)
    with w show ?thesis by blast
  qed
qed

text \<open>
  C17: \<open>decode\<close> panics exactly when, on a platform whose \<open>int\<close> has 32 bits, the payload has, after any well-formed entries,
  an entry with a note length of at least $2^{31}$, which becomes a negative slice bound. With 64 bits no payload panics:
  such an entry is rejected as truncated, or, when all its bytes are there, read like any other.
\<close>

theorem decode_panics_iff_large_note:
  assumes "int_width w"
  shows "(decode w payload = Inl SliceBoundsPanic \<longleftrightarrow> w = 32 \<and> (\<exists>es origin n rest. large_note payload es origin n rest))
    \<and> (large_note payload es origin n rest \<longrightarrow> w = 64 \<longrightarrow> decode w payload =
        (if length rest < n then Inl TruncatedNote
         else decode_loop w (drop n rest) (map_put_all [] (es @ [(origin, take n rest)]))))"
proof -
  have r: "decode w payload = decode_loop w (put_le 2 (length origin) @ origin @ put_le 4 n @ rest) (map_put_all [] es)"
    "length origin \<le> 65535" "n < 2 ^ 32" "2 ^ 31 \<le> n" if "large_note payload es origin n rest" for es origin n rest
  proof -
    have "\<forall>e \<in> set es. entry_range w e" "0 < w"
      using that assms by (auto simp: large_note_def entry_range_def int_width_def)
    then show "decode w payload = decode_loop w (put_le 2 (length origin) @ origin @ put_le 4 n @ rest) (map_put_all [] es)"
      using that by (simp add: decode_def large_note_def decode_loop_skip)
  qed (use that in \<open>simp_all add: large_note_def\<close>)
  have "decode w payload = Inl SliceBoundsPanic" if "w = 32" "large_note payload es origin n rest" for es origin n rest
    using r [OF that(2)] go_int_32_large [OF r(4,3) [OF that(2)]] that(1) by (simp add: decode_loop_round)
  moreover have "w = 32 \<and> (\<exists>es origin n rest. large_note payload es origin n rest)" if "decode w payload = Inl SliceBoundsPanic"
    using that decode_loop_panicD [OF assms] by (simp add: decode_def)
  moreover have "decode w payload = (if length rest < n then Inl TruncatedNote
      else decode_loop w (drop n rest) (map_put_all [] (es @ [(origin, take n rest)])))"
    if "large_note payload es origin n rest" "w = 64"
    using r [OF that(1)] that(2) by (simp add: decode_loop_round go_int_64_u32 map_put_all_append)
  ultimately show ?thesis by blast
qed

theorem decode_panics_iff_large_note_witness:
  "decode 32 (encode_entry ''o'' ''note'' @ put_le 2 1 @ ''p'' @ put_le 4 (2 ^ 31) @ ''abc'') = Inl SliceBoundsPanic
   \<and> decode 64 (encode_entry ''o'' ''note'' @ put_le 2 1 @ ''p'' @ put_le 4 (2 ^ 31) @ ''abc'') = Inl TruncatedNote"
proof -
  have w: "int_width 32" "int_width 64" by (simp_all add: int_width_def)
  let ?p = "encode_entry ''o'' ''note'' @ put_le 2 1 @ ''p'' @ put_le 4 (2 ^ 31) @ ''abc''"
  have l: "large_note ?p [(''o'', ''note'')] ''p'' (2 ^ 31) ''abc''" by (simp add: large_note_def entry_range_def)
  from decode_panics_iff_large_note [OF w(1), of ?p] decode_panics_iff_large_note [OF w(2), of ?p] l show ?thesis by auto
qed

end
