(* ===== verification/Spec2Isabelle.thy ===== *)
theory Spec2Isabelle
  imports Operator_Run Rpmb_Provision Image_System Firmware_Net Sequencer Blob_Parser
begin

text \<open>
  \<^bold>\<open>A verification library for vitrum\<close>

  vitrum is a transparency-log witness for the USB armory: it accepts checkpoints of append-only logs, checks that
  each one is consistent with the last one it cosigned, signs it, and keeps its state in an encrypted blob whose
  digest and generation are anchored in the replay-protected memory block (RPMB) of the eMMC. Host tools provision it,
  feed it and test it. This theory imports the models of all parts and states the properties that span them.

  \<^bold>\<open>Parts of the program and the theories that model them\<close>

  \<^item> \<^emph>\<open>Foundations.\<close> \<open>Vitrum_Prelude\<close>: byte strings, machine integers (\<open>u32\<close>, \<open>u64\<close>, Go's \<open>int\<close> of a given width as
    \<open>go_int\<close>), little-endian encodings, Go maps as association lists. \<open>Go_Strings\<close>, \<open>Go_Spaces\<close>, \<open>Go_Paths\<close>: what the code uses of
    \<open>strconv\<close>, \<open>strings\<close>, \<open>encoding/hex\<close> and \<open>path/filepath\<close>.
  \<^item> \<^emph>\<open>Witness\<close> (\<^verbatim>\<open>internal/witness/witness.go\<close>). \<open>Witness_Store\<close>: the \<open>Store\<close> interface as a record of operations with the
    locale \<open>store\<close>, \<open>MemStore\<close>, \<open>RestoreNote\<close>. \<open>Witness_Core\<close>: the record \<open>witness\<close> (pools, signer, epoch, counters) and one
    definition per method (\<open>AddCheckpoint\<close>, \<open>addToPool\<close>, \<open>sequencePool\<close>, \<open>SetSigner\<close>, ...). A waiting HTTP handler is an entry of
    \<open>w_heap\<close>; the mutexes of the code are the granularity of the step relation \<open>wstep\<close>, in which submissions, key
    changes and the phases of the sequencer interleave. \<open>Consistency\<close>: the chains of consistent tree states.
    \<open>Witness_Heap\<close>, \<open>Witness_Steps\<close>, \<open>Witness_Inv\<close>: the invariant of the pools and of the log of committed states, by rule
    induction. \<open>Witness_Theorems\<close>: consequences used by clients. \<open>Sequencer\<close>: the loop of \<open>RunSequencer\<close>
    refines \<open>wstep\<close>. \<open>Wire\<close> (\<^verbatim>\<open>wire.go\<close>, \<^verbatim>\<open>http.go\<close>): the request encoding and the two handlers.
    \<open>Exchange\<close>: a request together with the sequencer pass that answers it, as a client sees it.
  \<^item> \<^emph>\<open>Rollback-protected state\<close> (\<^verbatim>\<open>internal/state\<close>). \<open>Block_Device\<close>: the interface and its contract (locale
    \<open>block_device\<close>), with the test devices of \<^verbatim>\<open>blob_test.go\<close> as providers. \<open>Blob\<close> (\<^verbatim>\<open>blob.go\<close>): encoding, slots, AEAD,
    \<open>save\<close> and \<open>load\<close>; \<open>Blob_Parser\<close> characterises the decoder. \<open>Anchor\<close> (\<^verbatim>\<open>anchor*.go\<close>): \<open>MemAnchor\<close> and \<open>RPMBAnchor\<close> over a driver
    with the contract \<open>rpmb_driver_ok\<close>, as interpretations of the locale \<open>anchor\<close>. \<open>Rollback_Store\<close>
    (\<^verbatim>\<open>store.go\<close>): \<open>Open\<close>, \<open>PutBatch\<close>, halting. \<open>Sealed_Storage\<close>: the adversary who owns the medium and may replay but not
    forge blobs. \<open>Device_System\<close>: the life of a device, \<open>dstep\<close>, with boots, power failures inside a commit and
    tampering between steps; its invariant \<open>dinv\<close>. \<open>Storage_Theorems\<close>, \<open>Example_Run\<close>: consequences and one concrete
    run in which all hypotheses hold.
  \<^item> \<^emph>\<open>Provisioning.\<close> \<open>Provision_Server\<close> (\<^verbatim>\<open>internal/provision/server.go\<close>) and \<open>Provision_Client\<close>
    (\<^verbatim>\<open>cmd/vitrum/provision.go\<close>), which are composed: the client runs against the network \<open>device_net\<close> behind which is the
    server's \<open>handleSession\<close>. \<open>Key_Sessions\<close>: the server's sessions and the witness interleaved at their locks and inside
    \<open>zero\<close>, with signers that read the key slice they close over (\<open>kstep\<close>, invariant \<open>kinv\<close>); it refines \<open>wstep\<close>, and the
    sequential sessions of \<open>Provision_Server\<close> are runs of it. \<open>Keygen\<close> (\<^verbatim>\<open>keygen.go\<close>, \<^verbatim>\<open>hostkey.go\<close>, \<^verbatim>\<open>main.go\<close>).
  \<^item> \<^emph>\<open>Host tools\<close> (\<^verbatim>\<open>cmd/vitrum\<close>). \<open>Host_IO\<close>: commands as state-passing functions with \<open>log.Fatal\<close> as the left
    injection, and a file system with a schedule of faults. \<open>Host_Clients\<close> (\<^verbatim>\<open>client.go\<close>, \<^verbatim>\<open>logs.go\<close>, \<^verbatim>\<open>cosig.go\<close>,
    \<^verbatim>\<open>internal/config\<close>), \<open>Feed\<close>, \<open>Record_Fixtures\<close>, \<open>Selftest\<close>, \<open>Testlog\<close> (\<^verbatim>\<open>internal/testlog\<close>). They are composed with the
    witness through \<open>witness_behind\<close>: the network delivers a request to \<open>exchange\<close>. \<open>Host_Theorems\<close> has their properties,
    \<open>Operator_Run\<close> the sequence of \<open>provision\<close> and \<open>feed\<close> against one device.
  \<^item> \<^emph>\<open>Firmware and RPMB.\<close> \<open>Device_Key\<close> (\<^verbatim>\<open>fw/internal/devicekey\<close>), \<open>Hab\<close> (\<^verbatim>\<open>fw/internal/hab\<close>) and \<open>Ram_Log\<close>
    (\<^verbatim>\<open>logz.go\<close>) are shared by the two images. \<open>Firmware\<close> (\<^verbatim>\<open>fw/vitrum/target_*.go\<close>, \<^verbatim>\<open>main.go\<close>): the SD card wrapper, storage
    bring-up, the store of the witness (\<open>any_store\<close>, an interface value), LEDs. \<open>Firmware_Services\<close> (\<^verbatim>\<open>ssh.go\<close>,
    \<^verbatim>\<open>main.go\<close>): the SSH server, the start of the image, the health page. \<open>Firmware_Device\<close>: the image's witness refines the
    device model, through \<open>Store_Morphism\<close> (the witness does not see through its store). \<open>Image_System\<close>: the whole image,
    with its provisioning sessions, over the life of a device whose power cycles have keys of their own (\<open>dlife\<close>). \<open>Firmware_Net\<close>
    (\<^verbatim>\<open>net.go\<close>, \<^verbatim>\<open>hardware.go\<close>): network bring-up and interrupt service as traces of hardware calls. \<open>Rpmb_Card\<close> (\<^verbatim>\<open>internal/rpmbtest/fake.go\<close>):
    the simulated card. \<open>Rpmb_Provision\<close> (\<^verbatim>\<open>fw/rpmb-provision\<close>): the image that programs the RPMB key, over its transport.

  \<^bold>\<open>What the lemmas show\<close>

  Every component has its invariant and the preservation by each operation (\<open>dinv\<close>, \<open>winv\<close>, \<open>key_inv\<close>, \<open>kinv\<close>, \<open>card_ok\<close>, \<open>ring_ok\<close>, \<open>pinned\<close>),
  the behaviour of each operation on every branch, errors included, round trips of each codec, and the contracts of
  the interfaces, proved once in a locale and interpreted on the model's own providers. The properties of this theory are about the whole
  device: no two checkpoints of one size and different roots are ever committed, over any number of boots and under
  an adversary who rewrites the medium; halting; recovery after a power failure.

  \<^bold>\<open>Parameters and hypotheses\<close>

  Code outside the repository is an argument: \<open>ex_crypto\<close> (SHA-256, AES-GCM; \<open>crypto_ok\<close> is the round trip of
  sealing), \<open>ex_ParseCheckpoint\<close>, \<open>ex_CheckTree\<close> (the consistency proof checker), \<open>ex_Sign\<close> (\<open>sign_ok\<close>, \<open>signing_fn_ok\<close>: a signed note starts
  with its text), the RPMB driver (\<open>rpmb_driver_ok\<close>), the block device (\<open>block_device\<close>), the tree and note libraries
  (\<open>tlog_lib\<close>, \<open>note_lib\<close>; \<open>merkle_ok\<close>, \<open>prefix_sound\<close>, \<open>log_notes_ok\<close>, \<open>cosigner_ok\<close> and \<open>submittable\<close> are what they document), SSH
  (\<open>ssh_net\<close>, \<open>ssh_lib\<close>, \<open>signer_lib\<close>; \<open>texts_ok\<close>: key names are UTF-8 without white space and \<open>+\<close>), the eMMC driver (\<open>programs_key\<close>). Forgery of an AEAD and collisions of the digest are excluded
  per run (\<open>medium_ok\<close>, \<open>collision_free\<close>), never by assuming them impossible in general. Each hypothesis is discharged by
  a witness on concrete functions.

  \<^bold>\<open>Integers, loops and fuel\<close>

  The firmware runs with a 32-bit \<open>int\<close>; definitions whose result depends on it take the width as an argument.
  Generations and sizes on the medium are \<open>32 word\<close>. Loops are structural recursions where the source iterates
  over data, \<open>function\<close>s with a measure where it consumes a string, and \<open>partial_function\<close>s where the end depends on the
  environment (\<open>record_wait\<close>, \<open>seed_fill\<close>, \<open>hab_events\<close>, \<open>eth_drain\<close>), each with a lemma that gives the conditions under which it
  returns. No definition uses fuel.

  \<^bold>\<open>Not modelled\<close>

  The host build's stub (\<^verbatim>\<open>fw/vitrum/stub.go\<close>, which only exits) and the wiring of pins and clocks behind the hardware calls. The transport, path cleaning and time-outs of
  \<open>net/http\<close>, the SSH transport (of a handshake the outcome and the time are an argument), flag parsing, console and device log
  messages, JSON rendering. Data races: shared data is accessed under the locks of the source; a step is what one lock makes
  atomic, except that zeroing a key, which the lock of the witness does not cover, is a step per byte. The health page, which takes
  the locks one after the other, is modelled as read at one moment.
\<close>

section \<open>The device\<close>

text \<open>
  C1: No split view. Over the whole life of a device (any interleaving of submissions, key changes and
  sequencer passes, any number of boots, power failures inside commits, and an adversary who rewrites the
  medium between any two steps), two committed checkpoints of one origin with the same tree size have the
  same root hash. The medium may present replayed blobs but no forged ones at a boot, the digest has no
  collision among the blobs the device sealed, and the RPMB driver and the block device keep their contracts.
\<close>

theorem no_split_view:
  assumes "block_device dops mem" "rpmb_driver_ok rops content" "rpmb_view content a = fresh_anchor"
    "sign_ok ex" "crypto_ok (ex_crypto ex)"
    "dreach ex (device_platform dops mem rops content key) (factory d a) D"
    "(origin, s1) \<in> set (ds_log D)" "(origin, s2) \<in> set (ds_log D)" "ls_Size s1 = ls_Size s2"
  shows "ls_Hash s1 = ls_Hash s2"
proof -
  have "dinv ex (device_platform dops mem rops content key) D"
    by (rule device_dinv [OF assms(1-6)])
  then obtain V where "log_ok ex V (ds_log D)" by (auto simp: dinv_def)
  then show ?thesis using log_ok_same_size assms(7-9) by blast
qed

theorem no_split_view_witness:
  "(''o'', example_state) \<in> set (ds_log example_final) \<and> ls_Hash example_state = ls_Hash example_state"
  using no_split_view [OF mem_block_device sector_driver_ok example_card_fresh example_sign_ok
      example_crypto_ok example_run, of "''o''" example_state example_state] example_log
  by simp

text \<open>
  C5: The log of committed checkpoints, in commit order and across boots, is a chain for every origin: each
  later entry is reached from each earlier one by consistency checks, so tree sizes never shrink.
\<close>

theorem log_is_chain:
  assumes "block_device dops mem" "rpmb_driver_ok rops content" "rpmb_view content a = fresh_anchor"
    "sign_ok ex" "crypto_ok (ex_crypto ex)"
    "dreach ex (device_platform dops mem rops content key) (factory d a) D"
  shows "sorted_wrt (\<lambda>(o1, s1) (o2, s2). o1 = o2 \<longrightarrow> reaches ex s1 s2 \<and> ls_Size s1 \<le> ls_Size s2) (ds_log D)"
proof -
  have "dinv ex (device_platform dops mem rops content key) D"
    by (rule device_dinv [OF assms(1-6)])
  then have "sorted_wrt (\<lambda>(a, s) (b, s'). a = b \<longrightarrow> reaches ex s s') (ds_log D)"
    by (auto simp: dinv_def log_ok_def)
  then show ?thesis by (rule sorted_wrt_mono_rel [rotated]) (auto dest: reaches_size)
qed

theorem log_is_chain_witness:
  "ds_log example_final = example_ups \<and>
   sorted_wrt (\<lambda>(o1, s1) (o2, s2). o1 = o2 \<longrightarrow> reaches example_ext s1 s2 \<and> ls_Size s1 \<le> ls_Size s2)
     (ds_log example_final)"
  using log_is_chain [OF mem_block_device sector_driver_ok example_card_fresh example_sign_ok
      example_crypto_ok example_run] example_log
  by simp

text \<open>
  C3: Rollback safety. Whenever the device runs on a store that is not halted, the store's view contains, for
  every checkpoint ever committed on any boot, a state at or beyond it; a boot from an older medium cannot
  make the witness forget.
\<close>

theorem rollback_safety:
  assumes "block_device dops mem" "rpmb_driver_ok rops content" "rpmb_view content a = fresh_anchor"
    "sign_ok ex" "crypto_ok (ex_crypto ex)"
    "dreach ex (device_platform dops mem rops content key) (factory d a) D"
    "ds_power D = On S" "\<not> rs_halted (w_store (ws_w S))" "(origin, st) \<in> set (ds_log D)"
  shows "\<exists>st'. rs_Get (w_store (ws_w S)) origin = Some st' \<and> reaches ex st st'"
proof -
  have "dinv ex (device_platform dops mem rops content key) D"
    by (rule device_dinv [OF assms(1-6)])
  then obtain V where "log_ok ex V (ds_log D)" "rs_Get (w_store (ws_w S)) = V"
    using assms(7,8) by (auto simp: dinv_def store_rel_def)
  then show ?thesis using assms(9) log_ok_reached by blast
qed

theorem rollback_safety_witness:
  "\<exists>S. ds_power example_final = On S \<and> \<not> rs_halted (w_store (ws_w S)) \<and>
     (\<exists>st'. rs_Get (w_store (ws_w S)) ''o'' = Some st' \<and> reaches example_ext example_state st')"
proof -
  obtain S where S: "ds_power example_final = On S" "\<not> rs_halted (w_store (ws_w S))"
    using example_running by blast
  show ?thesis
    using rollback_safety [OF mem_block_device sector_driver_ok example_card_fresh example_sign_ok
        example_crypto_ok example_run S, of "''o''" example_state] example_log S
    by auto
qed

text \<open>
  C4: A response with status 200 is backed by a commit. An entry of the running witness whose result is 200
  belongs to a state of the log with the candidate's origin, size and root hash, and the response body is the
  signature part of the committed note.
\<close>

theorem ok_response_is_committed:
  assumes "block_device dops mem" "rpmb_driver_ok rops content" "rpmb_view content a = fresh_anchor"
    "sign_ok ex" "crypto_ok (ex_crypto ex)"
    "dreach ex (device_platform dops mem rops content key) (factory d a) D"
    "ds_power D = On S" "e \<in> set (w_heap (ws_w S))" "pe_code e = StatusOK"
  shows "\<exists>st. (cp_Origin (cd_cp (pe_candidate e)), st) \<in> set (ds_log D)
    \<and> ls_Size st = cp_N (cd_cp (pe_candidate e)) \<and> ls_Hash st = cp_Hash (cd_cp (pe_candidate e))
    \<and> pe_resp e = drop (length (cd_text (pe_candidate e)) + 1) (ls_Note st)"
proof -
  have "dinv ex (device_platform dops mem rops content key) D"
    by (rule device_dinv [OF assms(1-6)])
  then have "heap_logged (ws_log S) (w_heap (ws_w S))" using assms(7) by (auto simp: dinv_def winv_def Let_def)
  then have "entry_logged (ws_log S) e" using assms(8,9) by (simp add: heap_logged_def)
  then show ?thesis using assms(7) by (auto simp: entry_logged_def ds_log_def Let_def)
qed

theorem ok_response_is_committed_witness:
  "\<exists>S e. ds_power example_final = On S \<and> e \<in> set (w_heap (ws_w S)) \<and> pe_code e = StatusOK \<and>
     (\<exists>st. (cp_Origin (cd_cp (pe_candidate e)), st) \<in> set (ds_log example_final))"
proof -
  obtain S e where S: "ds_power example_final = On S" "e \<in> set (w_heap (ws_w S))" "pe_code e = StatusOK"
    using example_ok_entry by blast
  show ?thesis
    using ok_response_is_committed [OF mem_block_device sector_driver_ok example_card_fresh example_sign_ok
        example_crypto_ok example_run S] S
    by blast
qed

text \<open>
  C10: The anchored generation never decreases, whatever the device, the power supply or the adversary does.
\<close>

theorem anchor_never_decreases:
  assumes "block_device dops mem" "rpmb_driver_ok rops content" "crypto_ok (ex_crypto ex)"
    "dreach ex (device_platform dops mem rops content key) D0 D"
  shows "as_gen (rpmb_view content (ds_anchor D0)) \<le> as_gen (rpmb_view content (ds_anchor D))"
  using assms(4)
proof (induction rule: dreach.induct)
  case (step D D')
  show ?case
    using rollback_platform.anchor_mono_step [OF device_platform_contract [OF assms(1,2)] step.hyps(2) assms(3)]
      step.IH by simp
qed simp

theorem anchor_never_decreases_witness:
  "as_gen (rpmb_view (\<lambda>r. r) (ds_anchor (factory example_dev example_card)))
     \<le> as_gen (rpmb_view (\<lambda>r. r) (ds_anchor example_final))"
  by (rule anchor_never_decreases [OF mem_block_device sector_driver_ok example_crypto_ok example_run])

section \<open>The persistent store\<close>

text \<open>
  C6: Every outcome of a commit. Success makes the whole batch visible at the next generation; every error
  leaves the visible states, the generation and (unless anchoring failed) the anchor as they were; the store
  halts exactly when the medium or the anchor may already have changed or the generations are used up.
\<close>

theorem PutBatch_outcomes:
  assumes "rs_PutBatch cr dops aops rnd s ups = (r, s')"
  shows "case r of
      None \<Rightarrow> \<not> rs_halted s' \<and> rs_mem s' = map_put_all (rs_mem s) ups \<and> unat (rs_gen s') = unat (rs_gen s) + 1
    | Some err \<Rightarrow> rs_mem s' = rs_mem s \<and> rs_gen s' = rs_gen s \<and>
        (case err of
           ErrHalted \<Rightarrow> rs_halted s' \<and> rs_dev s' = rs_dev s \<and> rs_anchor s' = rs_anchor s
             \<and> (rs_halted s \<or> rs_gen s = max_u32)
         | PersistFailed e \<Rightarrow> rs_anchor s' = rs_anchor s \<and> rs_halted s' = (e = ErrWriteFailed)
             \<and> (e \<noteq> ErrWriteFailed \<longrightarrow> rs_dev s' = rs_dev s)
         | AnchoringFailed g \<Rightarrow> rs_halted s' \<and> g = rs_gen s + 1)"
proof (cases "rs_halted s \<or> rs_gen s = max_u32")
  case True
  with assms show ?thesis by (auto simp: rs_PutBatch_def rs_halt_def split: if_splits)
next
  case False
  obtain v d' where sv: "save cr dops (rs_dev s) (rs_off s) (rs_key s) rnd (rs_gen s + 1)
      (next_notes (rs_All s) ups) = (v, d')" by fastforce
  show ?thesis
  proof (cases v)
    case (Inl e)
    with assms False sv show ?thesis using save_pre_write_error [of cr dops _ _ _ _ _ _ e d']
      by (auto simp: rs_PutBatch_def Let_def split: if_splits)
  next
    case (Inr h)
    obtain e a' where set: "an_set aops (rs_anchor s) \<lparr>as_gen = rs_gen s + 1, as_hash = h, as_bound = True\<rparr> = (e, a')"
      by fastforce
    with assms False sv Inr show ?thesis
      by (cases e) (auto simp: rs_PutBatch_def Let_def ms_PutBatch_def unat_plus_one_max)
  qed
qed

theorem PutBatch_outcomes_witness:
  "\<exists>s'. rs_PutBatch example_crypto mem_ops (rpmb_anchor_ops sector_ops) (Some example_nonce) example_store
     example_ups = (None, s') \<and> \<not> rs_halted s' \<and> rs_mem s' = example_ups \<and> unat (rs_gen s') = 1"
proof -
  obtain s' where s': "rs_PutBatch example_crypto mem_ops (rpmb_anchor_ops sector_ops) (Some example_nonce)
      example_store example_ups = (None, s')" using example_PutBatch by blast
  from PutBatch_outcomes [OF s'] s' show ?thesis by (simp add: example_store_def)
qed

text \<open>
  C12: A halted store stays halted and the witness on it commits nothing: from a state with a halted store, no step
  of the witness changes the store or the log, and every submission is answered with 503.
\<close>

theorem halted_witness_is_frozen:
  assumes "wreach ex (rollback_store_ops cr dops aops) S S'" "rs_halted (w_store (ws_w S))"
  shows "w_store (ws_w S') = w_store (ws_w S) \<and> ws_log S' = ws_log S
    \<and> (\<exists>resp. AddCheckpoint ex (rollback_store_ops cr dops aops) (ws_w S') body =
         (Inl (StatusServiceUnavailable, resp), ws_w S'))"
proof -
  have "w_store (ws_w S') = w_store (ws_w S) \<and> ws_log S' = ws_log S"
    using assms by (induction rule: wreach.induct) (auto dest: halted_step)
  with assms(2) show ?thesis
    by (auto simp: AddCheckpoint_def w_Halted_def rollback_store_ops_def rs_Halted_def split: option.split)
qed

theorem halted_witness_is_frozen_witness:
  "\<exists>S'. wreach example_ext (rollback_store_ops example_crypto mem_ops (rpmb_anchor_ops sector_ops))
       (winit (rs_halt example_store)) S' \<and> Provisioned (ws_w S') \<and> ws_log S' = []"
proof -
  let ?S = "winit (rs_halt example_store)"
  have r: "wreach example_ext (rollback_store_ops example_crypto mem_ops (rpmb_anchor_ops sector_ops)) ?S
      (?S\<lparr>ws_w := SetSigner 7 (ws_w ?S)\<rparr>)"
    by (rule wreach.step [OF wreach.init wstep.set_signer])
  have h: "rs_halted (w_store (ws_w ?S))" by (simp add: winit_def New_def)
  from halted_witness_is_frozen [OF r h, of "[]"] r show ?thesis
    by (intro exI [of _ "?S\<lparr>ws_w := SetSigner 7 (ws_w ?S)\<rparr>"]) (simp add: winit_def SetSigner_def Provisioned_def)
qed

text \<open>
  C16: What a successful \<open>save\<close> wrote is what \<open>load\<close> returns: same notes, same generation and the digest that
  \<open>save\<close> reported, as long as the other slot is unreadable or holds an older generation, on every device that keeps
  the contract and serves reads.
\<close>

theorem save_load_roundtrip:
  assumes "block_device ops mem" "reads_ok ops offset" "offset_ok offset" "int_width w" "aead_ok cr"
    "length nonce = nonceLen" "wf_map states"
    "save cr ops d offset key (Some nonce) gen states = (Inr h, d')"
    "older_slot gen (slot_result cr w ops mem offset key d (1 - unat gen mod 2))"
  shows "\<exists>blob. fst (load cr w ops d' offset key) = Inr blob \<and> lb_gen blob = gen \<and> lb_hash blob = h
    \<and> map_of (lb_states blob) = map_of states"
  using block_device.save_then_load [OF assms(1,8,3,4,5,6,7,2,9)] by simp

theorem save_load_roundtrip_witness:
  "\<exists>h d' blob. save example_crypto mem_ops example_dev Offset example_key (Some example_nonce) 1
      (next_notes (rs_All example_store) example_ups) = (Inr h, d')
    \<and> fst (load example_crypto 32 mem_ops d' Offset example_key) = Inr blob \<and> lb_gen blob = 1"
proof -
  obtain h d' where s: "save example_crypto mem_ops example_dev Offset example_key (Some example_nonce) 1
      (next_notes (rs_All example_store) example_ups) = (Inr h, d')" using example_save by blast
  have "older_slot 1 (slot_result example_crypto 32 mem_ops md_mem Offset example_key example_dev (1 - unat (1 :: u32) mod 2))"
    by (simp add: older_slot_def slot_result_def example_slotLBA slot_bytes_blank parseSlot_blank)
  from save_load_roundtrip [OF mem_block_device mem_reads_ok _ _ _ _ _ s this] s show ?thesis
    using example_crypto_ok by (auto simp: int_width_def crypto_ok_def example_nonce_def nonceLen_def)
qed

text \<open>
  A commit touches only the slot of its generation: \<open>save\<close> changes no byte of the medium outside that slot,
  whatever its outcome, and every error before the write leaves the device as it was.
\<close>

lemma save_touches_only_its_slot:
  assumes "block_device ops mem" "offset_ok offset"
    "save cr ops d offset key rnd gen states = (r, d')"
  shows "(\<forall>addr. \<not> in_range (slot_base offset (unat gen mod 2)) SlotSize addr \<longrightarrow> mem d' addr = mem d addr)
    \<and> (\<forall>e. r = Inl e \<longrightarrow> e \<noteq> ErrWriteFailed \<longrightarrow> d' = d)"
proof (intro conjI allI impI)
  show "mem d' addr = mem d addr" if "\<not> in_range (slot_base offset (unat gen mod 2)) SlotSize addr" for addr
    using block_device.save_frame [OF assms(1,3,2) that] .
  show "d' = d" if "r = Inl e" "e \<noteq> ErrWriteFailed" for e
    using save_pre_write_error [of cr ops d offset key rnd gen states e d'] assms(3) that by simp
qed

text \<open>
  C7: The boot decision. A store that \<open>Open\<close> leaves running comes from one of three situations only: nothing could be
  loaded and the anchor was never set; or the blob has the anchored generation and the anchored digest; or it is exactly
  one generation ahead of the anchor, its notes are admitted and the anchor was moved to it. Everything else is halted.
\<close>

theorem Open_runs_only_anchored:
  assumes "Open ex w dops aops dev offset key anc = Inr s" "\<not> rs_halted s"
    "an_get aops anc = (Inr anchored, anc')" "load (ex_crypto ex) w dops dev offset key = (r, dev')"
  shows "(\<exists>e. r = Inl e \<and> as_gen anchored = 0 \<and> \<not> as_bound anchored \<and> rs_mem s = [] \<and> rs_gen s = 0)
    \<or> (\<exists>blob. r = Inr blob \<and> as_bound anchored \<and> lb_gen blob = as_gen anchored \<and> lb_hash blob = as_hash anchored
        \<and> rs_gen s = lb_gen blob)
    \<or> (\<exists>blob restored. r = Inr blob \<and> unat (lb_gen blob) = unat (as_gen anchored) + 1
        \<and> admit_loop ex (lb_states blob) [] = Inr restored \<and> rs_mem s = map_put_all [] restored
        \<and> fst (an_set aops anc' (anchorFor blob)) = None \<and> rs_gen s = lb_gen blob)"
proof (cases r)
  case (Inl e)
  with assms show ?thesis by (auto simp: Open_def NewMemStore_def Let_def split: if_splits)
next
  case (Inr blob)
  show ?thesis
  proof (cases "lb_gen blob = as_gen anchored")
    case True
    with Inr assms show ?thesis
      by (auto simp: Open_def admit_def Let_def split: if_splits sum.splits)
  next
    case False
    with Inr assms show ?thesis
      by (auto simp: Open_def admit_def NewMemStore_def Let_def unat_plus_one_max
          split: if_splits sum.splits prod.splits option.splits)
  qed
qed

theorem Open_runs_only_anchored_witness:
  "pf_Open example_ext example_pf example_dev example_card = Inr example_store \<and> rs_mem example_store = []"
proof -
  have o': "Open example_ext 32 mem_ops (rpmb_anchor_ops sector_ops) example_dev Offset example_key example_card = Inr example_store"
    using example_Open by (simp add: pf_Open_def)
  have "an_get (rpmb_anchor_ops sector_ops) example_card = (Inr fresh_anchor, example_card)"
    by (simp add: rpmb_anchor_ops_def example_Anchor)
  from Open_runs_only_anchored [OF o' _ this example_load] show ?thesis
    using example_Open by (auto simp: example_store_def)
qed

text \<open>
  C8: An interrupted commit is rolled forward. When power fails after the blob was written and before the anchor moved,
  the next boot of the untouched medium accepts the new generation, moves the anchor to it, and runs with the whole batch.
\<close>

theorem interrupted_commit_rolls_forward:
  assumes "block_device dops mem" "rpmb_driver_ok rops content" "crypto_ok (ex_crypto ex)"
    "reads_ok dops Offset" "nonce_ok rnd"
    "store_rel ex (device_platform dops mem rops content key) sealed V s" "wf_map (rs_mem s)" "batch_ok ex V ups"
    "\<not> rs_halted s" "rs_gen s \<noteq> max_u32"
    "save (ex_crypto ex) dops (rs_dev s) (rs_off s) (rs_key s) rnd (rs_gen s + 1) (next_notes (rs_All s) ups) = (Inr h, d')"
    "older_slot (rs_gen s + 1) (slot_result (ex_crypto ex) 32 dops mem Offset key (rs_dev s) (1 - unat (rs_gen s + 1) mod 2))"
    "rpmb_Anchor rops (rs_anchor s) = (Inr x, a')"
    "rpmb_SetAnchor rops a' \<lparr>as_gen = rs_gen s + 1, as_hash = h, as_bound = True\<rparr> = (None, a'')"
  shows "\<exists>s'. Open ex 32 dops (rpmb_anchor_ops rops) d' Offset key (rs_anchor s) = Inr s' \<and> \<not> rs_halted s'
    \<and> rs_Get s' = V ++ map_of ups \<and> rs_gen s' = rs_gen s + 1 \<and> rs_anchor s' = a''"
  using rollback_platform.reboot_after_interrupted_commit
    [OF device_platform_contract [OF assms(1,2)] assms(6-8,3,5) _ assms(9,10)] assms(4,11-14)
  by (simp add: pf_Open_def rpmb_anchor_ops_def)

theorem interrupted_commit_rolls_forward_witness:
  "\<exists>h d' a''. save example_crypto mem_ops example_dev Offset example_key (Some example_nonce) 1
      (next_notes (rs_All example_store) example_ups) = (Inr h, d')
    \<and> rpmb_SetAnchor sector_ops example_card \<lparr>as_gen = 1, as_hash = h, as_bound = True\<rparr> = (None, a'')
    \<and> (\<exists>s'. Open example_ext 32 mem_ops (rpmb_anchor_ops sector_ops) d' Offset example_key example_card = Inr s'
         \<and> \<not> rs_halted s' \<and> rs_Get s' = map_of example_ups)"
proof -
  obtain h d' where s: "save example_crypto mem_ops example_dev Offset example_key (Some example_nonce) 1
      (next_notes (rs_All example_store) example_ups) = (Inr h, d')" using example_save by blast
  obtain a'' where a: "rpmb_SetAnchor sector_ops example_card \<lparr>as_gen = 1, as_hash = h, as_bound = True\<rparr> = (None, a'')"
    using example_SetAnchor by blast
  note st = example_store_def
  have "\<exists>s'. Open example_ext 32 mem_ops (rpmb_anchor_ops sector_ops) d' Offset example_key (rs_anchor example_store) = Inr s'
      \<and> \<not> rs_halted s' \<and> rs_Get s' = Map.empty ++ map_of example_ups
      \<and> rs_gen s' = rs_gen example_store + 1 \<and> rs_anchor s' = a''"
    by (rule interrupted_commit_rolls_forward [OF mem_block_device sector_driver_ok example_crypto_ok
          mem_reads_ok [OF offset_ok_Offset] _ example_store_rel _ example_batch_ok, where rnd = "Some example_nonce"])
      (use s a example_Anchor example_older in \<open>simp_all add: st max_u32_def nonce_ok_def example_nonce_def nonceLen_def\<close>)
  then show ?thesis using s a by (auto simp: st)
qed

text \<open>
  C9: A committed state survives a reboot. After a commit that reported success, the next boot of the untouched medium
  runs, at the same generation and with exactly the states that were visible before.
\<close>

theorem committed_state_survives_reboot:
  assumes "block_device dops mem" "rpmb_driver_ok rops content" "crypto_ok (ex_crypto ex)"
    "reads_ok dops Offset" "nonce_ok rnd"
    "store_rel ex (device_platform dops mem rops content key) sealed V s" "wf_map (rs_mem s)" "batch_ok ex V ups"
    "rs_PutBatch (ex_crypto ex) dops (rpmb_anchor_ops rops) rnd s ups = (None, s1)"
    "older_slot (rs_gen s + 1) (slot_result (ex_crypto ex) 32 dops mem Offset key (rs_dev s) (1 - unat (rs_gen s + 1) mod 2))"
    "rpmb_Anchor rops (rs_anchor s1) = (Inr x, a')"
  shows "\<exists>s2. Open ex 32 dops (rpmb_anchor_ops rops) (rs_dev s1) Offset key (rs_anchor s1) = Inr s2
    \<and> \<not> rs_halted s2 \<and> rs_Get s2 = rs_Get s1 \<and> rs_gen s2 = rs_gen s1"
  using rollback_platform.reboot_after_commit [OF device_platform_contract [OF assms(1,2)] assms(6-8,3,5)] assms(4,9-11)
  by (simp add: pf_Open_def rpmb_anchor_ops_def)

theorem committed_state_survives_reboot_witness:
  "\<exists>s1 s2. rs_PutBatch example_crypto mem_ops (rpmb_anchor_ops sector_ops) (Some example_nonce) example_store
       example_ups = (None, s1)
    \<and> Open example_ext 32 mem_ops (rpmb_anchor_ops sector_ops) (rs_dev s1) Offset example_key (rs_anchor s1) = Inr s2
    \<and> \<not> rs_halted s2 \<and> rs_Get s2 = rs_Get s1"
proof -
  obtain s1 x a' where pb: "rs_PutBatch example_crypto mem_ops (rpmb_anchor_ops sector_ops) (Some example_nonce)
      example_store example_ups = (None, s1)" and g: "rpmb_Anchor sector_ops (rs_anchor s1) = (Inr x, a')"
    using example_PutBatch_anchor by blast
  have "\<exists>s2. Open example_ext 32 mem_ops (rpmb_anchor_ops sector_ops) (rs_dev s1) Offset example_key (rs_anchor s1) = Inr s2
      \<and> \<not> rs_halted s2 \<and> rs_Get s2 = rs_Get s1 \<and> rs_gen s2 = rs_gen s1"
    by (rule committed_state_survives_reboot [OF mem_block_device sector_driver_ok example_crypto_ok
          mem_reads_ok [OF offset_ok_Offset] _ example_store_rel _ example_batch_ok, where rnd = "Some example_nonce"])
      (use pb g example_older in \<open>simp_all add: example_store_def nonce_ok_def example_nonce_def nonceLen_def\<close>)
  with pb show ?thesis by blast
qed

section \<open>The witness\<close>

text \<open>
  C18: In every reachable state of a witness, on any store that keeps the contract, the pool is bounded by 256 entries, an
  origin is pending at most once over both pools, and the store's states are valid.
\<close>

theorem pools_bounded_and_disjoint:
  assumes "store sops sinv" "sinv st" "valid_view ex (st_Get sops st)" "sign_ok ex" "wreach ex sops (winit st) S"
  shows "length (w_currentPool (ws_w S)) \<le> maxPoolSize
    \<and> distinct (map fst (w_currentPool (ws_w S) @ w_inSequencing (ws_w S)))
    \<and> valid_view ex (st_Get sops (w_store (ws_w S)))"
proof -
  have "winv ex sops sinv S"
    by (rule witness_store.winv_reach [OF witness_store.intro [OF assms(1)] assms(5,2,3,4)])
  then show ?thesis
    by (auto simp: winv_def pools_ok_def pool_ok_def wf_map_def Let_def)
qed

theorem pools_bounded_and_disjoint_witness:
  "\<exists>S. wreach example_ext (pf_sops example_ext example_pf) (winit example_store) S
     \<and> length (w_currentPool (ws_w S)) = 1 \<and> 1 \<le> maxPoolSize"
  using pools_bounded_and_disjoint [OF example_store_contract example_store_wf example_store_valid example_sign_ok
      example_reach_submitted] example_reach_submitted
  by (intro exI [of _ "winit example_store\<lparr>ws_w := example_submitted\<rparr>"]) (simp add: example_submitted_def)

text \<open>
  C19: A sequencer pass settles every submission it found: afterwards the waiting call of each pending entry returns, with
  200, 500 or 503, and both pools are empty.
\<close>

theorem sequence_settles_all:
  assumes "store sops sinv" "sinv st" "valid_view ex (st_Get sops st)" "sign_ok ex" "wreach ex sops (winit st) S"
    "(origin, r) \<in> set (w_currentPool (ws_w S))"
  shows "\<exists>code resp. await_entry (sequence ex sops env now t (ws_w S)) r = Some (code, resp)
    \<and> code \<in> {StatusOK, StatusInternalServerError, StatusServiceUnavailable}
    \<and> w_currentPool (sequence ex sops env now t (ws_w S)) = []
    \<and> w_inSequencing (sequence ex sops env now t (ws_w S)) = []"
proof -
  have "winv ex sops sinv S"
    by (rule witness_store.winv_reach [OF witness_store.intro [OF assms(1)] assms(5,2,3,4)])
  then have "pool_ok ex (w_heap (ws_w S)) (w_currentPool (ws_w S))" by (simp add: winv_def pools_ok_def Let_def)
  from sequence_settles [OF this assms(6), of sops env now t] show ?thesis by (simp add: sequence_pools)
qed

theorem sequence_settles_all_witness:
  "\<exists>code resp. await_entry (sequence example_ext (pf_sops example_ext example_pf) (Some example_nonce) (\<lambda>_. 0) 0
     example_submitted) 0 = Some (code, resp) \<and> code \<in> {StatusOK, StatusInternalServerError, StatusServiceUnavailable}"
  using sequence_settles_all [OF example_store_contract example_store_wf example_store_valid example_sign_ok
      example_reach_submitted, of "''o''" 0 "Some example_nonce" "\<lambda>_. 0" 0]
  by (auto simp: example_submitted_def)

text \<open>
  C20: A key change reaches every pending submission: an entry whose signer or epoch is not the current one is not signed,
  its result is not 200, and no state of its origin is committed.
\<close>

theorem stale_key_never_signs:
  assumes "pool_ok ex (w_heap w) p" "(origin, r) \<in> set p" "w_signer w = Some sg"
    "cd_signer (pe_candidate (w_heap w ! r)) \<noteq> sg \<or> cd_epoch (pe_candidate (w_heap w ! r)) \<noteq> w_epoch w"
  shows "pe_code (w_heap (sequencePool ex sops env now t p w) ! r) \<noteq> StatusOK
    \<and> origin \<notin> fst ` set (committed_batch ex sops env now p w)"
  by (rule stale_key_refused [OF assms(1,2)]) (use assms(3,4) in \<open>auto simp: key_current_def\<close>)

theorem stale_key_never_signs_witness:
  "''o'' \<notin> fst ` set (committed_batch example_ext (pf_sops example_ext example_pf) (Some example_nonce) (\<lambda>_. 0) [(''o'', 0)]
     (SetSigner 8 example_submitted))"
  using stale_key_never_signs [of example_ext "SetSigner 8 example_submitted" "[(''o'', 0)]" "''o''" 0 8
      "pf_sops example_ext example_pf" "Some example_nonce" "\<lambda>_. 0" 0] example_pool_ok
  by (simp add: SetSigner_def example_submitted_def example_candidate_def)

text \<open>
  A submission never succeeds on its own: what \<open>AddCheckpoint\<close> answers directly is a refusal with one of the codes
  of the protocol and changes nothing; only a pool entry that the sequencer settled can carry a 200.
\<close>

lemma AddCheckpoint_direct_answers:
  assumes "AddCheckpoint ex sops w body = (Inl (code, resp), w')"
  shows "w' = w \<and> code \<in> {StatusBadRequest, StatusConflict, StatusUnprocessableEntity,
    StatusTooManyRequests, StatusServiceUnavailable}"
  using assms by (rule AddCheckpoint_direct)

text \<open>
  C21: Admission is sound: a submission that enters the pool has the stored size as its old size, its checkpoint is a
  consistent successor of the stored state (the empty tree, the same tree, a first tree, or a tree with a verified
  consistency proof), and it is signed later only under the key that admitted it.
\<close>

theorem admitted_is_consistent:
  assumes "AddCheckpoint ex sops w body = (Inr r, w')" "w' \<noteq> w"
  shows "\<exists>req txt cp sg. parseRequest ex body = Inr req \<and> note_text (rq_note req) = Some txt
    \<and> ex_ParseCheckpoint ex txt = Some cp \<and> rq_old req = latest sops w (cp_Origin cp)
    \<and> consistent ex (st_Get sops (w_store w) (cp_Origin cp)) (cp_N cp) (cp_Hash cp)
    \<and> w_signer w = Some sg \<and> r = length (w_heap w)
    \<and> pe_candidate (w_heap w' ! r) = \<lparr>cd_cp = cp, cd_text = txt, cd_signer = sg, cd_epoch = w_epoch w\<rparr>"
proof -
  from assms obtain req tx cp sg where q: "w_signer w = Some sg" "parseRequest ex body = Inr req"
    "note_text (rq_note req) = Some tx" "ex_ParseCheckpoint ex tx = Some cp" "0 \<le> rq_old req" "rq_old req \<le> cp_N cp"
    "addToPool ex sops w req \<lparr>cd_cp = cp, cd_text = tx, cd_signer = sg, cd_epoch = w_epoch w\<rparr> = (Inr r, w')"
    by (elim AddCheckpoint_InrD) auto
  from q(7) show ?thesis
  proof (cases rule: addToPool_cases)
    case admitted
    with consistency_check_consistent [of ex req cp sops w "cp_Origin cp"] q show ?thesis by auto
  qed (use assms(2) in auto)
qed

theorem admitted_is_consistent_witness:
  "\<exists>cp. ex_ParseCheckpoint example_ext example_text = Some cp \<and> consistent example_ext None (cp_N cp) (cp_Hash cp)"
proof -
  have ne: "example_submitted \<noteq> SetSigner 7 (New example_store)"
    by (simp add: example_submitted_def SetSigner_def New_def)
  from admitted_is_consistent [OF example_AddCheckpoint ne] example_parse example_note_text show ?thesis
    by (auto simp: SetSigner_def New_def rs_Get_def ms_Get_def example_store_def)
qed

section \<open>Wire format and lookups\<close>

text \<open>
  The server parses what the client encodes: for every old size of the int64 range that is not negative, every proof
  of at most 63 hashes and every non-empty note, \<open>parseRequest\<close> of \<open>EncodeAddCheckpoint\<close> returns the three parts.
\<close>

lemma request_roundtrip:
  assumes "hash_codec_ok ex" "\<forall>h \<in> set prf. length h = 32" "length prf \<le> maxProofLines"
    "0 \<le> old" "old < 2 ^ 63" "cpNote \<noteq> []"
  shows "parseRequest ex (EncodeAddCheckpoint ex old prf cpNote) = Inr \<lparr>rq_old = old, rq_proof = prf, rq_note = cpNote\<rparr>"
  using assms by (rule parseRequest_encoded)

text \<open>
  The monitoring endpoint serves stored notes: for an origin the store knows, \<open>GET\<close> under the hex digest of the origin
  answers 200 with the stored note (of this origin, when no other known origin has the same digest); a path value that is
  not 64 lower-case hex digits is refused with 400.
\<close>

lemma checkpoint_endpoint:
  assumes "store sops sinv" "sinv (w_store w)" "crypto_ok (ex_crypto ex)"
    "st_Get sops (w_store w) origin = Some st"
    "\<And>o' st'. st_Get sops (w_store w) o' = Some st' \<Longrightarrow>
       cr_sha256 (ex_crypto ex) o' = cr_sha256 (ex_crypto ex) origin \<Longrightarrow> o' = origin"
    "wf_map (st_All sops (w_store w))"
  shows "get_checkpoint ex sops w (hex_encode (cr_sha256 (ex_crypto ex) origin)) =
     \<lparr>hr_code = StatusOK, hr_content_type = text_plain, hr_body = ls_Note st\<rparr>
    \<and> (\<not> originHashRE_match oh \<longrightarrow> hr_code (get_checkpoint ex sops w oh) = StatusBadRequest)"
proof -
  let ?h = "hex_encode (cr_sha256 (ex_crypto ex) origin)" and ?m = "st_All sops (w_store w)"
  have re: "originHashRE_match ?h" using assms(3) by (simp add: crypto_ok_def hex_encode_matches)
  have get: "map_of ?m = st_Get sops (w_store w)" using store.all_get [OF assms(1,2)] .
  have mem: "(origin, st) \<in> set ?m" using assms(4) get by (metis map_of_SomeD)
  obtain n where n: "find_origin (ex_crypto ex) ?h ?m = Some n"
    using find_origin_NoneD [OF _ mem] by fastforce
  from find_origin_SomeD [OF n] obtain o' st' where o': "(o', st') \<in> set ?m"
    "hex_encode (cr_sha256 (ex_crypto ex) o') = ?h" "ls_Note st' = n" by blast
  have "cr_sha256 (ex_crypto ex) o' = cr_sha256 (ex_crypto ex) origin"
    using o'(2) by (metis hex_decode_encode option.inject)
  moreover have g: "st_Get sops (w_store w) o' = Some st'" using o'(1) get map_of_wf_iff [OF assms(6)] by metis
  ultimately have "o' = origin" using assms(5) by blast
  with g assms(4) o'(3) n show ?thesis by (simp add: get_checkpoint_def Checkpoint_def re http_Error_def)
qed

text \<open>
  C22: The RPMB anchor keeps the contract of an anchor for every driver that keeps its own: a \<open>SetAnchor\<close> that succeeds
  had a bound state with a larger generation, and a following read returns exactly that state; one that fails left
  the old state or installed the new one.
\<close>

theorem rpmb_set_then_get:
  assumes "rpmb_driver_ok rops content" "length (as_hash next) = 32" "rpmb_SetAnchor rops r next = (e, r1)"
    "rpmb_Anchor rops r1 = (Inr s, r2)"
  shows "(e = None \<longrightarrow> s = next \<and> as_bound next \<and> as_gen (rpmb_view content r) < as_gen next)
    \<and> (e \<noteq> None \<longrightarrow> s = rpmb_view content r \<or> s = next)"
  using rpmb_SetAnchor_cases [OF assms(1,3,2)] rpmb_Anchor_ok [OF assms(1,4)] by auto

theorem rpmb_set_then_get_witness:
  "\<exists>r1 s r2. rpmb_SetAnchor sector_ops example_card \<lparr>as_gen = 1, as_hash = make_bytes 32, as_bound = True\<rparr> = (None, r1)
     \<and> rpmb_Anchor sector_ops r1 = (Inr s, r2) \<and> as_gen s = 1"
proof -
  obtain r1 where r1: "rpmb_SetAnchor sector_ops example_card \<lparr>as_gen = 1, as_hash = make_bytes 32, as_bound = True\<rparr> = (None, r1)"
    using example_SetAnchor by blast
  then obtain s r2 where g: "rpmb_Anchor sector_ops r1 = (Inr s, r2)" using example_anchor_readable by blast
  from rpmb_set_then_get [OF sector_driver_ok _ r1 g] r1 g show ?thesis by auto
qed

text \<open>
  A cosigned note can be restored: from the note that signing a checkpoint text returned, \<open>RestoreNote\<close> recovers the
  origin and the size and root hash of that checkpoint, with the note itself as the stored note.
\<close>

lemma cosigned_note_restores:
  assumes "sign_ok ex" "ex_Sign ex sg t txt = Some snote" "text_ok txt" "ex_ParseCheckpoint ex txt = Some cp"
  shows "RestoreNote ex snote = Inr (cp_Origin cp, \<lparr>ls_Size = cp_N cp, ls_Hash = cp_Hash cp, ls_Note = snote\<rparr>)"
  using assms by (rule RestoreNote_signed)

text \<open>
  The slot arithmetic stays within the device and within int64: for the two slots of an offset whose region fits
  int64, a block address that \<open>slotLBA\<close> returns starts exactly at the slot, and the slot ends within the blocks the
  device reports; the two slots do not overlap.
\<close>

lemma slot_arithmetic:
  assumes "slotLBA ops d offset slot = Inr lba" "offset_ok offset" "slot < 2" "dv_info ops d = (bs, blocks)"
  shows "0 \<le> lba \<and> 0 < bs \<and> lba * bs = offset + int slot * int SlotSize
    \<and> lba * bs + int SlotSize \<le> blocks * bs \<and> lba * bs + int SlotSize < 2 ^ 63
    \<and> \<not> (in_range (lba * bs) SlotSize addr \<and> in_range (offset + int (1 - slot) * int SlotSize) SlotSize addr)"
proof -
  obtain bs' blocks' where *: "dv_info ops d = (bs', blocks')" "0 < bs'" "0 \<le> lba" "lba * bs' = slot_base offset slot"
    "slot_base offset slot + int SlotSize < 2 ^ 63" "slot_base offset slot + int SlotSize \<le> blocks' * bs'"
    by (rule slotLBA_InrD [OF assms(1-3)])
  have s: "slot = 0 \<or> slot = 1" using assms(3) by linarith
  have "\<not> (in_range (slot_base offset slot) SlotSize addr \<and> in_range (offset + int (1 - slot) * int SlotSize) SlotSize addr)"
    using s by (auto simp: in_range_def slot_base_def)
  with * assms(4) show ?thesis by (simp add: slot_base_def)
qed

end
